(* ===== verification/Prelude.thy ===== *)
theory Prelude
  imports
    Main
    "HOL-Library.Word"
    "HOL-Library.Finite_Map"
    "HOL-Library.Multiset"
    "HOL-Library.List_Lexorder"
begin

text \<open>
  What every component of the development shares: the outcome of a Go call (a value or a
  panic, with or without the state of the receiver), Go's map reads with a zero value, the
  order in which \<open>range\<close> visits a map, Go's \<open>copy\<close>, and sorting by a \<open>less\<close> function as
  \<open>sort.Slice\<close> and \<open>sort.Sort\<close> do it.
\<close>

named_theorems go_simps \<open>evaluation of Go outcomes\<close>
named_theorems map_simps \<open>Go map reads and updates\<close>

section \<open>Outcomes of Go calls\<close>

text \<open>A pure Go computation returns a value or panics.\<close>

datatype 'a go = Ret 'a | Panic string

primrec go_bind :: "'a go \<Rightarrow> ('a \<Rightarrow> 'b go) \<Rightarrow> 'b go" where
  "go_bind (Ret a) f = f a"
| "go_bind (Panic e) f = Panic e"

lemma go_bind_Ret_iff [go_simps]:
  "go_bind x f = Ret b \<longleftrightarrow> (\<exists>a. x = Ret a \<and> f a = Ret b)"
  by (cases x) auto

lemma go_bind_Panic_iff [go_simps]:
  "go_bind x f = Panic e \<longleftrightarrow> x = Panic e \<or> (\<exists>a. x = Ret a \<and> f a = Panic e)"
  by (cases x) auto

lemma go_bind_assoc: "go_bind (go_bind x f) g = go_bind x (\<lambda>a. go_bind (f a) g)"
  by (cases x) auto

text \<open>
  A method with a mutable receiver also returns the receiver, and a panic leaves the
  receiver as it was when the panic was raised.
\<close>

datatype ('s, 'a) exec = Val 'a 's | Raise string 's

primrec exec_bind :: "('s, 'a) exec \<Rightarrow> ('a \<Rightarrow> 's \<Rightarrow> ('s, 'b) exec) \<Rightarrow> ('s, 'b) exec" where
  "exec_bind (Val a s) f = f a s"
| "exec_bind (Raise e s) f = Raise e s"

primrec exec_state :: "('s, 'a) exec \<Rightarrow> 's" where
  "exec_state (Val a s) = s"
| "exec_state (Raise e s) = s"

primrec lift_go :: "'a go \<Rightarrow> 's \<Rightarrow> ('s, 'a) exec" where
  "lift_go (Ret a) s = Val a s"
| "lift_go (Panic e) s = Raise e s"

lemma exec_bind_Val_iff [go_simps]:
  "exec_bind x f = Val b t \<longleftrightarrow> (\<exists>a s. x = Val a s \<and> f a s = Val b t)"
  by (cases x) auto

lemma exec_bind_Raise_iff [go_simps]:
  "exec_bind x f = Raise e t \<longleftrightarrow> x = Raise e t \<or> (\<exists>a s. x = Val a s \<and> f a s = Raise e t)"
  by (cases x) auto

lemma lift_go_Val_iff [go_simps]: "lift_go x s = Val a t \<longleftrightarrow> x = Ret a \<and> t = s"
  by (cases x) auto

lemma lift_go_Raise_iff [go_simps]: "lift_go x s = Raise e t \<longleftrightarrow> x = Panic e \<and> t = s"
  by (cases x) auto

lemma exec_state_lift_go [simp]: "exec_state (lift_go x s) = s"
  by (cases x) auto

section \<open>Go maps\<close>

text \<open>
  A Go map is a finite map. Reading an absent key gives the zero value of the element type;
  \<open>len\<close> is the number of keys.
\<close>

definition map_get :: "'v \<Rightarrow> ('k, 'v) fmap \<Rightarrow> 'k \<Rightarrow> 'v" where
  "map_get z m k = (case fmlookup m k of None \<Rightarrow> z | Some v \<Rightarrow> v)"

definition map_len :: "('k, 'v) fmap \<Rightarrow> int" where
  "map_len m = int (card (fmdom' m))"

lemma not_Some_unit [simp]: "x \<noteq> Some () \<longleftrightarrow> x = None"
  by (cases x) auto

lemma map_get_fmupd [map_simps, simp]:
  "map_get z (fmupd k v m) k' = (if k = k' then v else map_get z m k')"
  by (simp add: map_get_def)

lemma map_get_fmempty [map_simps, simp]: "map_get z fmempty k = z"
  by (simp add: map_get_def)

lemma map_get_Some [map_simps]: "fmlookup m k = Some v \<Longrightarrow> map_get z m k = v"
  by (simp add: map_get_def)

lemma map_get_None [map_simps]: "fmlookup m k = None \<Longrightarrow> map_get z m k = z"
  by (simp add: map_get_def)

lemma map_len_fmempty [map_simps, simp]: "map_len fmempty = 0"
  by (simp add: map_len_def)

lemma map_len_fmupd [map_simps]:
  "map_len (fmupd k v m) = (if fmlookup m k = None then map_len m + 1 else map_len m)"
  by (auto simp: map_len_def card_insert_if fmlookup_dom'_iff)

lemma map_len_nonneg [simp]: "0 \<le> map_len m"
  by (simp add: map_len_def)

text \<open>
  \<open>for k, v := range m\<close> visits every key once, in an order the runtime picks anew each time.
  The order is an argument of every definition that ranges over a map, and
  \<open>enumerates ks m\<close> says that \<open>ks\<close> is one of the orders the runtime can pick.
\<close>

definition enumerates :: "'k list \<Rightarrow> ('k, 'v) fmap \<Rightarrow> bool" where
  "enumerates ks m \<longleftrightarrow> distinct ks \<and> set ks = fmdom' m"

lemma enumerates_exists: "\<exists>ks. enumerates ks m"
  unfolding enumerates_def using finite_distinct_list [OF finite_fmdom', of m] by blast

lemma enumerates_length: "enumerates ks m \<Longrightarrow> int (length ks) = map_len m"
  by (auto simp: enumerates_def map_len_def dest!: distinct_card)

lemma enumerates_mset:
  assumes "enumerates ks m" and "enumerates ks' m"
  shows "mset ks = mset ks'"
  using assms by (simp add: enumerates_def set_eq_iff_mset_eq_distinct [symmetric])

lemma enumerates_lookup: "enumerates ks m \<Longrightarrow> k \<in> set ks \<Longrightarrow> \<exists>v. fmlookup m k = Some v"
  by (auto simp: enumerates_def fmlookup_dom'_iff)

lemma sum_ge_card: "(\<And>x. x \<in> X \<Longrightarrow> (n::nat) \<le> g x) \<Longrightarrow> finite X \<Longrightarrow> card X * n \<le> sum g X"
  using sum_bounded_below [of X n g] by simp

section \<open>Byte slices\<close>

type_synonym bytes = "8 word list"

text \<open>Go's \<open>copy(dst, src)\<close>: the first \<open>min (len dst) (len src)\<close> elements are overwritten.\<close>

definition go_copy :: "'a list \<Rightarrow> 'a list \<Rightarrow> 'a list" where
  "go_copy dst src = take (length dst) src @ drop (length src) dst"

lemma length_go_copy [simp]: "length (go_copy dst src) = length dst"
  by (simp add: go_copy_def)

lemma go_copy_same_length: "length src = length dst \<Longrightarrow> go_copy dst src = src"
  by (simp add: go_copy_def)

section \<open>Sorting by a less function\<close>

text \<open>
  \<open>sort.Slice(xs, less)\<close> and \<open>sort.Sort\<close> promise a permutation in which no element is less
  than one before it; insertion sort is a concrete such algorithm. Where \<open>less\<close> is a strict
  total order there is only one such permutation, so the choice of algorithm does not show.
\<close>

fun insert_by :: "('a \<Rightarrow> 'a \<Rightarrow> bool) \<Rightarrow> 'a \<Rightarrow> 'a list \<Rightarrow> 'a list" where
  "insert_by lt x [] = [x]"
| "insert_by lt x (y # ys) = (if lt y x then y # insert_by lt x ys else x # y # ys)"

fun sort_by :: "('a \<Rightarrow> 'a \<Rightarrow> bool) \<Rightarrow> 'a list \<Rightarrow> 'a list" where
  "sort_by lt [] = []"
| "sort_by lt (x # xs) = insert_by lt x (sort_by lt xs)"

lemma mset_insert_by [simp]: "mset (insert_by lt x xs) = add_mset x (mset xs)"
  by (induction xs) auto

lemma mset_sort_by [simp]: "mset (sort_by lt xs) = mset xs"
  by (induction xs) auto

lemma set_sort_by [simp]: "set (sort_by lt xs) = set xs"
  by (metis mset_sort_by set_mset_mset)

lemma length_sort_by [simp]: "length (sort_by lt xs) = length xs"
  by (metis mset_sort_by size_mset)

lemma distinct_sort_by [simp]: "distinct (sort_by lt xs) = distinct xs"
  by (metis mset_eq_imp_distinct_iff mset_sort_by)

lemma set_insert_by: "set (insert_by lt x xs) = insert x (set xs)"
  by (metis mset_insert_by set_mset_add_mset_insert set_mset_mset)

text \<open>
  The interface of a \<open>less\<close> function whose sort is determined: a strict order that is total on
  elements with different keys. Sorting elements with pairwise different keys then has a single
  result, which does not depend on the order its input came in.
\<close>

locale keyed_less =
  fixes lt :: "'a \<Rightarrow> 'a \<Rightarrow> bool"
    and key :: "'a \<Rightarrow> 'k"
  assumes less_irrefl: "\<not> lt x x"
    and less_trans: "lt x y \<Longrightarrow> lt y z \<Longrightarrow> lt x z"
    and less_total: "key x \<noteq> key y \<Longrightarrow> lt x y \<or> lt y x"
begin

lemma less_asym: "lt x y \<Longrightarrow> \<not> lt y x"
  using less_irrefl less_trans by blast

lemma sorted_insert_by:
  "sorted_wrt lt xs \<Longrightarrow> key x \<notin> key ` set xs \<Longrightarrow> sorted_wrt lt (insert_by lt x xs)"
proof (induction xs)
  case Nil
  then show ?case by simp
next
  case (Cons y ys)
  show ?case
  proof (cases "lt y x")
    case True
    then have "lt y z" if "z \<in> set (insert_by lt x ys)" for z
      using Cons.prems(1) that by (auto simp: set_insert_by)
    with True Cons show ?thesis by simp
  next
    case False
    then have xy: "lt x y" using Cons.prems(2) less_total [of x y] by auto
    then have "lt x z" if "z \<in> set ys" for z
      using Cons.prems(1) that less_trans [of x y z] by simp
    with xy False Cons.prems(1) show ?thesis by simp
  qed
qed

lemma sorted_sort_by: "distinct (map key xs) \<Longrightarrow> sorted_wrt lt (sort_by lt xs)"
  by (induction xs) (auto intro: sorted_insert_by)

lemma sorted_set_unique:
  "sorted_wrt lt xs \<Longrightarrow> sorted_wrt lt ys \<Longrightarrow> set xs = set ys \<Longrightarrow> xs = ys"
proof (induction xs arbitrary: ys)
  case Nil
  then show ?case by simp
next
  case (Cons x xs)
  then obtain y ys' where ys: "ys = y # ys'" by (cases ys) auto
  have "x = y"
  proof (rule ccontr)
    assume "x \<noteq> y"
    moreover have "x \<in> set ys" "y \<in> set (x # xs)"
      using Cons.prems(3) ys by (metis list.set_intros(1))+
    ultimately have "lt y x" "lt x y" using Cons.prems(1,2) ys by auto
    then show False using less_asym by blast
  qed
  moreover have "x \<notin> set xs" and "y \<notin> set ys'"
    using Cons.prems(1,2) ys less_irrefl by auto
  ultimately have "set xs = set ys'" using Cons.prems(3) ys by auto
  with Cons ys \<open>x = y\<close> show ?case by simp
qed

lemma sort_by_cong:
  assumes "distinct (map key xs)" and "mset xs = mset ys"
  shows "sort_by lt xs = sort_by lt ys"
proof (rule sorted_set_unique)
  have "distinct (map key ys)"
    using assms by (metis mset_eq_imp_distinct_iff mset_map)
  then show "sorted_wrt lt (sort_by lt xs)" "sorted_wrt lt (sort_by lt ys)"
    using assms(1) by (auto intro: sorted_sort_by)
  show "set (sort_by lt xs) = set (sort_by lt ys)"
    using mset_eq_setD [OF assms(2)] by simp
qed

end

text \<open>The order of \<open>bytes.Compare\<close> on slices is such a \<open>less\<close> function.\<close>

interpretation bytes_less: keyed_less "(<) :: bytes \<Rightarrow> bytes \<Rightarrow> bool" id
  by unfold_locales auto

end
