(* ===== verification/Byte32.thy ===== *)
theory Byte32
  imports Prelude
begin

unbundle bit_operations_syntax

text \<open>
  The 32-byte array type of \<open>pkg/decoo/types/byte32.go\<close>, which is also the type of block IDs,
  milestone IDs, peer IDs and public keys: \<open>Byte32FromSlice\<close>, \<open>NewByte32\<close>, the hexadecimal text
  form (\<open>MarshalText\<close>, \<open>UnmarshalText\<close>, \<open>String\<close>) and the flag parser \<open>Set\<close>, with the parts of
  Go's \<open>encoding/hex\<close> and \<open>strings.TrimSpace\<close> they call. Text is a list of bytes, as a Go
  string is.
\<close>

section \<open>The array type\<close>

typedef byte32 = "{bs :: bytes. length bs = 32}"
  morphisms bytes_of of_bytes
  by (rule exI [of _ "replicate 32 0"]) simp

setup_lifting type_definition_byte32

lemma length_bytes_of [simp]: "length (bytes_of b) = 32"
  using bytes_of [of b] by simp

lift_definition zero32 :: byte32 is "replicate 32 0"
  by simp

text \<open>\<open>copy(b[:], src)\<close> on an array.\<close>

lift_definition copy32 :: "byte32 \<Rightarrow> bytes \<Rightarrow> byte32" is
  "go_copy :: bytes \<Rightarrow> bytes \<Rightarrow> bytes"
  by simp

declare zero32.rep_eq [simp]

lemma bytes_of_copy32: "length src = 32 \<Longrightarrow> bytes_of (copy32 b src) = src"
  by (simp add: copy32.rep_eq go_copy_same_length)

lemma copy32_bytes_of [simp]: "copy32 b (bytes_of c) = c"
  by (simp add: bytes_of_inject [symmetric] bytes_of_copy32)

lemma bytes_of_eqI: "bytes_of a = bytes_of b \<Longrightarrow> a = b"
  by (simp add: bytes_of_inject)

instantiation byte32 :: equal
begin

definition equal_byte32 :: "byte32 \<Rightarrow> byte32 \<Rightarrow> bool" where
  "equal_byte32 a b \<longleftrightarrow> bytes_of a = bytes_of b"

instance
  by intro_classes (simp add: equal_byte32_def bytes_of_inject)

end

text \<open>The order of \<open>bytes.Compare(a[:], b[:])\<close>.\<close>

instantiation byte32 :: linorder
begin

definition less_eq_byte32 :: "byte32 \<Rightarrow> byte32 \<Rightarrow> bool" where
  "less_eq_byte32 a b \<longleftrightarrow> bytes_of a \<le> bytes_of b"

definition less_byte32 :: "byte32 \<Rightarrow> byte32 \<Rightarrow> bool" where
  "less_byte32 a b \<longleftrightarrow> bytes_of a < bytes_of b"

instance
  by intro_classes (auto simp: less_eq_byte32_def less_byte32_def intro: bytes_of_eqI)

end

text \<open>\<open>b32 w\<close> is the array that holds \<open>w\<close> and then zeros: concrete values for examples.\<close>

definition b32 :: "8 word \<Rightarrow> byte32" where
  "b32 w = copy32 zero32 [w]"

lemma bytes_of_b32: "bytes_of (b32 w) = w # replicate 31 0"
  by (simp add: b32_def copy32.rep_eq go_copy_def eval_nat_numeral)

lemma b32_inject [simp]: "b32 v = b32 w \<longleftrightarrow> v = w"
  by (simp add: bytes_of_inject [symmetric] bytes_of_b32)

lemma b32_less [simp]: "b32 v < b32 w \<longleftrightarrow> v < w"
  by (simp add: less_byte32_def bytes_of_b32)

lemma b32_le [simp]: "b32 v \<le> b32 w \<longleftrightarrow> v \<le> w"
  by (auto simp: less_eq_byte32_def bytes_of_b32)

section \<open>Conversions\<close>

text \<open>A slice of another length is a programming error: the code panics.\<close>

definition Byte32FromSlice :: "bytes \<Rightarrow> byte32 go" where
  "Byte32FromSlice src =
     (if length src \<noteq> 32 then Panic ''invalid byte slice length''
      else Ret (copy32 zero32 src))"

text \<open>\<open>NewByte32\<close> writes the default into the array \<open>p\<close> points to and returns the array.\<close>

definition NewByte32 :: "byte32 \<Rightarrow> byte32 \<Rightarrow> byte32" where
  "NewByte32 defaultVal p = copy32 p (bytes_of defaultVal)"

lemma Byte32FromSlice_bytes_of [simp]: "Byte32FromSlice (bytes_of b) = Ret b"
  by (simp add: Byte32FromSlice_def)

lemma Byte32FromSlice_Ret_iff [go_simps]:
  "Byte32FromSlice s = Ret b \<longleftrightarrow> s = bytes_of b"
  by (auto simp: Byte32FromSlice_def bytes_of_copy32)

lemma Byte32FromSlice_Panic_iff [go_simps]:
  "Byte32FromSlice s = Panic e \<longleftrightarrow> length s \<noteq> 32 \<and> e = ''invalid byte slice length''"
  by (auto simp: Byte32FromSlice_def)

section \<open>Hexadecimal text\<close>

text \<open>\<open>hex.Encode\<close>: two lower-case digits per byte, high nibble first.\<close>

definition hex_digit :: "8 word \<Rightarrow> 8 word" where
  "hex_digit n = (if n < 10 then 0x30 + n else 0x57 + n)"

fun hex_encode :: "bytes \<Rightarrow> bytes" where
  "hex_encode [] = []"
| "hex_encode (v # src) = hex_digit (drop_bit 4 v) # hex_digit (v AND 15) # hex_encode src"

text \<open>\<open>hex.Decode\<close>: digits of both cases; the bytes decoded before the first problem, and the problem.\<close>

datatype hex_error = InvalidByteError "8 word" | ErrLength

definition from_hex :: "8 word \<Rightarrow> 8 word option" where
  "from_hex c =
     (if 0x30 \<le> c \<and> c \<le> 0x39 then Some (c - 0x30)
      else if 0x61 \<le> c \<and> c \<le> 0x66 then Some (c - 0x57)
      else if 0x41 \<le> c \<and> c \<le> 0x46 then Some (c - 0x37)
      else None)"

fun hex_decode :: "bytes \<Rightarrow> bytes \<times> hex_error option" where
  "hex_decode [] = ([], None)"
| "hex_decode [p] = (case from_hex p of None \<Rightarrow> ([], Some (InvalidByteError p)) | Some _ \<Rightarrow> ([], Some ErrLength))"
| "hex_decode (p # q # src) =
     (case from_hex p of None \<Rightarrow> ([], Some (InvalidByteError p))
      | Some a \<Rightarrow>
        (case from_hex q of None \<Rightarrow> ([], Some (InvalidByteError q))
         | Some b \<Rightarrow> (case hex_decode src of (ds, e) \<Rightarrow> ((push_bit 4 a OR b) # ds, e))))"

definition MarshalText :: "byte32 \<Rightarrow> bytes" where
  "MarshalText b = hex_encode (bytes_of b)"

definition Byte32_String :: "byte32 \<Rightarrow> bytes" where
  "Byte32_String b = hex_encode (bytes_of b)"

text \<open>
  \<open>hex.Decode(b[:], text)\<close> writes each decoded byte into the array as it goes, also those
  before an invalid digit, and indexing past the 32nd byte panics.
\<close>

definition UnmarshalText :: "byte32 \<Rightarrow> bytes \<Rightarrow> (byte32 \<times> hex_error option) go" where
  "UnmarshalText b text =
     (case hex_decode text of (ds, e) \<Rightarrow>
        if 32 < length ds then Panic ''index out of range'' else Ret (copy32 b ds, e))"

text \<open>\<open>strings.TrimSpace\<close>: the UTF-8 encodings of the code points Unicode calls white space.\<close>

definition space_seqs :: "bytes list" where
  "space_seqs =
     [[0x09], [0x0A], [0x0B], [0x0C], [0x0D], [0x20], [0xC2, 0x85], [0xC2, 0xA0],
      [0xE1, 0x9A, 0x80]]
     @ map (\<lambda>c. [0xE2, 0x80, c])
         [0x80, 0x81, 0x82, 0x83, 0x84, 0x85, 0x86, 0x87, 0x88, 0x89, 0x8A, 0xA8, 0xA9, 0xAF]
     @ [[0xE2, 0x81, 0x9F], [0xE3, 0x80, 0x80]]"

definition starts_with :: "bytes \<Rightarrow> bytes \<Rightarrow> bool" where
  "starts_with s w \<longleftrightarrow> w \<noteq> [] \<and> take (length w) s = w"

function trim_left :: "bytes list \<Rightarrow> bytes \<Rightarrow> bytes" where
  "trim_left seqs s =
     (case find (starts_with s) seqs of None \<Rightarrow> s | Some w \<Rightarrow> trim_left seqs (drop (length w) s))"
  by pat_completeness auto
termination
  by (relation "measure (\<lambda>(seqs, s). length s)")
     (auto simp: find_Some_iff starts_with_def intro!: diff_less length_greater_0_conv [THEN iffD2])

declare trim_left.simps [simp del]

definition TrimSpace :: "bytes \<Rightarrow> bytes" where
  "TrimSpace s = rev (trim_left (map rev space_seqs) (rev (trim_left space_seqs s)))"

datatype byte32_error = InvalidLength nat | HexError hex_error

text \<open>The flag parser: the receiver is written only when the text is accepted.\<close>

definition Byte32_Set :: "byte32 \<Rightarrow> bytes \<Rightarrow> byte32 \<times> byte32_error option" where
  "Byte32_Set b s =
     (let trimmed = TrimSpace s in
      if length trimmed \<noteq> 64 then (b, Some (InvalidLength (length trimmed)))
      else (case hex_decode trimmed of
              (dec, Some e) \<Rightarrow> (b, Some (HexError e))
            | (dec, None) \<Rightarrow> (copy32 b dec, None)))"

section \<open>Facts about the text form\<close>

lemma nibble_cases: "list_all (\<lambda>n. from_hex (hex_digit n) = Some n) [0, 1, 2, 3, 4, 5, 6, 7, 8, 9, 10, 11, 12, 13, 14, 15]"
  by code_simp

lemma nibble_mem: "n < 16 \<Longrightarrow> n \<in> set [0, 1, 2, 3, 4, 5, 6, 7, 8, 9, 10, 11, 12, 13, 14, 15 :: 8 word]"
proof -
  assume "n < 16"
  then have "unat n < 16" by (simp add: word_less_nat_alt)
  then have "unat n \<in> {0, 1, 2, 3, 4, 5, 6, 7, 8, 9, 10, 11, 12, 13, 14, 15}"
    by (simp only: insert_iff empty_iff) presburger
  then have "word_of_nat (unat n) \<in> (word_of_nat ` {0, 1, 2, 3, 4, 5, 6, 7, 8, 9, 10, 11, 12, 13, 14, 15} :: 8 word set)" by (rule imageI)
  then show ?thesis by simp
qed

lemma from_hex_digit: "n < 16 \<Longrightarrow> from_hex (hex_digit n) = Some n"
  using nibble_cases nibble_mem [of n] by (auto simp: list_all_iff)

lemma nib_bound: "drop_bit 4 (v :: 8 word) < 16" "v AND 15 < (16 :: 8 word)"
proof -
  have "unat v < 2 ^ 8" using unsigned_less [of v] by simp
  then show "drop_bit 4 (v :: 8 word) < 16" by (simp only: word_less_nat_alt unat_drop_bit_eq) (simp add: drop_bit_eq_div)
  show "v AND 15 < (16 :: 8 word)" using word_and_le1 [of v 15] by (rule order_le_less_trans) simp
qed

lemma nibbles: "push_bit 4 (drop_bit 4 v) OR (v AND 15) = (v :: 8 word)"
proof (rule bit_word_eqI)
  fix k assume "k < LENGTH(8)"
  have *: "(15 :: 8 word) = mask 4" by (simp add: mask_eq_exp_minus_1)
  show "bit (push_bit 4 (drop_bit 4 v) OR v AND 15) k = bit v k"
    using \<open>k < _\<close> unfolding * by (auto simp: bit_simps)
qed

lemma hex_decode_encode: "hex_decode (hex_encode bs @ rest) = (case hex_decode rest of (ds, e) \<Rightarrow> (bs @ ds, e))"
  by (induction bs) (auto simp: from_hex_digit nib_bound nibbles split: prod.splits)

lemma length_hex_encode [simp]: "length (hex_encode bs) = 2 * length bs"
  by (induction bs) auto

definition prefix_code :: "bytes list \<Rightarrow> bool" where
  "prefix_code seqs \<longleftrightarrow> list_all (\<lambda>v. v \<noteq> [] \<and> list_all (\<lambda>w. take (length v) w = v \<longrightarrow> v = w) seqs) seqs"

lemma prefix_code_space: "prefix_code space_seqs" "prefix_code (map rev space_seqs)"
  unfolding prefix_code_def by code_simp+

lemma starts_with_unique:
  assumes "prefix_code seqs" "v \<in> set seqs" "w \<in> set seqs" "starts_with s v" "starts_with s w"
  shows "v = w"
proof -
  have "take (length v) w = v \<or> take (length w) v = w"
    using assms(4,5) unfolding starts_with_def
    by (metis min.commute min_def take_take)
  then show ?thesis
    using assms(1-3) by (auto simp: prefix_code_def list_all_iff)
qed

lemma trim_left_concat:
  assumes "prefix_code seqs" "list_all (\<lambda>w. \<not> starts_with s w) seqs" 
  shows "ws \<in> lists (set seqs) \<Longrightarrow> trim_left seqs (concat ws @ s) = s"
proof (induction ws)
  case Nil
  have "find (starts_with s) seqs = None" using assms(2) by (auto simp: find_None_iff list_all_iff)
  then show ?case by (simp add: trim_left.simps)
next
  case (Cons w ws)
  let ?s = "concat (w # ws) @ s"
  have w: "w \<in> set seqs" "starts_with ?s w"
    using Cons.prems assms(1) by (auto simp: starts_with_def prefix_code_def list_all_iff)
  then obtain v where v: "find (starts_with ?s) seqs = Some v"
    by (metis find_None_iff not_Some_eq)
  then have "v \<in> set seqs" "starts_with ?s v"
    by (auto simp: find_Some_iff)
  with w assms(1) have "v = w" by (metis starts_with_unique)
  with v have "trim_left seqs ?s = trim_left seqs (concat ws @ s)"
    by (subst trim_left.simps) simp
  with Cons show ?case by simp
qed

lemma not_starts_with: "s \<noteq> [] \<Longrightarrow> list_all (\<lambda>w. hd w \<noteq> hd s) seqs \<Longrightarrow> list_all (\<lambda>w. \<not> starts_with (s @ t) w) seqs"
proof -
  assume s: "s \<noteq> []" and a: "list_all (\<lambda>w. hd w \<noteq> hd s) seqs"
  have "hd w = hd s" if "starts_with (s @ t) w" for w
    using s that by (cases s; cases w) (auto simp: starts_with_def)
  with a show ?thesis by (auto simp: list_all_iff)
qed

definition visible :: "8 word \<Rightarrow> bool" where
  "visible c \<longleftrightarrow> list_all (\<lambda>w. hd w \<noteq> c \<and> last w \<noteq> c) space_seqs"

lemma TrimSpace_padded:
  assumes "s \<noteq> []" "visible (hd s)" "visible (last s)"
    "ws \<in> lists (set space_seqs)" "vs \<in> lists (set space_seqs)"
  shows "TrimSpace (concat ws @ s @ concat vs) = s"
proof -
  have ne: "w \<noteq> []" if "w \<in> set space_seqs" for w
    using that prefix_code_space(1) by (auto simp: prefix_code_def list_all_iff)
  have l: "trim_left space_seqs (concat ws @ s @ concat vs) = s @ concat vs"
    using assms prefix_code_space(1)
    by (intro trim_left_concat not_starts_with) (auto simp: visible_def list_all_iff)
  have "list_all (\<lambda>w. hd w \<noteq> hd (rev s)) (map rev space_seqs)"
    using assms(1,3) ne by (auto simp: visible_def list_all_iff hd_rev)
  then have n: "list_all (\<lambda>w. \<not> starts_with (rev s) w) (map rev space_seqs)"
    using not_starts_with [of "rev s" "map rev space_seqs" "[]"] assms(1) by simp
  have "trim_left (map rev space_seqs) (concat (map rev (rev vs)) @ rev s) = rev s"
    using assms(5) by (intro trim_left_concat prefix_code_space n) (auto simp: in_lists_conv_set)
  then show ?thesis
    by (simp add: TrimSpace_def l rev_concat rev_map)
qed

lemma visible_hex_digit: "n < 16 \<Longrightarrow> visible (hex_digit n)"
proof -
  have "list_all (\<lambda>n. visible (hex_digit n)) [0, 1, 2, 3, 4, 5, 6, 7, 8, 9, 10, 11, 12, 13, 14, 15]"
    by code_simp
  then show "n < 16 \<Longrightarrow> visible (hex_digit n)"
    using nibble_mem [of n] by (auto simp: list_all_iff)
qed

lemma hex_encode_visible: "list_all visible (hex_encode bs)"
  by (induction bs) (auto simp: visible_hex_digit nib_bound)

lemma hex_decode_ok_iff: "snd (hex_decode s) = None \<longleftrightarrow> even (length s) \<and> list_all (\<lambda>c. from_hex c \<noteq> None) s"
  by (induction s rule: hex_decode.induct) (auto split: option.splits prod.splits)

lemma hex_decode_ok_length: "snd (hex_decode s) = None \<Longrightarrow> 2 * length (fst (hex_decode s)) = length s"
  by (induction s rule: hex_decode.induct) (auto split: option.splits prod.splits)

lemma hex_decode_MarshalText: "hex_decode (MarshalText b) = (bytes_of b, None)"
  using hex_decode_encode [of "bytes_of b" "[]"] by (simp add: MarshalText_def)

lemma Byte32_Set_String:
  assumes "ws \<in> lists (set space_seqs)" and "vs \<in> lists (set space_seqs)"
  shows "Byte32_Set b (concat ws @ Byte32_String c @ concat vs) = (c, None)"
proof -
  let ?s = "Byte32_String c"
  have s: "?s \<noteq> []" "length ?s = 64"
    using length_hex_encode [of "bytes_of c"] by (auto simp: Byte32_String_def simp del: length_hex_encode)
  have "visible (hd ?s)" "visible (last ?s)"
    using s(1) hex_encode_visible [of "bytes_of c"] by (auto simp: Byte32_String_def list_all_iff)
  with s assms have "TrimSpace (concat ws @ ?s @ concat vs) = ?s"
    by (intro TrimSpace_padded)
  moreover have "hex_decode ?s = (bytes_of c, None)"
    using hex_decode_encode [of "bytes_of c" "[]"] by (simp add: Byte32_String_def)
  ultimately show ?thesis
    using s(2) by (simp add: Byte32_Set_def)
qed

section \<open>Properties\<close>

text \<open>
  The flag parser \<open>Set\<close> inverts \<open>String\<close>, with any white space (of Unicode, in UTF-8)
  before and after the digits.
\<close>
theorem Byte32_Set_round_trip:
  assumes "ws \<in> lists (set space_seqs)" and "vs \<in> lists (set space_seqs)"
  shows "Byte32_Set b (concat ws @ Byte32_String c @ concat vs) = (c, None)"
  using assms by (rule Byte32_Set_String)

theorem Byte32_Set_round_trip_witness:
  "Byte32_Set zero32 (concat [[0x20], [0xC2, 0xA0]] @ Byte32_String (b32 7) @ concat [[0x0A]]) = (b32 7, None)"
  by (rule Byte32_Set_round_trip) (simp_all add: space_seqs_def)

text \<open>
  \<open>Set\<close> accepts exactly the texts that are 64 hexadecimal digits after trimming; what it
  stores is what the digits decode to, and a rejected text leaves the receiver as it was.
\<close>
theorem Byte32_Set_accepts:
  "(snd (Byte32_Set b s) = None \<longleftrightarrow>
      length (TrimSpace s) = 64 \<and> list_all (\<lambda>c. from_hex c \<noteq> None) (TrimSpace s))
   \<and> (snd (Byte32_Set b s) = None \<longleftrightarrow>
      hex_decode (TrimSpace s) = (bytes_of (fst (Byte32_Set b s)), None))
   \<and> (fst (Byte32_Set b s) = b \<or> snd (Byte32_Set b s) = None)"
proof -
  obtain dec e where d: "hex_decode (TrimSpace s) = (dec, e)"
    by (cases "hex_decode (TrimSpace s)")
  have ok: "e = None \<longleftrightarrow> even (length (TrimSpace s)) \<and> list_all (\<lambda>c. from_hex c \<noteq> None) (TrimSpace s)"
    using hex_decode_ok_iff [of "TrimSpace s"] d by simp
  have len: "e = None \<Longrightarrow> 2 * length dec = length (TrimSpace s)"
    using hex_decode_ok_length [of "TrimSpace s"] d by simp
  show ?thesis
  proof (cases "length (TrimSpace s) = 64 \<and> e = None")
    case True
    then have "length dec = 32" using len by simp
    with True d ok show ?thesis by (simp add: Byte32_Set_def bytes_of_copy32)
  next
    case False
    then have "snd (Byte32_Set b s) \<noteq> None \<and> fst (Byte32_Set b s) = b"
      using d by (auto simp: Byte32_Set_def Let_def)
    moreover have "\<not> (e = None \<and> dec = bytes_of b)"
      using False len by auto
    ultimately show ?thesis using False d ok by auto
  qed
qed

text \<open>
  \<open>UnmarshalText\<close> decodes what \<open>MarshalText\<close> writes. A shorter text is accepted too and
  replaces only a prefix of the array; a text of more than 32 encoded bytes is not an error
  but a panic.
\<close>
theorem UnmarshalText_of_hex:
  "UnmarshalText b (MarshalText c) = Ret (c, None)
   \<and> UnmarshalText b (hex_encode bs) =
       (if 32 < length bs then Panic ''index out of range'' else Ret (copy32 b bs, None))"
  using hex_decode_encode [of bs "[]"] by (simp add: UnmarshalText_def hex_decode_MarshalText)

end
