(* ===== verification/Committee.thy ===== *)
theory Committee
  imports Byte32
begin

text \<open>
  The committee of validators, \<open>pkg/decoo/committee.go\<close>: its sizes \<open>n\<close>, \<open>f\<close>, \<open>t\<close>, the key
  manager that gives the members' keys per milestone index, signing and verification. Ed25519
  itself is a parameter: the fields of \<open>crypto_lib\<close>, with \<open>ed25519_ok\<close> as the behaviour that
  \<open>crypto/ed25519\<close> documents. Go's \<open>int\<close> sizes and counts of the committee are \<open>int\<close>.
\<close>

section \<open>Ed25519\<close>

text \<open>An \<open>ed25519.PrivateKey\<close> is the seed followed by the public key.\<close>

record private_key =
  seed :: byte32
  pubkey :: byte32

record crypto_lib =
  pub_of_seed :: "byte32 \<Rightarrow> byte32"
  sign_raw :: "private_key \<Rightarrow> bytes \<Rightarrow> bytes"
  verify_raw :: "byte32 \<Rightarrow> bytes \<Rightarrow> bytes \<Rightarrow> bool"

definition NewKeyFromSeed :: "'z crypto_lib_scheme \<Rightarrow> byte32 \<Rightarrow> private_key" where
  "NewKeyFromSeed cl s = \<lparr>seed = s, pubkey = pub_of_seed cl s\<rparr>"

text \<open>\<open>ed25519.Verify\<close> panics on a public key and rejects a signature of the wrong length.\<close>

definition ed_Verify :: "'z crypto_lib_scheme \<Rightarrow> bytes \<Rightarrow> bytes \<Rightarrow> bytes \<Rightarrow> bool go" where
  "ed_Verify cl pk msg sig =
     (if length pk \<noteq> 32 then Panic ''ed25519: bad public key length''
      else Ret (length sig = 64 \<and> verify_raw cl (copy32 zero32 pk) msg sig))"

definition ed25519_ok :: "'z crypto_lib_scheme \<Rightarrow> bool" where
  "ed25519_ok cl \<longleftrightarrow>
     (\<forall>s m. length (sign_raw cl (NewKeyFromSeed cl s) m) = 64 \<and>
            verify_raw cl (pub_of_seed cl s) m (sign_raw cl (NewKeyFromSeed cl s) m))"

text \<open>The keys the program holds come from \<open>NewKeyFromSeed\<close>.\<close>

definition keypair :: "'z crypto_lib_scheme \<Rightarrow> private_key \<Rightarrow> bool" where
  "keypair cl k \<longleftrightarrow> pubkey k = pub_of_seed cl (seed k)"

lemma ed25519_ok_sign:
  assumes "ed25519_ok cl" and "keypair cl k"
  shows "length (sign_raw cl k m) = 64" and "verify_raw cl (pubkey k) m (sign_raw cl k m)"
proof -
  have k: "k = NewKeyFromSeed cl (seed k)" and pk: "pubkey k = pub_of_seed cl (seed k)"
    using assms(2) by (simp_all add: keypair_def NewKeyFromSeed_def)
  show "length (sign_raw cl k m) = 64"
    using assms(1) unfolding ed25519_ok_def by (subst k) blast
  show "verify_raw cl (pubkey k) m (sign_raw cl k m)"
    using assms(1) unfolding ed25519_ok_def pk by (subst k) blast
qed

lemma ed_Verify_bytes_of [simp]:
  "ed_Verify cl (bytes_of pk) m sig = Ret (length sig = 64 \<and> verify_raw cl pk m sig)"
  by (simp add: ed_Verify_def)

section \<open>The committee\<close>

type_synonym peer_id = byte32

datatype committee_error = ErrNonApplicablePublicKey | ErrInvalidSignature

record committee =
  privateKey :: private_key
  com_n :: int
  com_f :: int
  com_t :: int
  manager :: "32 word \<Rightarrow> peer_id set"

definition IDFromPublicKey :: "bytes \<Rightarrow> peer_id go" where
  "IDFromPublicKey publicKey = Byte32FromSlice publicKey"

text \<open>The quotient of the code: \<open>n - 1\<close> is not negative here, so Go's \<open>/\<close> is \<open>div\<close>.\<close>

definition max_faulty :: "int \<Rightarrow> int" where
  "max_faulty n = (n - 1) div 3"

definition maxFaulty :: "int \<Rightarrow> int go" where
  "maxFaulty n =
     (if n \<le> 0 then Panic ''Committee: at least one member required'' else Ret (max_faulty n))"

definition NewCommitteeFromManager ::
    "private_key \<Rightarrow> int \<Rightarrow> int \<Rightarrow> (32 word \<Rightarrow> peer_id set) \<Rightarrow> committee go" where
  "NewCommitteeFromManager k n t mgr =
     go_bind (maxFaulty n) (\<lambda>f.
       Ret \<lparr>privateKey = k, com_n = n, com_f = f, com_t = t, manager = mgr\<rparr>)"

text \<open>The loop that fills the key set, which panics on a duplicate.\<close>

fun add_members :: "bytes list \<Rightarrow> peer_id set \<Rightarrow> peer_id set go" where
  "add_members [] keySet = Ret keySet"
| "add_members (member # publicKeys) keySet =
     go_bind (Byte32FromSlice member) (\<lambda>publicKey.
       if publicKey \<in> keySet then Panic ''Committee: duplicate public key''
       else add_members publicKeys (insert publicKey keySet))"

definition PublicKey :: "committee \<Rightarrow> bytes" where
  "PublicKey c = bytes_of (pubkey (privateKey c))"

definition ID :: "committee \<Rightarrow> peer_id go" where
  "ID c = IDFromPublicKey (PublicKey c)"

definition Members :: "committee \<Rightarrow> 32 word \<Rightarrow> peer_id set" where
  "Members c msIndex = manager c msIndex"

text \<open>The key manager of a committee built from a list of keys is the same for every index.\<close>

definition singleKeyRange :: "peer_id set \<Rightarrow> 32 word \<Rightarrow> peer_id set" where
  "singleKeyRange r msIndex = r"

definition NewCommittee :: "private_key \<Rightarrow> bytes list \<Rightarrow> committee go" where
  "NewCommittee k publicKeys =
     (let n = int (length publicKeys) in
      go_bind (maxFaulty n) (\<lambda>f.
      go_bind (add_members publicKeys {}) (\<lambda>keySet.
      go_bind (Byte32FromSlice (bytes_of (pubkey k))) (\<lambda>publicKey.
        if publicKey \<notin> keySet then Panic ''Committee: private key does not belong to a public key''
        else NewCommitteeFromManager k n (n - f) (singleKeyRange keySet)))))"

record ed25519_signature =
  sigPublicKey :: peer_id
  sigSignature :: bytes

text \<open>\<open>copy\<close> into the 64-byte array of a new signature.\<close>

definition copy64 :: "bytes \<Rightarrow> bytes" where
  "copy64 src = go_copy (replicate 64 0) src"

definition Sign :: "'z crypto_lib_scheme \<Rightarrow> committee \<Rightarrow> bytes \<Rightarrow> ed25519_signature" where
  "Sign cl c message =
     \<lparr>sigPublicKey = copy32 zero32 (PublicKey c),
      sigSignature = copy64 (sign_raw cl (privateKey c) message)\<rparr>"

definition VerifySingle ::
    "'z crypto_lib_scheme \<Rightarrow> committee \<Rightarrow> 32 word \<Rightarrow> bytes \<Rightarrow> bytes \<Rightarrow> bytes
     \<Rightarrow> committee_error option go" where
  "VerifySingle cl c msIndex message publicKey signature =
     go_bind (IDFromPublicKey publicKey) (\<lambda>peer.
       if peer \<notin> manager c msIndex then Ret (Some ErrNonApplicablePublicKey)
       else go_bind (ed_Verify cl publicKey message signature) (\<lambda>ok.
         if \<not> ok then Ret (Some ErrInvalidSignature) else Ret None))"

section \<open>Facts about the operations\<close>

lemma length_copy64 [simp]: "length (copy64 s) = 64"
  by (simp add: copy64_def)

lemma copy64_id: "length s = 64 \<Longrightarrow> copy64 s = s"
  by (simp add: copy64_def go_copy_same_length)

lemma ID_Ret [simp]: "ID c = Ret (pubkey (privateKey c))"
  by (simp add: ID_def IDFromPublicKey_def PublicKey_def)

lemma IDFromPublicKey_bytes_of [simp]: "IDFromPublicKey (bytes_of p) = Ret p"
  by (simp add: IDFromPublicKey_def)

lemma add_members_Ret_iff:
  "add_members pks ks = Ret ks' \<longleftrightarrow>
     list_all (\<lambda>p. length p = 32) pks \<and> distinct pks \<and> set pks \<inter> bytes_of ` ks = {} \<and>
     bytes_of ` ks' = set pks \<union> bytes_of ` ks"
proof (induction pks arbitrary: ks)
  case Nil
  have "inj bytes_of" by (simp add: inj_def bytes_of_inject)
  then show ?case by (auto simp: inj_image_eq_iff)
next
  case (Cons p pks)
  show ?case
  proof (cases "length p = 32")
    case False
    then show ?thesis by (simp add: Byte32FromSlice_def)
  next
    case True
    then obtain k where p: "p = bytes_of k"
      by (metis bytes_of_copy32)
    have "k \<in> ks \<longleftrightarrow> p \<in> bytes_of ` ks"
      using p by (auto simp: bytes_of_inject)
    then show ?thesis
      using p Cons.IH [of "insert k ks"] by auto
  qed
qed

lemma NewCommitteeFromManager_Ret_iff [go_simps]:
  "NewCommitteeFromManager k n t mgr = Ret c \<longleftrightarrow>
     0 < n \<and> c = \<lparr>privateKey = k, com_n = n, com_f = max_faulty n, com_t = t, manager = mgr\<rparr>"
  by (auto simp: NewCommitteeFromManager_def maxFaulty_def)

lemma NewCommittee_Ret_iff:
  "NewCommittee k pks = Ret c \<longleftrightarrow>
     pks \<noteq> [] \<and>
     (\<exists>ks. add_members pks {} = Ret ks \<and> pubkey k \<in> ks \<and>
       c = \<lparr>privateKey = k, com_n = int (length pks), com_f = max_faulty (int (length pks)),
            com_t = int (length pks) - max_faulty (int (length pks)), manager = singleKeyRange ks\<rparr>)"
  by (auto simp: NewCommittee_def Let_def go_simps maxFaulty_def split: if_splits)

lemma VerifySingle_Ret_None_iff:
  "VerifySingle cl c i m pk sig = Ret None \<longleftrightarrow>
     (\<exists>p. pk = bytes_of p \<and> p \<in> manager c i \<and> length sig = 64 \<and> verify_raw cl p m sig)"
proof (cases "length pk = 32")
  case True
  then obtain p where "pk = bytes_of p" by (metis bytes_of_copy32)
  then show ?thesis by (auto simp: VerifySingle_def bytes_of_inject)
next
  case False
  then show ?thesis
    by (auto simp: VerifySingle_def IDFromPublicKey_def Byte32FromSlice_def)
qed

section \<open>Quorums\<close>

text \<open>
  What the protocol needs of a bound on the faulty members: less than a third of the
  committee. Its consequences for sets of members hold for any such bound.
\<close>

locale fault_bound =
  fixes faulty :: "int \<Rightarrow> int"
  assumes third: "0 < n \<Longrightarrow> 3 * faulty n < n"
    and nonneg: "0 < n \<Longrightarrow> 0 \<le> faulty n"
begin

lemma honest_member:
  assumes "finite B" and "int (card B) \<le> faulty n" and "faulty n < int (card A)"
  shows "\<exists>p \<in> A. p \<notin> B"
proof -
  have "card B < card A" using assms(2,3) by simp
  then have "\<not> A \<subseteq> B" using assms(1) card_mono not_le by blast
  then show ?thesis by blast
qed

lemma quorum_intersection:
  assumes M: "finite M" "int (card M) = n" "0 < n"
    and A: "A \<subseteq> M" "n - faulty n \<le> int (card A)"
    and B: "B \<subseteq> M" "n - faulty n \<le> int (card B)"
  shows "faulty n < int (card (A \<inter> B))"
proof -
  have "card A + card B = card (A \<union> B) + card (A \<inter> B)"
    using A(1) B(1) M(1) by (meson card_Un_Int finite_subset)
  moreover have "card (A \<union> B) \<le> card M"
    using A(1) B(1) M(1) by (simp add: card_mono)
  ultimately show ?thesis
    using A(2) B(2) M(2) third [OF M(3)] by linarith
qed

end

interpretation bft: fault_bound max_faulty
  by unfold_locales (auto simp: max_faulty_def)

section \<open>Properties\<close>

lemma NewCommittee_members:
  assumes "NewCommittee k pks = Ret c"
  shows "finite (Members c i)" and "int (card (Members c i)) = com_n c"
    and "0 < com_n c" and "com_f c = max_faulty (com_n c)" and "com_t c = com_n c - com_f c"
proof -
  obtain ks where ks: "add_members pks {} = Ret ks" "pks \<noteq> []"
    and c: "c = \<lparr>privateKey = k, com_n = int (length pks), com_f = max_faulty (int (length pks)),
            com_t = int (length pks) - max_faulty (int (length pks)), manager = singleKeyRange ks\<rparr>"
    using assms by (auto simp: NewCommittee_Ret_iff)
  have inj: "inj_on bytes_of ks" by (simp add: inj_on_def bytes_of_inject)
  have img: "bytes_of ` ks = set pks" and d: "distinct pks"
    using ks(1) by (auto simp: add_members_Ret_iff)
  have fin: "finite ks" using img inj by (metis List.finite_set finite_imageD)
  have "card ks = length pks"
    using inj img d by (metis card_image distinct_card)
  with c fin ks(2) show "finite (Members c i)" and "int (card (Members c i)) = com_n c"
    and "0 < com_n c" and "com_f c = max_faulty (com_n c)" and "com_t c = com_n c - com_f c"
    by (auto simp: Members_def singleKeyRange_def)
qed

text \<open>
  \<open>NewCommittee\<close> returns a committee exactly for a non-empty list of distinct 32-byte keys
  that holds the local key; on any other input it panics.
\<close>
theorem NewCommittee_returns_iff:
  "(\<exists>c. NewCommittee k pks = Ret c) \<longleftrightarrow>
     pks \<noteq> [] \<and> list_all (\<lambda>p. length p = 32) pks \<and> distinct pks \<and> bytes_of (pubkey k) \<in> set pks"
  (is "?L \<longleftrightarrow> ?R")
proof
  assume ?L
  then obtain ks where "add_members pks {} = Ret ks" "pubkey k \<in> ks" "pks \<noteq> []"
    by (auto simp: NewCommittee_Ret_iff)
  then show ?R by (auto simp: add_members_Ret_iff)
next
  assume R: ?R
  have "bytes_of ` (bytes_of -` set pks) = set pks"
  proof -
    have "set pks \<subseteq> range bytes_of"
      using R by (auto simp: list_all_iff image_iff) (metis bytes_of_copy32)
    then show ?thesis by blast
  qed
  with R have "add_members pks {} = Ret (bytes_of -` set pks)"
    by (simp add: add_members_Ret_iff)
  with R show ?L by (auto simp: NewCommittee_Ret_iff)
qed

text \<open>
  C38. Quorum intersection. In a committee made by \<open>NewCommittee\<close>, any two sets of \<open>T\<close>
  members share more than \<open>F\<close> members, so they share a member outside any set \<open>Bad\<close> of at
  most \<open>F\<close> members: two milestones with \<open>T\<close> signatures each have an honest signer in common.
\<close>
theorem NewCommittee_quorums_share_honest:
  assumes c: "NewCommittee k pks = Ret c"
    and A: "A \<subseteq> Members c i" "com_t c \<le> int (card A)"
    and B: "B \<subseteq> Members c i" "com_t c \<le> int (card B)"
    and Bad: "finite Bad" "int (card Bad) \<le> com_f c"
  shows "\<exists>p. p \<in> A \<and> p \<in> B \<and> p \<notin> Bad"
proof -
  note m = NewCommittee_members [OF c]
  have "com_f c < int (card (A \<inter> B))"
    unfolding m(4)
  proof (rule bft.quorum_intersection [of "Members c i" "com_n c"])
    show "com_n c - max_faulty (com_n c) \<le> int (card A)" using A(2) m(5) m(4) by simp
    show "com_n c - max_faulty (com_n c) \<le> int (card B)" using B(2) m(5) m(4) by simp
  qed (use m(1,2,3) A B in auto)
  then have "\<exists>p \<in> A \<inter> B. p \<notin> Bad"
    using bft.honest_member [of Bad "com_n c" "A \<inter> B"] Bad m(4) by simp
  then show ?thesis by blast
qed

definition key4 :: private_key where
  "key4 = \<lparr>seed = b32 1, pubkey = b32 1\<rparr>"

lemma committee4:
  "NewCommittee key4 (map (bytes_of \<circ> b32) [1, 2, 3, 4]) =
     Ret \<lparr>privateKey = key4, com_n = 4, com_f = 1, com_t = 3,
          manager = singleKeyRange {b32 1, b32 2, b32 3, b32 4}\<rparr>"
  by (simp add: NewCommittee_def maxFaulty_def max_faulty_def NewCommitteeFromManager_def key4_def
      insert_commute)

theorem NewCommittee_quorums_share_honest_witness:
  "\<exists>p. p \<in> {b32 1, b32 2, b32 3} \<and> p \<in> {b32 2, b32 3, b32 4} \<and> p \<notin> {b32 3}"
  by (rule NewCommittee_quorums_share_honest [OF committee4, of _ 7])
     (simp_all add: Members_def singleKeyRange_def)

text \<open>
  A stand-in for Ed25519 in examples: the signature is the public key and the first 32 bytes
  of the message.
\<close>

definition toy_sig :: "byte32 \<Rightarrow> bytes \<Rightarrow> bytes" where
  "toy_sig pk m = bytes_of pk @ bytes_of (copy32 zero32 m)"

definition toy_crypto :: crypto_lib where
  "toy_crypto =
     \<lparr>pub_of_seed = id, sign_raw = (\<lambda>k m. toy_sig (pubkey k) m),
      verify_raw = (\<lambda>pk m sig. sig = toy_sig pk m)\<rparr>"

lemma toy_crypto_ok: "ed25519_ok toy_crypto"
  by (simp add: ed25519_ok_def toy_crypto_def toy_sig_def NewKeyFromSeed_def)

text \<open>
  What a member signs, every member accepts: the signature of \<open>Sign\<close> passes
  \<open>VerifySingle\<close> under the signer's key, for every index at which the signer is a member.
\<close>
theorem Sign_passes_VerifySingle:
  assumes "ed25519_ok cl" and "keypair cl (privateKey c)"
    and "pubkey (privateKey c) \<in> manager d i"
  shows "VerifySingle cl d i m (PublicKey c) (sigSignature (Sign cl c m)) = Ret None"
  using ed25519_ok_sign [OF assms(1,2), of m] assms(3)
  by (auto simp: VerifySingle_Ret_None_iff PublicKey_def Sign_def copy64_id)

definition com4 :: committee where
  "com4 = \<lparr>privateKey = key4, com_n = 4, com_f = 1, com_t = 3,
     manager = singleKeyRange {b32 1, b32 2, b32 3, b32 4}\<rparr>"

theorem Sign_passes_VerifySingle_witness:
  "VerifySingle toy_crypto com4 9 [1, 2, 3] (PublicKey com4) (sigSignature (Sign toy_crypto com4 [1, 2, 3]))
     = Ret None"
  by (rule Sign_passes_VerifySingle [OF toy_crypto_ok])
     (simp_all add: keypair_def com4_def key4_def toy_crypto_def singleKeyRange_def)

end
