(* ===== verification/Iota.thy ===== *)
theory Iota
  imports Committee
begin

text \<open>
  The types and functions of \<open>iota.go\<close> and \<open>hive.go\<close> that the coordinator calls. Neither library
  is part of the repository, so the functions are parameters: the fields of \<open>iota_lib\<close>, which
  extends \<open>crypto_lib\<close>. The behaviour the code relies on is stated by the predicates below, each a
  documented property of the library; theorems name the ones they need as hypotheses.
\<close>

section \<open>Types\<close>

type_synonym block_id = byte32

type_synonym milestone_id = byte32

text \<open>The fields of \<open>iotago.Milestone\<close> that the coordinator sets or reads.\<close>

record milestone =
  msIndex :: "32 word"
  msTimestamp :: "32 word"
  msProtocolVersion :: "8 word"
  msPreviousMilestoneID :: milestone_id
  msParents :: "block_id list"
  msInclusionMerkleRoot :: byte32
  msAppliedMerkleRoot :: byte32
  msMetadata :: bytes
  msSignatures :: "ed25519_signature list"

text \<open>\<open>iotago.NewMilestone\<close> leaves the metadata and the signatures empty.\<close>

definition NewMilestone ::
    "32 word \<Rightarrow> 32 word \<Rightarrow> 8 word \<Rightarrow> milestone_id \<Rightarrow> block_id list \<Rightarrow> byte32 \<Rightarrow> byte32 \<Rightarrow> milestone" where
  "NewMilestone i ts v prev ps incl appl =
     \<lparr>msIndex = i, msTimestamp = ts, msProtocolVersion = v, msPreviousMilestoneID = prev,
      msParents = ps, msInclusionMerkleRoot = incl, msAppliedMerkleRoot = appl,
      msMetadata = [], msSignatures = []\<rparr>"

text \<open>A block with a milestone payload, as given to the block builder.\<close>

record block =
  blkProtocolVersion :: "8 word"
  blkParents :: "block_id list"
  blkPayload :: milestone

text \<open>The fields of \<open>inx.BlockMetadata\<close> that are read.\<close>

record inx_metadata =
  metaBlockID :: block_id
  metaParents :: "block_id list"
  metaSolid :: bool
  metaReferencedByMilestoneIndex :: "32 word"
  metaShouldReattach :: bool

section \<open>Functions\<close>

text \<open>
  \<open>num64\<close> is \<open>WriteNum\<close> of the serializer on an \<open>int64\<close>, \<open>read_num64\<close> and \<open>read_array32\<close> are \<open>ReadNum\<close> on
  one and \<open>ReadArrayOf32Bytes\<close>, with what is left of the input, or \<open>None\<close> for an error;
  \<open>essence_of\<close> is \<open>Milestone.Essence\<close> and \<open>milestone_id_of\<close> the ID under \<open>MustID\<close>, which fail
  with \<open>None\<close>; \<open>build\<close> is \<open>BlockBuilder.Build\<close>, \<open>block_id_of\<close> the ID of a block;
  \<open>verify_signatures\<close> and \<open>serializes\<close> tell whether \<open>VerifySignatures\<close> and a validating
  \<open>Block.Serialize\<close> return without an error; \<open>sig_less\<close> is the \<open>Less\<close> of \<open>iotago.Signatures\<close>.
\<close>

record iota_lib = crypto_lib +
  BlockMaxParents :: nat
  MaxSignaturesInAMilestone :: int
  num64 :: "64 word \<Rightarrow> bytes"
  read_num64 :: "bytes \<Rightarrow> (64 word \<times> bytes) option"
  read_array32 :: "bytes \<Rightarrow> (byte32 \<times> bytes) option"
  RemoveDupsAndSort :: "block_id list \<Rightarrow> block_id list"
  sig_less :: "ed25519_signature \<Rightarrow> ed25519_signature \<Rightarrow> bool"
  essence_of :: "milestone \<Rightarrow> bytes option"
  milestone_id_of :: "milestone \<Rightarrow> milestone_id option"
  build :: "block \<Rightarrow> block option"
  block_id_of :: "block \<Rightarrow> block_id option"
  verify_signatures :: "milestone \<Rightarrow> int \<Rightarrow> peer_id set \<Rightarrow> bool"
  serializes :: "block \<Rightarrow> bool"

section \<open>Documented behaviour\<close>

text \<open>A number is written as 8 bytes. Reading succeeds with what had been written before the rest.\<close>

definition num64_ok :: "'z iota_lib_scheme \<Rightarrow> bool" where
  "num64_ok L \<longleftrightarrow>
     (\<forall>n. length (num64 L n) = 8) \<and>
     (\<forall>bs n rest. read_num64 L bs = Some (n, rest) \<longleftrightarrow> bs = num64 L n @ rest) \<and>
     (\<forall>bs a rest. read_array32 L bs = Some (a, rest) \<longleftrightarrow> bs = bytes_of a @ rest)"

text \<open>\<open>RemoveDupsAndSort\<close> returns the distinct IDs in ascending order.\<close>

definition dedup_ok :: "'z iota_lib_scheme \<Rightarrow> bool" where
  "dedup_ok L \<longleftrightarrow>
     (\<forall>ps. sorted_wrt (<) (RemoveDupsAndSort L ps) \<and> set (RemoveDupsAndSort L ps) = set ps)"

text \<open>Signatures are ordered, and those of different public keys are told apart.\<close>

definition sig_order_ok :: "'z iota_lib_scheme \<Rightarrow> bool" where
  "sig_order_ok L \<longleftrightarrow> keyed_less (sig_less L) sigPublicKey"

text \<open>What is signed, and the ID of a milestone, do not depend on the signatures it carries.\<close>

definition essence_ok :: "'z iota_lib_scheme \<Rightarrow> bool" where
  "essence_ok L \<longleftrightarrow>
     (\<forall>ms sigs. essence_of L (ms\<lparr>msSignatures := sigs\<rparr>) = essence_of L ms)"

text \<open>
  \<open>VerifySignatures\<close> returns no error when the threshold is positive and met, by signatures of
  distinct applicable keys that verify the essence.
\<close>

definition sigs_ok :: "'z iota_lib_scheme \<Rightarrow> bool" where
  "sigs_ok L \<longleftrightarrow>
     (\<forall>ms t keys es.
        essence_of L ms = Some es \<longrightarrow> 0 < t \<longrightarrow> t \<le> int (length (msSignatures ms)) \<longrightarrow>
        distinct (map sigPublicKey (msSignatures ms)) \<longrightarrow>
        list_all (\<lambda>s. sigPublicKey s \<in> keys \<and> length (sigSignature s) = 64 \<and>
                      verify_raw L (sigPublicKey s) es (sigSignature s)) (msSignatures ms) \<longrightarrow>
        verify_signatures L ms t keys)"

lemma num64_okD:
  assumes "num64_ok L"
  shows "length (num64 L n) = 8"
    and "read_num64 L bs = Some (n, rest) \<longleftrightarrow> bs = num64 L n @ rest"
    and "read_array32 L bs = Some (a, rest) \<longleftrightarrow> bs = bytes_of a @ rest"
  using assms unfolding num64_ok_def by blast+

text \<open>The documented result of \<open>RemoveDupsAndSort\<close> is determined by the set of its input.\<close>

interpretation id_less: keyed_less "(<) :: byte32 \<Rightarrow> byte32 \<Rightarrow> bool" id
  by unfold_locales auto

lemma dedup_cong:
  assumes "dedup_ok L" and "set ps = set qs"
  shows "RemoveDupsAndSort L ps = RemoveDupsAndSort L qs"
  using assms by (intro id_less.sorted_set_unique) (auto simp: dedup_ok_def)

lemma dedup_facts:
  assumes "dedup_ok L"
  shows "set (RemoveDupsAndSort L ps) = set ps" and "distinct (RemoveDupsAndSort L ps)"
    and "sorted_wrt (<) (RemoveDupsAndSort L ps)"
    and "length (RemoveDupsAndSort L ps) \<le> length ps"
proof -
  show s: "set (RemoveDupsAndSort L ps) = set ps" and w: "sorted_wrt (<) (RemoveDupsAndSort L ps)"
    using assms by (auto simp: dedup_ok_def)
  show d: "distinct (RemoveDupsAndSort L ps)" using w by (simp add: strict_sorted_iff)
  show "length (RemoveDupsAndSort L ps) \<le> length ps"
    using s d by (metis card_length distinct_card)
qed

section \<open>Blocks of milestones\<close>

definition buildMilestoneBlock :: "'z iota_lib_scheme \<Rightarrow> milestone \<Rightarrow> block option" where
  "buildMilestoneBlock L ms =
     build L \<lparr>blkProtocolVersion = msProtocolVersion ms, blkParents = msParents ms, blkPayload = ms\<rparr>"

text \<open>\<open>MustID\<close> of a milestone and of a block panic where the ID cannot be computed.\<close>

definition ms_MustID :: "'z iota_lib_scheme \<Rightarrow> milestone \<Rightarrow> milestone_id go" where
  "ms_MustID L ms =
     (case milestone_id_of L ms of None \<Rightarrow> Panic ''milestone ID'' | Some i \<Rightarrow> Ret i)"

definition block_MustID :: "'z iota_lib_scheme \<Rightarrow> block \<Rightarrow> block_id go" where
  "block_MustID L b =
     (case block_id_of L b of None \<Rightarrow> Panic ''block ID'' | Some i \<Rightarrow> Ret i)"

definition MilestoneBlockID :: "'z iota_lib_scheme \<Rightarrow> milestone \<Rightarrow> block_id go" where
  "MilestoneBlockID L ms =
     (case buildMilestoneBlock L ms of
        None \<Rightarrow> Panic ''building the block failed''
      | Some b \<Rightarrow> block_MustID L b)"

section \<open>A concrete instance\<close>

text \<open>
  A small instance of the parameters, used where a theorem is applied to concrete values: it
  shows that the documented behaviour is consistent. Numbers are little-endian as in the
  serializer; the IDs are taken from the milestone index. The argument \<open>m\<close> is the rest of a
  larger record.
\<close>

definition le64 :: "64 word \<Rightarrow> bytes" where
  "le64 n = map (\<lambda>i. ucast (drop_bit (8 * i) n)) [0..<8]"

definition of_le64 :: "bytes \<Rightarrow> 64 word" where
  "of_le64 bs = fold (\<lambda>i w. push_bit (8 * i) (ucast (bs ! i)) OR w) [0..<8] 0"

lemma bit_of_le64: "length bs = 8 \<Longrightarrow> k < 64 \<Longrightarrow> bit (of_le64 bs) k = bit (bs ! (k div 8)) (k mod 8)"
proof -
  assume len: "length bs = 8" and k: "k < 64"
  have f: "bit (fold (\<lambda>i w. push_bit (8 * i) (ucast (bs ! i)) OR w) is (w0 :: 64 word)) k \<longleftrightarrow>
     bit w0 k \<or> (\<exists>i \<in> set is. 8 * i \<le> k \<and> bit (ucast (bs ! i) :: 64 word) (k - 8 * i))" for "is" w0
    by (induction "is" arbitrary: w0) (use k in \<open>auto simp: bit_simps\<close>)
  have b: "bit (ucast (bs ! i) :: 64 word) (k - 8 * i) \<longleftrightarrow> k - 8 * i < 8 \<and> bit (bs ! i) (k - 8 * i)" for i
    using k by (auto simp: bit_simps dest: bit_imp_le_length)
  show ?thesis
    unfolding of_le64_def f b
  proof (intro iffI)
    assume "bit (0 :: 64 word) k \<or> (\<exists>i\<in>set [0..<8]. 8 * i \<le> k \<and> k - 8 * i < 8 \<and> bit (bs ! i) (k - 8 * i))"
    then obtain i where i: "8 * i \<le> k" "k - 8 * i < 8" "bit (bs ! i) (k - 8 * i)" by auto
    then obtain j where "k = 8 * i + j" "j < 8" by (metis le_Suc_ex add_diff_cancel_left')
    then have "k div 8 = i" "k mod 8 = k - 8 * i" by simp_all
    with i(3) show "bit (bs ! (k div 8)) (k mod 8)" by simp
  next
    assume a: "bit (bs ! (k div 8)) (k mod 8)"
    have "k div 8 \<in> set [0..<8]" using k by auto
    moreover have "8 * (k div 8) \<le> k" "k - 8 * (k div 8) = k mod 8" "k mod 8 < 8"
      using minus_mult_div_eq_mod [of k 8] by simp_all
    ultimately show "bit (0 :: 64 word) k \<or> (\<exists>i\<in>set [0..<8]. 8 * i \<le> k \<and> k - 8 * i < 8 \<and> bit (bs ! i) (k - 8 * i))"
      using a by force
  qed
qed

lemma bit_le64: "i < 8 \<Longrightarrow> j < 8 \<Longrightarrow> bit (le64 n ! i) j = bit n (8 * i + j)"
  by (auto simp: le64_def bit_simps)

lemma length_le64 [simp]: "length (le64 n) = 8"
  by (simp add: le64_def)

lemma le64_inverse: "of_le64 (le64 n) = n"
proof (rule bit_word_eqI)
  fix k assume "k < LENGTH(64)"
  then have k: "k < 64" by simp
  then have "bit (of_le64 (le64 n)) k = bit n (8 * (k div 8) + k mod 8)"
    using bit_le64 [of "k div 8" "k mod 8" n] bit_of_le64 [of "le64 n" k] by (simp add: less_mult_imp_div_less)
  then show "bit (of_le64 (le64 n)) k = bit n k" by simp
qed

lemma of_le64_inverse: "length bs = 8 \<Longrightarrow> le64 (of_le64 bs) = bs"
proof (rule nth_equalityI)
  assume len: "length bs = 8"
  then show "length (le64 (of_le64 bs)) = length bs" by (simp add: le64_def)
  fix i assume "i < length (le64 (of_le64 bs))"
  then have i: "i < 8" by (simp add: le64_def)
  show "le64 (of_le64 bs) ! i = bs ! i"
  proof (rule bit_word_eqI)
    fix j assume "j < LENGTH(8)"
    then have j: "j < 8" by simp
    have "(8 * i + j) div 8 = i" "(8 * i + j) mod 8 = j" "8 * i + j < 64" using i j by auto
    then show "bit (le64 (of_le64 bs) ! i) j = bit (bs ! i) j"
      using bit_le64 [OF i j] bit_of_le64 [OF len] by simp
  qed
qed

definition toy_essence :: "milestone \<Rightarrow> bytes" where
  "toy_essence ms = le64 (ucast (msIndex ms)) @ msMetadata ms"

definition toy_verify :: "milestone \<Rightarrow> int \<Rightarrow> peer_id set \<Rightarrow> bool" where
  "toy_verify ms t keys \<longleftrightarrow>
     0 < t \<and> t \<le> int (length (msSignatures ms)) \<and> distinct (map sigPublicKey (msSignatures ms)) \<and>
     list_all (\<lambda>s. sigPublicKey s \<in> keys \<and> sigSignature s = toy_sig (sigPublicKey s) (toy_essence ms))
       (msSignatures ms)"

definition toy_lib :: "'m \<Rightarrow> 'm iota_lib_scheme" where
  "toy_lib m =
     \<lparr>pub_of_seed = id, sign_raw = (\<lambda>k msg. toy_sig (pubkey k) msg),
      verify_raw = (\<lambda>pk msg sig. sig = toy_sig pk msg),
      BlockMaxParents = 8, MaxSignaturesInAMilestone = 255,
      num64 = le64,
      read_num64 = (\<lambda>bs. if length bs < 8 then None else Some (of_le64 (take 8 bs), drop 8 bs)),
      read_array32 = (\<lambda>bs. if length bs < 32 then None else Some (copy32 zero32 (take 32 bs), drop 32 bs)),
      RemoveDupsAndSort = (\<lambda>ps. sort (remdups ps)),
      sig_less = (\<lambda>x y. sigPublicKey x < sigPublicKey y),
      essence_of = (\<lambda>ms. Some (toy_essence ms)),
      milestone_id_of = (\<lambda>ms. Some (b32 (ucast (msIndex ms)))),
      build = Some,
      block_id_of = (\<lambda>b. Some (b32 (100 + ucast (msIndex (blkPayload b))))),
      verify_signatures = toy_verify, serializes = (\<lambda>b. True), \<dots> = m\<rparr>"

lemma toy_ed25519: "ed25519_ok (toy_lib m)"
  by (simp add: ed25519_ok_def toy_lib_def toy_sig_def NewKeyFromSeed_def)

lemma toy_num64: "num64_ok (toy_lib m)"
proof -
  have "take 8 bs = le64 (of_le64 (take 8 bs))" if "8 \<le> length bs" for bs
    using of_le64_inverse [of "take 8 bs"] that by simp
  then have "read_num64 (toy_lib m) bs = Some (n, rest) \<longleftrightarrow> bs = le64 n @ rest" for bs n rest
    by (auto simp: toy_lib_def le64_inverse)
  moreover have "read_array32 (toy_lib m) bs = Some (a, rest) \<longleftrightarrow> bs = bytes_of a @ rest" for bs a rest
    by (auto simp: toy_lib_def bytes_of_inject [symmetric] bytes_of_copy32) (metis append_take_drop_id)
  ultimately show ?thesis by (simp add: num64_ok_def) (simp add: toy_lib_def)
qed

lemma toy_dedup: "dedup_ok (toy_lib m)"
  by (simp add: dedup_ok_def toy_lib_def strict_sorted_iff)

lemma toy_sig_order: "sig_order_ok (toy_lib m)"
  unfolding sig_order_ok_def toy_lib_def by unfold_locales auto

lemma toy_essence_ok: "essence_ok (toy_lib m)"
  by (simp add: essence_ok_def toy_lib_def toy_essence_def)

lemma toy_sigs: "sigs_ok (toy_lib m)"
  by (auto simp: sigs_ok_def toy_lib_def toy_verify_def list_all_iff)

lemmas toy_laws = toy_ed25519 toy_num64 toy_dedup toy_sig_order toy_essence_ok toy_sigs

end
