(* ===== verification/CooState.thy ===== *)
theory CooState
  imports Iota
begin

text \<open>
  The coordinator state that survives a milestone, \<open>pkg/decoo/state.go\<close>: the record \<open>state\<close>, its
  serialization into the \<open>Metadata\<close> field of a milestone and its reconstruction from one. The reads of
  the deserializer are parameters; their chain stops at the first error.
\<close>

record state =
  MilestoneHeight :: "64 word"
  MilestoneIndex :: "32 word"
  LastMilestoneID :: milestone_id
  LastMilestoneBlockID :: block_id

definition Metadata :: "'z iota_lib_scheme \<Rightarrow> state \<Rightarrow> bytes" where
  "Metadata L s = num64 L (MilestoneHeight s) @ bytes_of (LastMilestoneBlockID s)"

datatype metadata_error =
  ErrMilestoneHeight | ErrLastMilestoneBlockID | ErrNotAllConsumed nat

definition NewStateFromMilestone :: "'z iota_lib_scheme \<Rightarrow> milestone \<Rightarrow> metadata_error + state" where
  "NewStateFromMilestone L ms =
     (case read_num64 L (msMetadata ms) of
        None \<Rightarrow> Inl ErrMilestoneHeight
      | Some (height, rest) \<Rightarrow>
          (case read_array32 L rest of
             None \<Rightarrow> Inl ErrLastMilestoneBlockID
           | Some (lastBlockID, left) \<Rightarrow>
               if left \<noteq> [] then Inl (ErrNotAllConsumed (length left))
               else Inr \<lparr>MilestoneHeight = height, MilestoneIndex = msIndex ms,
                         LastMilestoneID = msPreviousMilestoneID ms,
                         LastMilestoneBlockID = lastBlockID\<rparr>))"

lemma length_Metadata: "num64_ok L \<Longrightarrow> length (Metadata L s) = 40"
  by (simp add: Metadata_def num64_okD)

lemma NewStateFromMilestone_Inr:
  assumes "NewStateFromMilestone L ms = Inr s"
  shows "read_num64 L (msMetadata ms) = Some (MilestoneHeight s, rest) \<Longrightarrow>
      read_array32 L rest = Some (LastMilestoneBlockID s, [])"
    and "\<exists>rest. read_num64 L (msMetadata ms) = Some (MilestoneHeight s, rest)"
    and "MilestoneIndex s = msIndex ms" and "LastMilestoneID s = msPreviousMilestoneID ms"
  using assms by (cases s; auto simp: NewStateFromMilestone_def split: option.splits if_splits)+

lemma NewStateFromMilestone_Metadata:
  assumes "num64_ok L" and "msMetadata ms = Metadata L s"
    and "msIndex ms = MilestoneIndex s" and "msPreviousMilestoneID ms = LastMilestoneID s"
  shows "NewStateFromMilestone L ms = Inr s"
proof -
  have "read_num64 L (msMetadata ms) = Some (MilestoneHeight s, bytes_of (LastMilestoneBlockID s))"
    using num64_okD(2) [OF assms(1)] assms(2) by (simp add: Metadata_def)
  moreover have "read_array32 L (bytes_of (LastMilestoneBlockID s)) = Some (LastMilestoneBlockID s, [])"
    using num64_okD(3) [OF assms(1)] by simp
  ultimately show ?thesis using assms(3,4) by (simp add: NewStateFromMilestone_def)
qed

text \<open>
  C39. The state of a milestone is exactly the one its metadata was written from: a state is
  reconstructed from a milestone if and only if the milestone carries the metadata, index and
  previous ID of that state. So writing and reading are inverse, and no other byte string is
  accepted.
\<close>
theorem state_round_trip:
  assumes "num64_ok L"
  shows "NewStateFromMilestone L ms = Inr s \<longleftrightarrow>
     msMetadata ms = Metadata L s \<and> msIndex ms = MilestoneIndex s \<and>
     msPreviousMilestoneID ms = LastMilestoneID s"
proof
  assume r: "NewStateFromMilestone L ms = Inr s"
  note f = NewStateFromMilestone_Inr [OF r]
  obtain rest where "read_num64 L (msMetadata ms) = Some (MilestoneHeight s, rest)" using f(2) by blast
  with f(1) [OF this] have "msMetadata ms = Metadata L s"
    using num64_okD(2,3) [OF assms] by (simp add: Metadata_def)
  with f(3,4) show "msMetadata ms = Metadata L s \<and> msIndex ms = MilestoneIndex s \<and>
     msPreviousMilestoneID ms = LastMilestoneID s" by simp
qed (use assms in \<open>blast intro: NewStateFromMilestone_Metadata\<close>)

theorem state_round_trip_witness:
  "NewStateFromMilestone (toy_lib ())
     \<lparr>msIndex = 5, msTimestamp = 0, msProtocolVersion = 2, msPreviousMilestoneID = b32 4,
      msParents = [], msInclusionMerkleRoot = zero32, msAppliedMerkleRoot = zero32,
      msMetadata = le64 77 @ bytes_of (b32 104), msSignatures = []\<rparr> =
   Inr \<lparr>MilestoneHeight = 77, MilestoneIndex = 5, LastMilestoneID = b32 4,
        LastMilestoneBlockID = b32 104\<rparr>"
  by (subst state_round_trip [OF toy_num64]) (simp add: Metadata_def toy_lib_def)

end
