(* ===== verification/AppState.thy ===== *)
theory AppState
  imports CooState
begin

text \<open>
  The replicated application state, \<open>pkg/decoo/appstate.go\<close>. \<open>app_data\<close> holds the exported fields,
  which are what JSON encodes; \<open>app_state\<close> adds the block header, which is context only. JSON and
  BLAKE2b are parameters. \<open>Reset\<close> makes all maps, so the model starts where they exist; the nil
  maps of a zero \<open>AppState\<close> before the first \<open>Reset\<close> are not modelled.
\<close>

text \<open>The fields of the Tendermint header that are read; the time is its \<open>Unix()\<close> seconds.\<close>

record header =
  hdrHeight :: "64 word"
  hdrTime :: "64 word"

record app_data =
  State :: state
  ParentByIssuer :: "(peer_id, block_id) fmap"
  IssuerCountByParent :: "(block_id, int) fmap"
  ProofIssuersByBlockID :: "(block_id, (peer_id, unit) fmap) fmap"
  Milestone :: "milestone option"
  SignaturesByIssuer :: "(peer_id, ed25519_signature) fmap"

record app_state = app_data +
  blockHeader :: header

record app_lib = iota_lib +
  json_marshal :: "app_data \<Rightarrow> bytes option"
  json_unmarshal :: "bytes \<Rightarrow> app_data option"
  blake2b :: "bytes \<Rightarrow> byte32"

text \<open>JSON encodes every state, and decoding what it wrote gives the state back.\<close>

definition json_ok :: "'z app_lib_scheme \<Rightarrow> bool" where
  "json_ok L \<longleftrightarrow> (\<forall>d. \<exists>b. json_marshal L d = Some b \<and> json_unmarshal L b = Some d)"

definition MarshalBinary :: "'z app_lib_scheme \<Rightarrow> 'a app_data_scheme \<Rightarrow> bytes option" where
  "MarshalBinary L a = json_marshal L (app_data.truncate a)"

text \<open>
  \<open>json.Unmarshal\<close> into an existing state: scalars and the milestone are replaced, but an
  existing map is reused and keeps its entries.
\<close>

definition UnmarshalBinary ::
    "'z app_lib_scheme \<Rightarrow> app_state \<Rightarrow> bytes \<Rightarrow> app_state option" where
  "UnmarshalBinary L a data =
     (case json_unmarshal L data of
        None \<Rightarrow> None
      | Some d \<Rightarrow>
          Some (a\<lparr>State := State d,
                  ParentByIssuer := fmadd (ParentByIssuer a) (ParentByIssuer d),
                  IssuerCountByParent := fmadd (IssuerCountByParent a) (IssuerCountByParent d),
                  ProofIssuersByBlockID := fmadd (ProofIssuersByBlockID a) (ProofIssuersByBlockID d),
                  Milestone := Milestone d,
                  SignaturesByIssuer := fmadd (SignaturesByIssuer a) (SignaturesByIssuer d)\<rparr>))"

definition Reset :: "state \<Rightarrow> app_state \<Rightarrow> app_state" where
  "Reset st a =
     a\<lparr>State := st, ParentByIssuer := fmempty, IssuerCountByParent := fmempty,
       ProofIssuersByBlockID := fmempty, Milestone := None, SignaturesByIssuer := fmempty\<rparr>"

text \<open>
  \<open>a.Copy(&o)\<close>: through the encoding, after a \<open>Reset\<close> that empties the maps. After a decoding
  error the receiver is shown as \<open>Reset\<close> left it; what \<open>json\<close> had decoded by then is not modelled.
\<close>

definition Copy :: "'z app_lib_scheme \<Rightarrow> app_state \<Rightarrow> app_state \<Rightarrow> (app_state, unit) exec" where
  "Copy L a src =
     (case MarshalBinary L src of
        None \<Rightarrow> Raise ''marshal'' a
      | Some data \<Rightarrow>
          (case UnmarshalBinary L (Reset (State src) a) data of
             None \<Rightarrow> Raise ''unmarshal'' (Reset (State src) a)
           | Some a' \<Rightarrow> Val () a'))"

definition Hash :: "'z app_lib_scheme \<Rightarrow> 'a app_data_scheme \<Rightarrow> bytes go" where
  "Hash L a =
     (case MarshalBinary L a of
        None \<Rightarrow> Panic ''marshal''
      | Some buf \<Rightarrow> Ret (bytes_of (blake2b L buf)))"

section \<open>Facts\<close>

lemma json_okE:
  assumes "json_ok L"
  obtains b where "MarshalBinary L a = Some b" and "json_unmarshal L b = Some (app_data.truncate a)"
  using assms by (auto simp: json_ok_def MarshalBinary_def)

lemma truncate_eq_iff:
  "app_data.truncate a = app_data.truncate b \<longleftrightarrow>
     State a = State b \<and> ParentByIssuer a = ParentByIssuer b \<and>
     IssuerCountByParent a = IssuerCountByParent b \<and>
     ProofIssuersByBlockID a = ProofIssuersByBlockID b \<and> Milestone a = Milestone b \<and>
     SignaturesByIssuer a = SignaturesByIssuer b"
  by (auto simp: app_data.truncate_def)

lemma truncate_fields [simp]:
  "State (app_data.truncate a) = State a" "ParentByIssuer (app_data.truncate a) = ParentByIssuer a"
  "IssuerCountByParent (app_data.truncate a) = IssuerCountByParent a"
  "ProofIssuersByBlockID (app_data.truncate a) = ProofIssuersByBlockID a"
  "Milestone (app_data.truncate a) = Milestone a"
  "SignaturesByIssuer (app_data.truncate a) = SignaturesByIssuer a"
  by (simp_all add: app_data.truncate_def)

lemma app_state_eqI:
  fixes a b :: app_state
  assumes "app_data.truncate a = app_data.truncate b" and "blockHeader a = blockHeader b"
  shows "a = b"
  using assms by (simp add: truncate_eq_iff)

lemma truncate_header [simp]:
  "app_data.truncate (a\<lparr>blockHeader := h\<rparr> :: app_state) = app_data.truncate (a :: app_state)"
  by (simp add: truncate_eq_iff)

lemma Reset_fields [simp]:
  "State (Reset st a) = st" "ParentByIssuer (Reset st a) = fmempty"
  "IssuerCountByParent (Reset st a) = fmempty" "ProofIssuersByBlockID (Reset st a) = fmempty"
  "Milestone (Reset st a) = None" "SignaturesByIssuer (Reset st a) = fmempty"
  "blockHeader (Reset st a) = blockHeader a"
  by (simp_all add: Reset_def)

lemma Copy_Val:
  assumes "json_ok L"
  shows "\<exists>a'. Copy L a src = Val () a' \<and> app_data.truncate a' = app_data.truncate src \<and>
    blockHeader a' = blockHeader a"
proof -
  obtain b where "MarshalBinary L src = Some b" "json_unmarshal L b = Some (app_data.truncate src)"
    using json_okE [OF assms] .
  then show ?thesis
    by (simp add: Copy_def UnmarshalBinary_def truncate_eq_iff)
qed

lemma Hash_Ret:
  assumes "json_ok L"
  shows "\<exists>h. Hash L a = Ret h"
proof -
  obtain b where "MarshalBinary L a = Some b" using json_okE [OF assms] .
  then show ?thesis by (simp add: Hash_def)
qed

lemma Hash_cong:
  "app_data.truncate a = app_data.truncate b \<Longrightarrow> Hash L a = Hash L b"
  by (simp add: Hash_def MarshalBinary_def)

end
