(* ===== verification/Codec.thy ===== *)
theory Codec
  imports AppState
begin

text \<open>
  A concrete instance of the encoding parameters of \<open>AppState\<close>, built from small codecs that
  decode the front of a byte sequence. It takes the place of \<open>encoding/json\<close> where a theorem is
  applied to concrete values, and shows that \<open>json_ok\<close> can hold.
\<close>

type_synonym 'a codec = "('a \<Rightarrow> bytes) \<times> (bytes \<Rightarrow> ('a \<times> bytes) option)"

definition codec_ok :: "'a codec \<Rightarrow> bool" where
  "codec_ok c \<longleftrightarrow> (\<forall>x r. snd c (fst c x @ r) = Some (x, r))"

named_theorems codec_intros

definition c_map :: "('b \<Rightarrow> 'a) \<Rightarrow> ('a \<Rightarrow> 'b) \<Rightarrow> 'a codec \<Rightarrow> 'b codec" where
  "c_map f g c = (fst c \<circ> f, \<lambda>bs. map_option (\<lambda>(x, r). (g x, r)) (snd c bs))"

definition c_pair :: "'a codec \<Rightarrow> 'b codec \<Rightarrow> ('a \<times> 'b) codec" where
  "c_pair c d =
     (\<lambda>(x, y). fst c x @ fst d y,
      \<lambda>bs. case snd c bs of None \<Rightarrow> None
           | Some (x, r) \<Rightarrow> (case snd d r of None \<Rightarrow> None | Some (y, r') \<Rightarrow> Some ((x, y), r')))"

definition c_word8 :: "8 word codec" where
  "c_word8 = (\<lambda>b. [b], \<lambda>bs. case bs of [] \<Rightarrow> None | b # r \<Rightarrow> Some (b, r))"

definition c_byte32 :: "byte32 codec" where
  "c_byte32 = (bytes_of, \<lambda>bs. Some (copy32 zero32 (take 32 bs), drop 32 bs))"

definition c_word64 :: "64 word codec" where
  "c_word64 = (le64, \<lambda>bs. Some (of_le64 (take 8 bs), drop 8 bs))"

text \<open>Lists are terminated; naturals are lists of units.\<close>

fun enc_list :: "('a \<Rightarrow> bytes) \<Rightarrow> 'a list \<Rightarrow> bytes" where
  "enc_list f [] = [0]"
| "enc_list f (x # xs) = 1 # f x @ enc_list f xs"

fun dec_list :: "nat \<Rightarrow> (bytes \<Rightarrow> ('a \<times> bytes) option) \<Rightarrow> bytes \<Rightarrow> ('a list \<times> bytes) option" where
  "dec_list 0 g bs = None"
| "dec_list (Suc n) g [] = None"
| "dec_list (Suc n) g (b # bs) =
     (if b = 0 then Some ([], bs)
      else case g bs of None \<Rightarrow> None
           | Some (x, r) \<Rightarrow> (case dec_list n g r of None \<Rightarrow> None | Some (xs, r') \<Rightarrow> Some (x # xs, r')))"

definition c_list :: "'a codec \<Rightarrow> 'a list codec" where
  "c_list c = (enc_list (fst c), \<lambda>bs. dec_list (length bs) (snd c) bs)"

definition c_unit :: "unit codec" where
  "c_unit = (\<lambda>_. [], \<lambda>bs. Some ((), bs))"

definition c_nat :: "nat codec" where
  "c_nat = c_map (\<lambda>n. replicate n ()) length (c_list c_unit)"

definition c_int :: "int codec" where
  "c_int = c_map (\<lambda>i. (nat i, nat (- i))) (\<lambda>(a, b). int a - int b) (c_pair c_nat c_nat)"

definition c_option :: "'a codec \<Rightarrow> 'a option codec" where
  "c_option c =
     c_map (\<lambda>x. case x of None \<Rightarrow> [] | Some y \<Rightarrow> [y])
       (\<lambda>xs. case xs of [] \<Rightarrow> None | y # _ \<Rightarrow> Some y) (c_list c)"

definition c_fmap :: "'k::linorder codec \<Rightarrow> 'v codec \<Rightarrow> ('k, 'v) fmap codec" where
  "c_fmap c d = c_map sorted_list_of_fmap fmap_of_list (c_list (c_pair c d))"

lemma c_map_ok: "codec_ok c \<Longrightarrow> (\<And>y. g (f y) = y) \<Longrightarrow> codec_ok (c_map f g c)"
  by (simp add: codec_ok_def c_map_def)

lemma c_pair_ok [codec_intros]: "codec_ok c \<Longrightarrow> codec_ok d \<Longrightarrow> codec_ok (c_pair c d)"
  by (simp add: codec_ok_def c_pair_def)

lemma c_word8_ok [codec_intros]: "codec_ok c_word8"
  by (simp add: codec_ok_def c_word8_def)

lemma c_byte32_ok [codec_intros]: "codec_ok c_byte32"
  by (simp add: codec_ok_def c_byte32_def)

lemma c_word64_ok [codec_intros]: "codec_ok c_word64"
  by (simp add: codec_ok_def c_word64_def le64_inverse)

lemma c_unit_ok [codec_intros]: "codec_ok c_unit"
  by (simp add: codec_ok_def c_unit_def)

lemma dec_enc_list:
  assumes "codec_ok c" and "length xs < n"
  shows "dec_list n (snd c) (enc_list (fst c) xs @ r) = Some (xs, r)"
  using assms(2)
proof (induction xs arbitrary: n)
  case Nil
  then show ?case by (cases n) auto
next
  case (Cons x xs)
  then show ?case using assms(1) by (cases n) (auto simp: codec_ok_def)
qed

lemma c_list_ok [codec_intros]: "codec_ok c \<Longrightarrow> codec_ok (c_list c)"
proof -
  assume c: "codec_ok c"
  have "length xs < length (enc_list (fst c) xs)" for xs
    by (induction xs) auto
  then have "length xs < length (enc_list (fst c) xs @ r)" for xs r
    by (simp add: trans_less_add1)
  then show ?thesis using dec_enc_list [OF c] unfolding codec_ok_def c_list_def by simp
qed

lemma c_nat_ok [codec_intros]: "codec_ok c_nat"
  unfolding c_nat_def by (rule c_map_ok) (auto intro: codec_intros)

lemma c_int_ok [codec_intros]: "codec_ok c_int"
  unfolding c_int_def by (rule c_map_ok) (auto intro: codec_intros)

lemma c_option_ok [codec_intros]: "codec_ok c \<Longrightarrow> codec_ok (c_option c)"
  unfolding c_option_def by (rule c_map_ok) (auto intro: codec_intros split: option.split)

lemma c_fmap_ok [codec_intros]: "codec_ok c \<Longrightarrow> codec_ok d \<Longrightarrow> codec_ok (c_fmap c d)"
  unfolding c_fmap_def
  by (rule c_map_ok)
    (auto intro: codec_intros fmap_ext simp: fmlookup_of_list map_of_sorted_list)

section \<open>The application state\<close>

definition c_state :: "state codec" where
  "c_state =
     c_map (\<lambda>s. (MilestoneHeight s, ucast (MilestoneIndex s), LastMilestoneID s, LastMilestoneBlockID s))
       (\<lambda>(h, i, m, b). \<lparr>MilestoneHeight = h, MilestoneIndex = ucast (i :: 64 word),
                        LastMilestoneID = m, LastMilestoneBlockID = b\<rparr>)
       (c_pair c_word64 (c_pair c_word64 (c_pair c_byte32 c_byte32)))"

definition c_signature :: "ed25519_signature codec" where
  "c_signature =
     c_map (\<lambda>s. (sigPublicKey s, sigSignature s))
       (\<lambda>(p, s). \<lparr>sigPublicKey = p, sigSignature = s\<rparr>) (c_pair c_byte32 (c_list c_word8))"

definition c_milestone :: "milestone codec" where
  "c_milestone =
     c_map (\<lambda>m. (ucast (msIndex m), ucast (msTimestamp m), msProtocolVersion m,
                 msPreviousMilestoneID m, msParents m, msInclusionMerkleRoot m,
                 msAppliedMerkleRoot m, msMetadata m, msSignatures m))
       (\<lambda>(i, ts, v, prev, ps, incl, appl, md, sigs).
          \<lparr>msIndex = ucast (i :: 64 word), msTimestamp = ucast (ts :: 64 word),
           msProtocolVersion = v, msPreviousMilestoneID = prev, msParents = ps,
           msInclusionMerkleRoot = incl, msAppliedMerkleRoot = appl, msMetadata = md,
           msSignatures = sigs\<rparr>)
       (c_pair c_word64 (c_pair c_word64 (c_pair c_word8 (c_pair c_byte32
         (c_pair (c_list c_byte32) (c_pair c_byte32 (c_pair c_byte32
           (c_pair (c_list c_word8) (c_list c_signature)))))))))"

definition c_app_data :: "app_data codec" where
  "c_app_data =
     c_map (\<lambda>d. (State d, ParentByIssuer d, IssuerCountByParent d, ProofIssuersByBlockID d,
                 Milestone d, SignaturesByIssuer d))
       (\<lambda>(s, p, c, q, m, g).
          \<lparr>State = s, ParentByIssuer = p, IssuerCountByParent = c, ProofIssuersByBlockID = q,
           Milestone = m, SignaturesByIssuer = g\<rparr>)
       (c_pair c_state (c_pair (c_fmap c_byte32 c_byte32) (c_pair (c_fmap c_byte32 c_int)
         (c_pair (c_fmap c_byte32 (c_fmap c_byte32 c_unit))
           (c_pair (c_option c_milestone) (c_fmap c_byte32 c_signature))))))"

lemma ucast_32_64 [simp]: "ucast (ucast (w :: 32 word) :: 64 word) = w"
  by (simp add: ucast_up_ucast_id is_up)

lemma c_state_ok [codec_intros]: "codec_ok c_state"
  unfolding c_state_def by (rule c_map_ok) (auto intro!: codec_intros)

lemma c_signature_ok [codec_intros]: "codec_ok c_signature"
  unfolding c_signature_def by (rule c_map_ok) (auto intro!: codec_intros)

lemma c_milestone_ok [codec_intros]: "codec_ok c_milestone"
  unfolding c_milestone_def by (rule c_map_ok) (auto intro!: codec_intros)

lemma c_app_data_ok: "codec_ok c_app_data"
  unfolding c_app_data_def by (rule c_map_ok) (auto intro!: codec_intros)

definition toy_app :: "'m \<Rightarrow> 'm app_lib_scheme" where
  "toy_app m = toy_lib
     \<lparr>json_marshal = (\<lambda>d. Some (fst c_app_data d)),
      json_unmarshal = (\<lambda>b. map_option fst (snd c_app_data b)),
      blake2b = (\<lambda>b. copy32 zero32 b), \<dots> = m\<rparr>"

lemma toy_json: "json_ok (toy_app m)"
proof -
  have "snd c_app_data (fst c_app_data d) = Some (d, [])" for d
    using c_app_data_ok unfolding codec_ok_def by (metis append_Nil2)
  then show ?thesis by (simp add: json_ok_def toy_app_def toy_lib_def)
qed

end
