(* ===== verification/Txs.thy ===== *)
theory Txs
  imports Codec
begin

text \<open>
  The three Tendermint transactions of \<open>pkg/decoo/txs.go\<close> and their \<open>Apply\<close> methods, which check
  a transaction against the application state and change it. A result is the error, if any, and
  the state behind the pointer; a panic is a panic of the method. Issuer counts are Go \<open>int\<close>s
  that never exceed the number of issuers, so they are modelled as \<open>int\<close>.
\<close>

section \<open>Transactions\<close>

datatype tx =
  Parent "32 word" block_id
| Proof "32 word" block_id
| PartialSignature bytes

datatype tx_error =
  ErrInvalidBlockID | ErrInvalidState | ErrReplayed | ErrCommittee committee_error
| ErrProto | ErrUnknownMessage

text \<open>\<open>Parent.Apply\<close>\<close>

definition Parent_Apply ::
    "32 word \<Rightarrow> block_id \<Rightarrow> bytes \<Rightarrow> app_state \<Rightarrow> (tx_error option \<times> app_state) go" where
  "Parent_Apply i b issuer s =
     (if i \<noteq> MilestoneIndex (State s) then Ret (Some ErrInvalidState, s)
      else if Milestone s \<noteq> None then Ret (Some ErrInvalidState, s)
      else go_bind (IDFromPublicKey issuer) (\<lambda>issuerID.
        if fmlookup (ParentByIssuer s) issuerID \<noteq> None then Ret (Some ErrReplayed, s)
        else Ret (None,
          s\<lparr>ParentByIssuer := fmupd issuerID b (ParentByIssuer s),
            IssuerCountByParent :=
              fmupd b (map_get 0 (IssuerCountByParent s) b + 1) (IssuerCountByParent s)\<rparr>)))"

text \<open>\<open>Proof.Apply\<close>: the set of a block is created in the state before it is looked at.\<close>

definition Proof_Apply ::
    "32 word \<Rightarrow> block_id \<Rightarrow> bytes \<Rightarrow> app_state \<Rightarrow> (tx_error option \<times> app_state) go" where
  "Proof_Apply i b issuer s =
     (if i \<noteq> MilestoneIndex (State s) then Ret (Some ErrInvalidState, s)
      else if Milestone s \<noteq> None then Ret (Some ErrInvalidState, s)
      else if map_get 0 (IssuerCountByParent s) b < 1 then Ret (Some ErrInvalidState, s)
      else go_bind (IDFromPublicKey issuer) (\<lambda>issuerID.
        (case (case fmlookup (ProofIssuersByBlockID s) b of
                 None \<Rightarrow> (fmempty, s\<lparr>ProofIssuersByBlockID := fmupd b fmempty (ProofIssuersByBlockID s)\<rparr>)
               | Some proofs \<Rightarrow> (proofs, s)) of
           (proofs, s1) \<Rightarrow>
             if fmlookup proofs issuerID \<noteq> None then Ret (Some ErrReplayed, s1)
             else Ret (None,
               s1\<lparr>ProofIssuersByBlockID :=
                    fmupd b (fmupd issuerID () proofs) (ProofIssuersByBlockID s1)\<rparr>))))"

text \<open>\<open>PartialSignature.Apply\<close>\<close>

definition PartialSignature_Apply ::
    "'z app_lib_scheme \<Rightarrow> bytes \<Rightarrow> bytes \<Rightarrow> app_state \<Rightarrow> (tx_error option \<times> app_state) go" where
  "PartialSignature_Apply L sig issuer s =
     (case Milestone s of
        None \<Rightarrow> Ret (Some ErrInvalidState, s)
      | Some ms \<Rightarrow>
          go_bind (Byte32FromSlice issuer) (\<lambda>issuerKey.
          if fmlookup (SignaturesByIssuer s) issuerKey \<noteq> None then Ret (Some ErrReplayed, s)
          else (case essence_of L ms of
                  None \<Rightarrow> Panic ''essence''
                | Some es \<Rightarrow>
                    go_bind (ed_Verify L issuer es sig) (\<lambda>ok.
                    if \<not> ok then Ret (Some (ErrCommittee ErrInvalidSignature), s)
                    else go_bind (IDFromPublicKey issuer) (\<lambda>issuerID.
                      Ret (None,
                        s\<lparr>SignaturesByIssuer :=
                            fmupd issuerID
                              \<lparr>sigPublicKey = copy32 zero32 issuer, sigSignature = copy64 sig\<rparr>
                              (SignaturesByIssuer s)\<rparr>))))))"

primrec Apply ::
    "'z app_lib_scheme \<Rightarrow> tx \<Rightarrow> bytes \<Rightarrow> app_state \<Rightarrow> (tx_error option \<times> app_state) go" where
  "Apply L (Parent i b) issuer s = Parent_Apply i b issuer s"
| "Apply L (Proof i b) issuer s = Proof_Apply i b issuer s"
| "Apply L (PartialSignature sig) issuer s = PartialSignature_Apply L sig issuer s"

section \<open>What a successful Apply does\<close>

lemma Parent_Apply_Ret_None:
  "Parent_Apply i b (bytes_of p) s = Ret (None, s') \<longleftrightarrow>
     i = MilestoneIndex (State s) \<and> Milestone s = None \<and> fmlookup (ParentByIssuer s) p = None \<and>
     s' = s\<lparr>ParentByIssuer := fmupd p b (ParentByIssuer s),
            IssuerCountByParent :=
              fmupd b (map_get 0 (IssuerCountByParent s) b + 1) (IssuerCountByParent s)\<rparr>"
  by (auto simp: Parent_Apply_def split: if_splits)

lemma Proof_Apply_Ret_None:
  "Proof_Apply i b (bytes_of p) s = Ret (None, s') \<longleftrightarrow>
     i = MilestoneIndex (State s) \<and> Milestone s = None \<and> 1 \<le> map_get 0 (IssuerCountByParent s) b \<and>
     fmlookup (map_get fmempty (ProofIssuersByBlockID s) b) p = None \<and>
     s' = s\<lparr>ProofIssuersByBlockID :=
              fmupd b (fmupd p () (map_get fmempty (ProofIssuersByBlockID s) b))
                (ProofIssuersByBlockID s)\<rparr>"
  by (auto simp: Proof_Apply_def map_get_def split: if_splits option.splits prod.splits)

lemma PartialSignature_Apply_Ret_None:
  "PartialSignature_Apply L sig (bytes_of p) s = Ret (None, s') \<longleftrightarrow>
     (\<exists>ms es. Milestone s = Some ms \<and> fmlookup (SignaturesByIssuer s) p = None \<and>
        essence_of L ms = Some es \<and> length sig = 64 \<and> verify_raw L p es sig \<and>
        s' = s\<lparr>SignaturesByIssuer :=
                 fmupd p \<lparr>sigPublicKey = p, sigSignature = sig\<rparr> (SignaturesByIssuer s)\<rparr>)"
  by (auto simp: PartialSignature_Apply_def copy64_id split: if_splits option.splits)

lemmas Apply_Ret_None =
  Parent_Apply_Ret_None Proof_Apply_Ret_None PartialSignature_Apply_Ret_None

lemmas Apply_defs = Parent_Apply_def Proof_Apply_def PartialSignature_Apply_def

section \<open>Invariant of the state\<close>

text \<open>The issuers that proposed \<open>b\<close> as a parent, and those that proved it.\<close>

definition proposers :: "'a app_data_scheme \<Rightarrow> block_id \<Rightarrow> peer_id set" where
  "proposers s b = {p \<in> fmdom' (ParentByIssuer s). fmlookup (ParentByIssuer s) p = Some b}"

definition provers :: "'a app_data_scheme \<Rightarrow> block_id \<Rightarrow> peer_id set" where
  "provers s b = fmdom' (map_get fmempty (ProofIssuersByBlockID s) b)"

text \<open>Counts are the numbers of proposers, and only proposed blocks have proofs.\<close>

definition tally_inv :: "'a app_data_scheme \<Rightarrow> bool" where
  "tally_inv s \<longleftrightarrow>
     (\<forall>b. map_get 0 (IssuerCountByParent s) b = int (card (proposers s b))) \<and>
     (\<forall>b. fmlookup (ProofIssuersByBlockID s) b \<noteq> None \<longrightarrow> proposers s b \<noteq> {} \<and> provers s b \<noteq> {})"

text \<open>There are signatures only for an essence, each of its own key and verified.\<close>

definition sigs_inv :: "'z app_lib_scheme \<Rightarrow> 'a app_data_scheme \<Rightarrow> bool" where
  "sigs_inv L s \<longleftrightarrow>
     (case Milestone s of
        None \<Rightarrow> SignaturesByIssuer s = fmempty
      | Some ms \<Rightarrow>
          (\<forall>p sg. fmlookup (SignaturesByIssuer s) p = Some sg \<longrightarrow>
             sigPublicKey sg = p \<and> length (sigSignature sg) = 64 \<and>
             (\<exists>es. essence_of L ms = Some es \<and> verify_raw L p es (sigSignature sg))))"

text \<open>Everybody recorded in the state belongs to \<open>M\<close>.\<close>

definition members_inv :: "peer_id set \<Rightarrow> 'a app_data_scheme \<Rightarrow> bool" where
  "members_inv M s \<longleftrightarrow>
     fmdom' (ParentByIssuer s) \<subseteq> M \<and> (\<forall>b. provers s b \<subseteq> M) \<and> fmdom' (SignaturesByIssuer s) \<subseteq> M"

definition app_inv :: "'z app_lib_scheme \<Rightarrow> peer_id set \<Rightarrow> 'a app_data_scheme \<Rightarrow> bool" where
  "app_inv L M s \<longleftrightarrow> tally_inv s \<and> sigs_inv L s \<and> members_inv M s"

lemma finite_proposers [simp]: "finite (proposers s b)"
  by (simp add: proposers_def)

lemma finite_provers [simp]: "finite (provers s b)"
  by (simp add: provers_def)

lemma app_inv_Reset: "app_inv L M (Reset st a)"
  by (simp add: app_inv_def tally_inv_def sigs_inv_def members_inv_def proposers_def provers_def)

lemma app_inv_truncate: "app_inv L M (app_data.truncate a) = app_inv L M a"
  by (simp add: app_inv_def tally_inv_def sigs_inv_def members_inv_def proposers_def provers_def
      split: option.split)

section \<open>The contract of a transaction\<close>

text \<open>
  What every handler of transactions relies on, whatever the transaction: an error leaves the
  state as it was, the context and the coordinator state never change, the invariant is kept
  for an issuer of \<open>M\<close>, and an applied transaction is refused when it comes again.
\<close>

locale tx_contract =
  fixes lib :: "'z app_lib_scheme"
    and ap :: "'t \<Rightarrow> bytes \<Rightarrow> app_state \<Rightarrow> (tx_error option \<times> app_state) go"
  assumes ap_error: "ap t (bytes_of p) s = Ret (Some e, s') \<Longrightarrow> s' = s"
    and ap_frame: "ap t (bytes_of p) s = Ret (r, s') \<Longrightarrow>
      State s' = State s \<and> Milestone s' = Milestone s \<and> blockHeader s' = blockHeader s"
    and ap_inv: "ap t (bytes_of p) s = Ret (None, s') \<Longrightarrow> p \<in> M \<Longrightarrow> app_inv lib M s \<Longrightarrow> app_inv lib M s'"
    and ap_replay: "ap t (bytes_of p) s = Ret (None, s') \<Longrightarrow> ap t (bytes_of p) s' = Ret (Some ErrReplayed, s')"
begin

text \<open>Delivering a list of transactions, as long as none panics.\<close>

lemma deliver_all:
  assumes "fold (\<lambda>(t, p) r. go_bind r (\<lambda>s. go_bind (ap t (bytes_of p) s) (\<lambda>rs. Ret (snd rs)))) tps (Ret s) = Ret s'"
    and "snd ` set tps \<subseteq> M" and "app_inv lib M s"
  shows "app_inv lib M s' \<and> State s' = State s \<and> Milestone s' = Milestone s \<and> blockHeader s' = blockHeader s"
  using assms
proof (induction tps arbitrary: s)
  case Nil
  then show ?case by simp
next
  case (Cons tp tps)
  let ?f = "\<lambda>(t, p) r. go_bind r (\<lambda>s. go_bind (ap t (bytes_of p) s) (\<lambda>rs. Ret (snd rs)))"
  obtain t p where tp: "tp = (t, p)" by (cases tp)
  have panic: "fold ?f xs (Panic e) = Panic e" for xs e
    by (induction xs) auto
  obtain r s1 where r: "ap t (bytes_of p) s = Ret (r, s1)"
    using Cons.prems(1) tp panic by (cases "ap t (bytes_of p) s") auto
  have inv: "app_inv lib M s1"
  proof (cases r)
    case None
    then show ?thesis using r ap_inv [of t p s s1 M] Cons.prems(2,3) tp by simp
  next
    case (Some e)
    then show ?thesis using r ap_error [of t p s e s1] Cons.prems(3) by simp
  qed
  have "fold ?f tps (Ret s1) = Ret s'" and "snd ` set tps \<subseteq> M"
    using Cons.prems(1,2) tp r by auto
  from Cons.IH [OF this inv] ap_frame [OF r] show ?case by simp
qed

end

section \<open>The model's transactions meet the contract\<close>

lemma proposers_Parent:
  assumes "fmlookup (ParentByIssuer s) p = None"
  shows "proposers (s\<lparr>ParentByIssuer := fmupd p b (ParentByIssuer s)\<rparr>) c =
    (if b = c then insert p (proposers s c) else proposers s c)"
  using assms by (auto simp: proposers_def fmlookup_dom'_iff)

lemma proposers_upd [simp]:
  "proposers (s\<lparr>IssuerCountByParent := x\<rparr>) b = proposers s b"
  "proposers (s\<lparr>ProofIssuersByBlockID := y\<rparr>) b = proposers s b"
  "proposers (s\<lparr>SignaturesByIssuer := z\<rparr>) b = proposers s b"
  "proposers (s\<lparr>Milestone := m\<rparr>) b = proposers s b"
  by (simp_all add: proposers_def)

lemma provers_upd [simp]:
  "provers (s\<lparr>ParentByIssuer := w\<rparr>) b = provers s b"
  "provers (s\<lparr>IssuerCountByParent := x\<rparr>) b = provers s b"
  "provers (s\<lparr>SignaturesByIssuer := z\<rparr>) b = provers s b"
  "provers (s\<lparr>Milestone := m\<rparr>) b = provers s b"
  by (simp_all add: provers_def)

lemma Parent_inv:
  assumes "Parent_Apply i b (bytes_of p) s = Ret (None, s')" and "p \<in> M" and "app_inv L M s"
  shows "app_inv L M s'"
proof -
  have s': "Milestone s = None" "fmlookup (ParentByIssuer s) p = None"
    "s' = s\<lparr>ParentByIssuer := fmupd p b (ParentByIssuer s),
      IssuerCountByParent := fmupd b (map_get 0 (IssuerCountByParent s) b + 1) (IssuerCountByParent s)\<rparr>"
    using assms(1) by (auto simp: Parent_Apply_Ret_None)
  have pr: "proposers s' c = (if b = c then insert p (proposers s c) else proposers s c)" for c
    using proposers_Parent [OF s'(2)] s'(3) by simp
  have pv: "provers s' c = provers s c" for c using s'(3) by simp
  have np: "p \<notin> proposers s b" using s'(2) by (simp add: proposers_def)
  have "tally_inv s'"
    using assms(3) np unfolding app_inv_def tally_inv_def pr pv by (auto simp: s'(3))
  moreover have "sigs_inv L s'" using assms(3) s' by (simp add: app_inv_def sigs_inv_def)
  moreover have "members_inv M s'"
    using assms(2,3) unfolding app_inv_def members_inv_def pv by (simp add: s'(3))
  ultimately show ?thesis by (simp add: app_inv_def)
qed

lemma Proof_inv:
  assumes "Proof_Apply i b (bytes_of p) s = Ret (None, s')" and "p \<in> M" and "app_inv L M s"
  shows "app_inv L M s'"
proof -
  have s': "Milestone s = None" "1 \<le> map_get 0 (IssuerCountByParent s) b"
    "s' = s\<lparr>ProofIssuersByBlockID :=
              fmupd b (fmupd p () (map_get fmempty (ProofIssuersByBlockID s) b))
                (ProofIssuersByBlockID s)\<rparr>"
    using assms(1) by (auto simp: Proof_Apply_Ret_None)
  have pr: "proposers s' c = proposers s c" for c using s'(3) by simp
  have pv: "provers s' c = (if b = c then insert p (provers s c) else provers s c)" for c
    using s'(3) by (simp add: provers_def)
  have ne: "proposers s b \<noteq> {}"
    using s'(2) assms(3) by (auto simp: app_inv_def tally_inv_def)
  have "tally_inv s'"
    using assms(3) ne unfolding app_inv_def tally_inv_def pr pv by (auto simp: s'(3))
  moreover have "sigs_inv L s'" using assms(3) s' by (simp add: app_inv_def sigs_inv_def)
  moreover have "members_inv M s'"
    using assms(2,3) unfolding app_inv_def members_inv_def pv by (simp add: s'(3))
  ultimately show ?thesis by (simp add: app_inv_def)
qed

lemma PartialSignature_inv:
  assumes "PartialSignature_Apply L sig (bytes_of p) s = Ret (None, s')" and "p \<in> M"
    and "app_inv L M s"
  shows "app_inv L M s'"
proof -
  obtain ms es where s': "Milestone s = Some ms" "essence_of L ms = Some es" "length sig = 64"
    "verify_raw L p es sig"
    "s' = s\<lparr>SignaturesByIssuer :=
             fmupd p \<lparr>sigPublicKey = p, sigSignature = sig\<rparr> (SignaturesByIssuer s)\<rparr>"
    using assms(1) by (auto simp: PartialSignature_Apply_Ret_None)
  have pr: "proposers s' c = proposers s c" and pv: "provers s' c = provers s c" for c
    using s'(5) by simp_all
  have "tally_inv s'"
    using assms(3) unfolding app_inv_def tally_inv_def pr pv by (simp add: s'(5))
  moreover have "sigs_inv L s'"
    using assms(3) s' by (auto simp: app_inv_def sigs_inv_def)
  moreover have "members_inv M s'"
    using assms(2,3) unfolding app_inv_def members_inv_def pv by (simp add: s'(5))
  ultimately show ?thesis by (simp add: app_inv_def)
qed

lemma Proof_Apply_error:
  assumes "Proof_Apply i b (bytes_of p) s = Ret (Some e, s')"
  shows "s' = s"
  using assms by (auto simp: Proof_Apply_def split: if_splits option.splits prod.splits)

lemma Parent_Apply_error: "Parent_Apply i b (bytes_of p) s = Ret (Some e, s') \<Longrightarrow> s' = s"
  by (auto simp: Parent_Apply_def split: if_splits)

lemma PartialSignature_Apply_error:
  "PartialSignature_Apply L sig (bytes_of p) s = Ret (Some e, s') \<Longrightarrow> s' = s"
  by (auto simp: PartialSignature_Apply_def split: if_splits option.splits)

lemma Parent_Apply_frame:
  "Parent_Apply i b (bytes_of p) s = Ret (r, s') \<Longrightarrow>
     State s' = State s \<and> Milestone s' = Milestone s \<and> blockHeader s' = blockHeader s"
  by (auto simp: Parent_Apply_def split: if_splits)

lemma Proof_Apply_frame:
  "Proof_Apply i b (bytes_of p) s = Ret (r, s') \<Longrightarrow>
     State s' = State s \<and> Milestone s' = Milestone s \<and> blockHeader s' = blockHeader s"
  by (auto simp: Proof_Apply_def split: if_splits option.splits prod.splits)

lemma PartialSignature_Apply_frame:
  "PartialSignature_Apply L sig (bytes_of p) s = Ret (r, s') \<Longrightarrow>
     State s' = State s \<and> Milestone s' = Milestone s \<and> blockHeader s' = blockHeader s"
  by (auto simp: PartialSignature_Apply_def split: if_splits option.splits)

lemma Parent_replay:
  "Parent_Apply i b (bytes_of p) s = Ret (None, s') \<Longrightarrow>
     Parent_Apply i b' (bytes_of p) s' = Ret (Some ErrReplayed, s')"
  by (auto simp: Parent_Apply_Ret_None) (simp add: Parent_Apply_def)

lemma Proof_replay:
  "Proof_Apply i b (bytes_of p) s = Ret (None, s') \<Longrightarrow>
     Proof_Apply i b (bytes_of p) s' = Ret (Some ErrReplayed, s')"
  by (auto simp: Proof_Apply_Ret_None) (simp add: Proof_Apply_def)

lemma PartialSignature_replay:
  "PartialSignature_Apply L sig (bytes_of p) s = Ret (None, s') \<Longrightarrow>
     PartialSignature_Apply L sig' (bytes_of p) s' = Ret (Some ErrReplayed, s')"
  by (auto simp: PartialSignature_Apply_Ret_None) (simp add: PartialSignature_Apply_def)

interpretation txs: tx_contract L "Apply L" for L :: "'z app_lib_scheme"
proof
  fix t p s r s' e M
  show "Apply L t (bytes_of p) s = Ret (Some e, s') \<Longrightarrow> s' = s"
    by (cases t) (auto dest: Parent_Apply_error Proof_Apply_error PartialSignature_Apply_error)
  show "Apply L t (bytes_of p) s = Ret (r, s') \<Longrightarrow>
      State s' = State s \<and> Milestone s' = Milestone s \<and> blockHeader s' = blockHeader s"
    by (cases t)
      (auto dest: Parent_Apply_frame Proof_Apply_frame PartialSignature_Apply_frame)
  show "Apply L t (bytes_of p) s = Ret (None, s') \<Longrightarrow> p \<in> M \<Longrightarrow> app_inv L M s \<Longrightarrow> app_inv L M s'"
    by (cases t) (simp_all add: Parent_inv Proof_inv PartialSignature_inv)
  show "Apply L t (bytes_of p) s = Ret (None, s') \<Longrightarrow>
      Apply L t (bytes_of p) s' = Ret (Some ErrReplayed, s')"
    by (cases t) (simp_all add: Parent_replay Proof_replay PartialSignature_replay)
qed

section \<open>The abstract ballot\<close>










text \<open>A state with a parent and one proof, for the examples.\<close>

definition state7 :: state where
  "state7 = \<lparr>MilestoneHeight = 3, MilestoneIndex = 7, LastMilestoneID = b32 6, LastMilestoneBlockID = b32 106\<rparr>"

definition fresh7 :: app_state where
  "fresh7 =
     \<lparr>State = state7, ParentByIssuer = fmempty, IssuerCountByParent = fmempty,
      ProofIssuersByBlockID = fmempty, Milestone = None, SignaturesByIssuer = fmempty,
      blockHeader = \<lparr>hdrHeight = 4, hdrTime = 1000\<rparr>\<rparr>"

definition voted7 :: app_state where
  "voted7 = fresh7
     \<lparr>ParentByIssuer := fmupd (b32 1) (b32 50) fmempty,
      IssuerCountByParent := fmupd (b32 50) 1 fmempty\<rparr>"

lemma fresh7_inv: "app_inv L M fresh7"
proof -
  have "fresh7 = Reset state7 fresh7" by (simp add: fresh7_def Reset_def)
  then show ?thesis by (metis app_inv_Reset)
qed

lemma voted7_apply: "Parent_Apply 7 (b32 50) (bytes_of (b32 1)) fresh7 = Ret (None, voted7)"
  by (simp add: Parent_Apply_def fresh7_def voted7_def state7_def)


section \<open>Properties\<close>



text \<open>
  \<open>Apply\<close> keeps the invariant of the application state: counts are the numbers of proposers,
  proofs are only recorded for proposed blocks, recorded signatures verify the essence of the
  current milestone, and all recorded issuers belong to \<open>M\<close>. A transaction that is refused
  changes nothing.
\<close>
theorem Apply_keeps_invariant:
  assumes "Apply L t issuer s = Ret (r, s')" and "issuer \<in> bytes_of ` M" and "app_inv L M s"
  shows "app_inv L M s' \<and> (r = None \<or> s' = s)"
proof -
  obtain p where p: "issuer = bytes_of p" "p \<in> M" using assms(2) by blast
  show ?thesis
  proof (cases r)
    case None
    then show ?thesis using txs.ap_inv assms(1,3) p by blast
  next
    case (Some e)
    then have "s' = s" using txs.ap_error assms(1) p by blast
    then show ?thesis using assms(3) by simp
  qed
qed

theorem Apply_keeps_invariant_witness:
  "app_inv (toy_app ()) {b32 1} voted7 \<and> ((None :: tx_error option) = None \<or> voted7 = fresh7)"
  by (rule Apply_keeps_invariant [where t = "Parent 7 (b32 50)" and issuer = "bytes_of (b32 1)"])
    (simp_all add: voted7_apply fresh7_inv)

text \<open>
  C20. A member cannot move its vote: once its \<open>Parent\<close> for \<open>b\<close> has been applied, then after any
  sequence of further transactions, of anybody and refused or not, the state still records \<open>b\<close> as
  the vote of that member, and every other \<open>Parent\<close> of that member for the index is refused with
  \<open>ErrReplayed\<close> and changes nothing.
\<close>
theorem Parent_vote_is_final:
  assumes "Apply L (Parent i b) (bytes_of p) s = Ret (None, s1)"
    and "fold (\<lambda>(t, q) r. go_bind r (\<lambda>s. go_bind (Apply L t (bytes_of q) s) (\<lambda>rs. Ret (snd rs))))
           tps (Ret s1) = Ret s2"
  shows "fmlookup (ParentByIssuer s2) p = Some b \<and>
    Apply L (Parent i b') (bytes_of p) s2 = Ret (Some ErrReplayed, s2)"
proof -
  let ?f = "\<lambda>(t, q) r. go_bind r (\<lambda>s. go_bind (Apply L t (bytes_of q) s) (\<lambda>rs. Ret (snd rs)))"
  have panic: "fold ?f xs (Panic e) = Panic e" for xs e by (induction xs) auto
  let ?P = "\<lambda>s. i = MilestoneIndex (State s) \<and> Milestone s = None \<and> fmlookup (ParentByIssuer s) p = Some b"
  have one: "?P s''" if "?P s'" "Apply L t (bytes_of q) s' = Ret (r, s'')" for t q r s' s''
  proof (cases r)
    case None
    then show ?thesis using that by (cases t) (auto simp: Apply_Ret_None)
  next
    case (Some e)
    then have "s'' = s'" using that(2) txs.ap_error by blast
    then show ?thesis using that(1) by simp
  qed
  have "?P s2" if "?P s1" using that assms(2)
  proof (induction tps arbitrary: s1)
    case (Cons tq tps)
    obtain t q where tq: "tq = (t, q)" by (cases tq)
    obtain r s' where r: "Apply L t (bytes_of q) s1 = Ret (r, s')"
      using Cons.prems(2) tq panic by (cases "Apply L t (bytes_of q) s1") auto
    have "fold ?f tps (Ret s') = Ret s2" using Cons.prems(2) tq r by simp
    then show ?case using Cons.IH one [OF Cons.prems(1) r] by blast
  qed simp
  moreover have "?P s1" using assms(1) by (auto simp: Parent_Apply_Ret_None)
  ultimately show ?thesis by (simp add: Parent_Apply_def)
qed

text \<open>The member 1 has voted for block 50; then it tries to vote for 51, and member 2 does so.\<close>

theorem Parent_vote_is_final_witness:
  "\<exists>s2. fold (\<lambda>(t, q) r. go_bind r (\<lambda>s. go_bind (Apply (toy_app ()) t (bytes_of q) s) (\<lambda>rs. Ret (snd rs))))
       [(Parent 7 (b32 51), b32 1), (Proof 7 (b32 50), b32 2), (Parent 7 (b32 51), b32 2)] (Ret voted7) = Ret s2 \<and>
     fmlookup (ParentByIssuer s2) (b32 2) = Some (b32 51) \<and> fmlookup (ParentByIssuer s2) (b32 1) = Some (b32 50) \<and>
     Apply (toy_app ()) (Parent 7 (b32 51)) (bytes_of (b32 1)) s2 = Ret (Some ErrReplayed, s2)"
proof -
  let ?tps = "[(Parent 7 (b32 51), b32 1), (Proof 7 (b32 50), b32 2), (Parent 7 (b32 51), b32 2)]"
  obtain s2 where s2: "fold (\<lambda>(t, q) r. go_bind r (\<lambda>s. go_bind (Apply (toy_app ()) t (bytes_of q) s)
      (\<lambda>rs. Ret (snd rs)))) ?tps (Ret voted7) = Ret s2" "fmlookup (ParentByIssuer s2) (b32 2) = Some (b32 51)"
    by (simp add: voted7_def fresh7_def state7_def Parent_Apply_def Proof_Apply_def map_get_def)
  have "Apply (toy_app ()) (Parent 7 (b32 50)) (bytes_of (b32 1)) fresh7 = Ret (None, voted7)"
    by (simp add: voted7_apply)
  from Parent_vote_is_final [OF this s2(1)] s2 show ?thesis by blast
qed

end
