(* ===== verification/CommitStore.thy ===== *)
theory CommitStore
  imports Txs
begin

text \<open>The last committed height and hash, \<open>pkg/decoo/commit.go\<close>. Heights are \<open>int64\<close> and wrap.\<close>

record commit_info =
  Height :: "64 word"
  CommitHash :: bytes

definition LastCommitInfo :: "commit_info \<Rightarrow> commit_info" where
  "LastCommitInfo c = c"

text \<open>The error names the height given and the height expected.\<close>

definition ValidateHeight :: "commit_info \<Rightarrow> 64 word \<Rightarrow> (64 word \<times> 64 word) option" where
  "ValidateHeight c height =
     (let info = LastCommitInfo c; expectedHeight = Height info + 1
      in if height \<noteq> expectedHeight then Some (height, expectedHeight) else None)"

definition CommitStore_Commit :: "'z app_lib_scheme \<Rightarrow> app_state \<Rightarrow> commit_info go" where
  "CommitStore_Commit L s =
     go_bind (Hash L s) (\<lambda>h. Ret \<lparr>Height = hdrHeight (blockHeader s), CommitHash = h\<rparr>)"

lemma ValidateHeight_None_iff: "ValidateHeight c h = None \<longleftrightarrow> h = Height c + 1"
  by (simp add: ValidateHeight_def LastCommitInfo_def Let_def)

lemma CommitStore_Commit_Ret_iff [go_simps]:
  "CommitStore_Commit L s = Ret i \<longleftrightarrow>
     Height i = hdrHeight (blockHeader s) \<and> Hash L s = Ret (CommitHash i)"
  by (cases i) (auto simp: CommitStore_Commit_def go_simps)

end
