(* ===== verification/Wire.thy ===== *)
theory Wire
  imports Txs
begin

text \<open>
  The wire format of transactions: \<open>MarshalTx\<close> and \<open>UnmarshalTx\<close> of \<open>pkg/decoo/txs.go\<close> and the
  messages of \<open>pkg/decoo/proto/tendermint/tx.pb.go\<close>. The protobuf runtime is a parameter; its
  documented behaviour is that encoding cannot fail for these messages, that decoding inverts it,
  and the sizes of the proto3 wire format. The last section gives the wire format itself as a
  concrete instance.
\<close>

section \<open>Messages\<close>

record tx_raw =
  rawEssence :: bytes
  rawPublicKey :: bytes
  rawSignature :: bytes

text \<open>The \<open>oneof\<close> of \<open>Essence\<close>; an essence without a message is \<open>None\<close>.\<close>

datatype essence_message =
  Essence_Parent "32 word" bytes
| Essence_Proof "32 word" bytes
| Essence_PartialSignature bytes

type_synonym essence = "essence_message option"

record tx_lib = app_lib +
  raw_marshal :: "tx_raw \<Rightarrow> bytes option"
  raw_unmarshal :: "bytes \<Rightarrow> tx_raw option"
  essence_marshal :: "essence \<Rightarrow> bytes option"
  essence_unmarshal :: "bytes \<Rightarrow> essence option"

section \<open>Documented behaviour of protobuf\<close>

fun varint_len :: "nat \<Rightarrow> nat" where
  "varint_len n = (if n < 128 then 1 else Suc (varint_len (n div 128)))"

declare varint_len.simps [simp del]

text \<open>Tags are one byte; fields of zero value are left out, messages of a \<open>oneof\<close> are not.\<close>

definition size_len :: "nat \<Rightarrow> nat" where
  "size_len n = 1 + varint_len n + n"

definition size_bytes :: "bytes \<Rightarrow> nat" where
  "size_bytes b = (if b = [] then 0 else size_len (length b))"

definition size_uint32 :: "32 word \<Rightarrow> nat" where
  "size_uint32 i = (if i = 0 then 0 else 1 + varint_len (unat i))"

primrec size_message :: "essence_message \<Rightarrow> nat" where
  "size_message (Essence_Parent i b) = size_uint32 i + size_bytes b"
| "size_message (Essence_Proof i b) = size_uint32 i + size_bytes b"
| "size_message (Essence_PartialSignature s) = size_bytes s"

definition size_essence :: "essence \<Rightarrow> nat" where
  "size_essence e = (case e of None \<Rightarrow> 0 | Some m \<Rightarrow> size_len (size_message m))"

definition size_raw :: "tx_raw \<Rightarrow> nat" where
  "size_raw r = size_bytes (rawEssence r) + size_bytes (rawPublicKey r) + size_bytes (rawSignature r)"

definition proto_ok :: "'z tx_lib_scheme \<Rightarrow> bool" where
  "proto_ok L \<longleftrightarrow>
     (\<forall>r. \<exists>b. raw_marshal L r = Some b \<and> raw_unmarshal L b = Some r \<and> length b = size_raw r) \<and>
     (\<forall>e. \<exists>b. essence_marshal L e = Some b \<and> essence_unmarshal L b = Some e \<and> length b = size_essence e)"

section \<open>Marshalling\<close>

definition MaxTxBytes :: nat where
  "MaxTxBytes = 170"

primrec essence_of_tx :: "tx \<Rightarrow> essence_message" where
  "essence_of_tx (Parent i b) = Essence_Parent i (bytes_of b)"
| "essence_of_tx (Proof i b) = Essence_Proof i (bytes_of b)"
| "essence_of_tx (PartialSignature s) = Essence_PartialSignature s"

definition MarshalTx :: "'z tx_lib_scheme \<Rightarrow> committee \<Rightarrow> tx \<Rightarrow> tx_error + bytes" where
  "MarshalTx L c t =
     (case essence_marshal L (Some (essence_of_tx t)) of
        None \<Rightarrow> Inl ErrProto
      | Some es \<Rightarrow>
          (case raw_marshal L \<lparr>rawEssence = es, rawPublicKey = PublicKey c,
                               rawSignature = sigSignature (Sign L c es)\<rparr> of
             None \<Rightarrow> Inl ErrProto
           | Some b \<Rightarrow> Inr b))"

text \<open>The type switch of \<open>UnmarshalTx\<close>, with the length checks of the block IDs.\<close>

fun tx_of_essence :: "essence \<Rightarrow> tx_error + tx" where
  "tx_of_essence (Some (Essence_Parent i b)) =
     (if length b \<noteq> 32 then Inl ErrInvalidBlockID else Inr (Parent i (copy32 zero32 b)))"
| "tx_of_essence (Some (Essence_Proof i b)) =
     (if length b \<noteq> 32 then Inl ErrInvalidBlockID else Inr (Proof i (copy32 zero32 b)))"
| "tx_of_essence (Some (Essence_PartialSignature s)) = Inr (PartialSignature s)"
| "tx_of_essence None = Inl ErrUnknownMessage"

definition UnmarshalTx ::
    "'z tx_lib_scheme \<Rightarrow> committee \<Rightarrow> 32 word \<Rightarrow> bytes \<Rightarrow> (tx_error + (bytes \<times> tx)) go" where
  "UnmarshalTx L c index b =
     (case raw_unmarshal L b of
        None \<Rightarrow> Ret (Inl ErrProto)
      | Some raw \<Rightarrow>
          go_bind (VerifySingle L c index (rawEssence raw) (rawPublicKey raw) (rawSignature raw))
            (\<lambda>err. case err of
               Some e \<Rightarrow> Ret (Inl (ErrCommittee e))
             | None \<Rightarrow>
                 (case essence_unmarshal L (rawEssence raw) of
                    None \<Rightarrow> Ret (Inl ErrProto)
                  | Some es \<Rightarrow>
                      (case tx_of_essence es of
                         Inl e \<Rightarrow> Ret (Inl e)
                       | Inr t \<Rightarrow> Ret (Inr (rawPublicKey raw, t))))))"

section \<open>Facts\<close>

lemma tx_of_essence_of_tx [simp]: "tx_of_essence (Some (essence_of_tx t)) = Inr t"
  by (cases t) auto

lemma tx_of_essence_Inr_iff: "tx_of_essence e = Inr t \<longleftrightarrow> e = Some (essence_of_tx t)"
proof
  assume a: "tx_of_essence e = Inr t"
  show "e = Some (essence_of_tx t)"
    using a by (induction e rule: tx_of_essence.induct) (auto simp: bytes_of_copy32 split: if_splits)
qed simp

lemma UnmarshalTx_Inr_iff:
  "UnmarshalTx L c i b = Ret (Inr (pk, t)) \<longleftrightarrow>
     (\<exists>raw p. raw_unmarshal L b = Some raw \<and> rawPublicKey raw = pk \<and> pk = bytes_of p \<and>
        p \<in> Members c i \<and> length (rawSignature raw) = 64 \<and>
        verify_raw L p (rawEssence raw) (rawSignature raw) \<and>
        essence_unmarshal L (rawEssence raw) = Some (Some (essence_of_tx t)))"
  (is "?L \<longleftrightarrow> ?R")
proof
  assume ?L
  then obtain raw es where r: "raw_unmarshal L b = Some raw" "rawPublicKey raw = pk"
      "VerifySingle L c i (rawEssence raw) (rawPublicKey raw) (rawSignature raw) = Ret None"
      "essence_unmarshal L (rawEssence raw) = Some es" "tx_of_essence es = Inr t"
    by (auto simp: UnmarshalTx_def go_simps split: option.splits sum.splits)
  then show ?R
    by (auto simp: VerifySingle_Ret_None_iff tx_of_essence_Inr_iff Members_def)
next
  assume ?R
  then obtain raw p where r: "raw_unmarshal L b = Some raw" "rawPublicKey raw = pk" "pk = bytes_of p"
      "p \<in> Members c i" "length (rawSignature raw) = 64"
      "verify_raw L p (rawEssence raw) (rawSignature raw)"
      "essence_unmarshal L (rawEssence raw) = Some (Some (essence_of_tx t))"
    by blast
  then have "VerifySingle L c i (rawEssence raw) (rawPublicKey raw) (rawSignature raw) = Ret None"
    by (auto simp: VerifySingle_Ret_None_iff Members_def)
  with r show ?L by (simp add: UnmarshalTx_def)
qed

lemma VerifySingle_panics_iff:
  "(\<exists>e. VerifySingle cl c i m pk sig = Panic e) \<longleftrightarrow> length pk \<noteq> 32"
proof (cases "length pk = 32")
  case True
  then obtain p where "pk = bytes_of p" by (metis bytes_of_copy32)
  then show ?thesis by (auto simp: VerifySingle_def)
qed (simp add: VerifySingle_def IDFromPublicKey_def Byte32FromSlice_def)

lemma UnmarshalTx_panics:
  "(\<exists>e. UnmarshalTx L c i b = Panic e) \<longleftrightarrow>
     (\<exists>raw. raw_unmarshal L b = Some raw \<and> length (rawPublicKey raw) \<noteq> 32)"
  using VerifySingle_panics_iff
  by (fastforce simp: UnmarshalTx_def go_simps split: option.splits sum.splits)

lemma MarshalTx_Inr:
  assumes "proto_ok L"
  obtains es b where "MarshalTx L c t = Inr b"
    and "essence_unmarshal L es = Some (Some (essence_of_tx t))"
    and "length es = size_essence (Some (essence_of_tx t))"
    and "raw_unmarshal L b = Some \<lparr>rawEssence = es, rawPublicKey = PublicKey c,
           rawSignature = sigSignature (Sign L c es)\<rparr>"
    and "length b = size_raw \<lparr>rawEssence = es, rawPublicKey = PublicKey c,
           rawSignature = sigSignature (Sign L c es)\<rparr>"
proof -
  obtain es where es: "essence_marshal L (Some (essence_of_tx t)) = Some es"
    "essence_unmarshal L es = Some (Some (essence_of_tx t))"
    "length es = size_essence (Some (essence_of_tx t))"
    using assms by (auto simp: proto_ok_def)
  let ?r = "\<lparr>rawEssence = es, rawPublicKey = PublicKey c, rawSignature = sigSignature (Sign L c es)\<rparr>"
  obtain b where "raw_marshal L ?r = Some b" "raw_unmarshal L b = Some ?r" "length b = size_raw ?r"
    using assms by (auto simp: proto_ok_def)
  with es that show thesis by (simp add: MarshalTx_def)
qed

lemma UnmarshalTx_of_MarshalTx:
  assumes "proto_ok L" and "ed25519_ok L" and "keypair L (privateKey c)"
    and "MarshalTx L c t = Inr b"
  shows "UnmarshalTx L c' i b = Ret (Inr (PublicKey c, t)) \<longleftrightarrow> pubkey (privateKey c) \<in> Members c' i"
proof -
  obtain es where es: "essence_unmarshal L es = Some (Some (essence_of_tx t))"
    "raw_unmarshal L b = Some \<lparr>rawEssence = es, rawPublicKey = PublicKey c,
       rawSignature = sigSignature (Sign L c es)\<rparr>"
    using MarshalTx_Inr [OF assms(1), of c t] assms(4) by (metis sum.inject(2))
  note s = ed25519_ok_sign [OF assms(2,3), of es]
  show ?thesis
    using es s unfolding UnmarshalTx_Inr_iff
    by (auto simp: Sign_def PublicKey_def copy64_id bytes_of_inject)
qed

lemma size_small: "n < 128 \<Longrightarrow> size_len n = n + 2"
  by (simp add: size_len_def varint_len.simps)

lemma varint_len_bound: "n < 128 ^ Suc k \<Longrightarrow> varint_len n \<le> Suc k"
proof (induction k arbitrary: n)
  case 0
  then show ?case by (simp add: varint_len.simps)
next
  case (Suc k)
  have "n div 128 < 128 ^ Suc k"
    using Suc.prems by (simp add: less_mult_imp_div_less mult.commute)
  then show ?case using Suc.IH by (subst varint_len.simps) auto
qed

lemma size_uint32_bound: "size_uint32 i \<le> 6"
proof -
  have "unat i < 2 ^ 32" using unsigned_less [of i] by simp
  then have "varint_len (unat i) \<le> 5" using varint_len_bound [of "unat i" 4] by simp
  then show ?thesis by (simp add: size_uint32_def)
qed

lemma size_bytes_of [simp]: "size_bytes (bytes_of p) = 34"
proof -
  have "bytes_of p \<noteq> []" by (metis length_bytes_of length_0_conv zero_neq_numeral)
  then show ?thesis by (simp add: size_bytes_def size_small)
qed

lemma MarshalTx_length:
  assumes "proto_ok L" and "MarshalTx L c t = Inr b"
    and "case t of PartialSignature s \<Rightarrow> length s = 64 | _ \<Rightarrow> True"
  shows "length b \<le> MaxTxBytes \<and>
    (length b = MaxTxBytes \<longleftrightarrow> (case t of PartialSignature s \<Rightarrow> True | _ \<Rightarrow> False))"
proof -
  obtain es where es: "length es = size_essence (Some (essence_of_tx t))"
    "length b = size_raw \<lparr>rawEssence = es, rawPublicKey = PublicKey c,
       rawSignature = sigSignature (Sign L c es)\<rparr>"
    using MarshalTx_Inr [OF assms(1), of c t] assms(2) by (metis sum.inject(2))
  have sg: "size_bytes (sigSignature (Sign L c es)) = 66"
  proof -
    have l: "length (sigSignature (Sign L c es)) = 64" by (simp add: Sign_def)
    then have "sigSignature (Sign L c es) \<noteq> []" by auto
    with l show ?thesis by (simp add: size_bytes_def size_small)
  qed
  have raw: "length b = size_bytes es + 100"
    using es(2) sg by (simp add: size_raw_def PublicKey_def)
  have small: "length b = size_essence (Some (essence_of_tx t)) + 102"
    if "0 < size_essence (Some (essence_of_tx t))" "size_essence (Some (essence_of_tx t)) < 128"
    using that raw es(1) by (auto simp: size_bytes_def size_small)
  have idx: "size_len (size_uint32 i + 34) = size_uint32 i + 36" for i
    using size_uint32_bound [of i] by (simp add: size_small)
  show ?thesis
  proof (cases t)
    case (Parent i p)
    then show ?thesis using small size_uint32_bound [of i] by (simp add: size_essence_def idx MaxTxBytes_def)
  next
    case (Proof i p)
    then show ?thesis using small size_uint32_bound [of i] by (simp add: size_essence_def idx MaxTxBytes_def)
  next
    case (PartialSignature s)
    then have "size_bytes s = 66" using assms(3) by (auto simp: size_bytes_def size_small)
    then show ?thesis using small PartialSignature by (simp add: size_essence_def size_small MaxTxBytes_def)
  qed
qed

section \<open>The proto3 wire format\<close>

text \<open>A message is a sequence of fields: a varint or a byte string under its field number.\<close>

fun varint :: "nat \<Rightarrow> bytes" where
  "varint n = (if n < 128 then [word_of_nat n] else word_of_nat (128 + n mod 128) # varint (n div 128))"

declare varint.simps [simp del]

fun dec_varint :: "bytes \<Rightarrow> (nat \<times> bytes) option" where
  "dec_varint [] = None"
| "dec_varint (b # r) =
     (if unat b < 128 then Some (unat b, r)
      else map_option (\<lambda>(n, r'). (unat b - 128 + 128 * n, r')) (dec_varint r))"

datatype field = Varint nat nat | Bytes nat bytes

primrec enc_field :: "field \<Rightarrow> bytes" where
  "enc_field (Varint k n) = varint (8 * k) @ varint n"
| "enc_field (Bytes k b) = varint (8 * k + 2) @ varint (length b) @ b"

definition dec_field :: "bytes \<Rightarrow> (field \<times> bytes) option" where
  "dec_field bs =
     (case dec_varint bs of
        None \<Rightarrow> None
      | Some (tag, r) \<Rightarrow>
          (case dec_varint r of
             None \<Rightarrow> None
           | Some (n, r') \<Rightarrow>
               if tag mod 8 = 0 then Some (Varint (tag div 8) n, r')
               else if tag mod 8 = 2 \<and> n \<le> length r' then Some (Bytes (tag div 8) (take n r'), drop n r')
               else None))"

fun dec_fields :: "nat \<Rightarrow> bytes \<Rightarrow> field list option" where
  "dec_fields fuel [] = Some []"
| "dec_fields 0 (b # bs) = None"
| "dec_fields (Suc fuel) (b # bs) =
     (case dec_field (b # bs) of
        None \<Rightarrow> None
      | Some (f, r) \<Rightarrow> map_option ((#) f) (dec_fields fuel r))"

definition wire_fields :: "bytes \<Rightarrow> field list option" where
  "wire_fields bs = dec_fields (length bs) bs"

text \<open>Absent fields have the zero value; of several the last counts.\<close>

fun get_bytes :: "nat \<Rightarrow> field list \<Rightarrow> bytes" where
  "get_bytes k fs = fold (\<lambda>f b. case f of Bytes j c \<Rightarrow> if j = k then c else b | Varint _ _ \<Rightarrow> b) fs []"

fun get_uint32 :: "nat \<Rightarrow> field list \<Rightarrow> 32 word" where
  "get_uint32 k fs =
     fold (\<lambda>f b. case f of Varint j n \<Rightarrow> if j = k then word_of_nat n else b | Bytes _ _ \<Rightarrow> b) fs 0"

definition bytes_field :: "nat \<Rightarrow> bytes \<Rightarrow> field list" where
  "bytes_field k b = (if b = [] then [] else [Bytes k b])"

definition uint32_field :: "nat \<Rightarrow> 32 word \<Rightarrow> field list" where
  "uint32_field k i = (if i = 0 then [] else [Varint k (unat i)])"

definition enc_fields :: "field list \<Rightarrow> bytes" where
  "enc_fields fs = concat (map enc_field fs)"

definition wire_raw :: "tx_raw \<Rightarrow> bytes" where
  "wire_raw r = enc_fields
     (bytes_field 1 (rawEssence r) @ bytes_field 2 (rawPublicKey r) @ bytes_field 3 (rawSignature r))"

definition unwire_raw :: "bytes \<Rightarrow> tx_raw option" where
  "unwire_raw b = map_option (\<lambda>fs.
     \<lparr>rawEssence = get_bytes 1 fs, rawPublicKey = get_bytes 2 fs, rawSignature = get_bytes 3 fs\<rparr>)
     (wire_fields b)"

primrec wire_message :: "essence_message \<Rightarrow> field" where
  "wire_message (Essence_Parent i b) = Bytes 1 (enc_fields (uint32_field 1 i @ bytes_field 2 b))"
| "wire_message (Essence_Proof i b) = Bytes 2 (enc_fields (uint32_field 1 i @ bytes_field 2 b))"
| "wire_message (Essence_PartialSignature s) = Bytes 3 (enc_fields (bytes_field 1 s))"

definition wire_essence :: "essence \<Rightarrow> bytes" where
  "wire_essence e = enc_fields (case e of None \<Rightarrow> [] | Some m \<Rightarrow> [wire_message m])"

fun unwire_message :: "nat \<Rightarrow> field list \<Rightarrow> essence" where
  "unwire_message k fs =
     (if k = 1 then Some (Essence_Parent (get_uint32 1 fs) (get_bytes 2 fs))
      else if k = 2 then Some (Essence_Proof (get_uint32 1 fs) (get_bytes 2 fs))
      else if k = 3 then Some (Essence_PartialSignature (get_bytes 1 fs))
      else None)"

fun unwire_oneof :: "field list \<Rightarrow> essence \<Rightarrow> essence option" where
  "unwire_oneof [] e = Some e"
| "unwire_oneof (Varint _ _ # fs) e = unwire_oneof fs e"
| "unwire_oneof (Bytes k b # fs) e =
     (case wire_fields b of
        None \<Rightarrow> None
      | Some gs \<Rightarrow> unwire_oneof fs (case unwire_message k gs of None \<Rightarrow> e | Some m \<Rightarrow> Some m))"

definition unwire_essence :: "bytes \<Rightarrow> essence option" where
  "unwire_essence b = (case wire_fields b of None \<Rightarrow> None | Some fs \<Rightarrow> unwire_oneof fs None)"

lemma unat_byte: "n < 256 \<Longrightarrow> unat (word_of_nat n :: 8 word) = n"
  by (simp add: unat_of_nat)

lemma dec_varint [simp]: "dec_varint (varint n @ r) = Some (n, r)"
proof (induction n arbitrary: r rule: varint.induct)
  case (1 n)
  show ?case
  proof (cases "n < 128")
    case True
    then show ?thesis by (subst varint.simps) (simp add: unat_byte)
  next
    case False
    have "unat (word_of_nat (128 + n mod 128) :: 8 word) = 128 + n mod 128"
      by (rule unat_byte) simp
    with False 1 show ?thesis by (subst varint.simps) simp
  qed
qed

lemma length_varint [simp]: "length (varint n) = varint_len n"
  by (induction n rule: varint.induct) (subst varint.simps, subst varint_len.simps, simp)

lemma varint_not_Nil [simp]: "varint n \<noteq> []"
  by (subst varint.simps) simp

lemma dec_enc_field: "dec_field (enc_field f @ r) = Some (f, r)"
proof (cases f)
  case (Bytes k b)
  have "(8 * k + 2) mod 8 = 2" "(8 * k + 2) div 8 = k" by presburger+
  with Bytes show ?thesis by (simp add: dec_field_def)
qed (simp add: dec_field_def)

lemma enc_field_not_Nil [simp]: "enc_field f \<noteq> []"
  by (cases f) auto

lemma dec_enc_fields: "length fs \<le> n \<Longrightarrow> dec_fields n (enc_fields fs) = Some fs"
proof (induction fs arbitrary: n)
  case Nil
  then show ?case by (simp add: enc_fields_def)
next
  case (Cons f fs)
  obtain m where m: "n = Suc m" "length fs \<le> m" using Cons.prems by (cases n) auto
  obtain b bs where e: "enc_fields (f # fs) = b # bs"
    using enc_field_not_Nil [of f] by (cases "enc_field f") (auto simp: enc_fields_def)
  have "dec_field (b # bs) = Some (f, enc_fields fs)"
    using dec_enc_field [of f "enc_fields fs"] unfolding e [symmetric] by (simp add: enc_fields_def)
  with e m Cons.IH [OF m(2)] show ?case by simp
qed

lemma length_enc_fields: "length fs \<le> length (enc_fields fs)"
proof (induction fs)
  case (Cons f fs)
  have "1 \<le> length (enc_field f)" using enc_field_not_Nil [of f] by (cases "enc_field f") simp_all
  with Cons show ?case by (simp add: enc_fields_def)
qed (simp add: enc_fields_def)

lemma wire_enc_fields [simp]: "wire_fields (enc_fields fs) = Some fs"
  using dec_enc_fields [OF length_enc_fields] by (simp add: wire_fields_def)

lemmas field_defs = bytes_field_def uint32_field_def

lemma unwire_wire_raw: "unwire_raw (wire_raw r) = Some r"
  by (simp add: unwire_raw_def wire_raw_def field_defs)

lemma unwire_wire_essence: "unwire_essence (wire_essence e) = Some e"
proof (cases e)
  case None
  then show ?thesis by (simp add: unwire_essence_def wire_essence_def)
next
  case (Some m)
  then show ?thesis by (cases m) (simp_all add: unwire_essence_def wire_essence_def field_defs)
qed

lemma length_enc_bytes [simp]:
  "k < 16 \<Longrightarrow> length (enc_fields (bytes_field k b)) = size_bytes b"
  by (simp add: enc_fields_def bytes_field_def size_bytes_def size_len_def varint_len.simps [of "8 * k + 2"]
      varint_len.simps [of "Suc (Suc (8 * k))"])

lemma length_enc_uint32 [simp]:
  "k < 16 \<Longrightarrow> length (enc_fields (uint32_field k i)) = size_uint32 i"
  by (simp add: enc_fields_def uint32_field_def size_uint32_def varint_len.simps [of "8 * k"])

lemma enc_fields_append: "enc_fields (fs @ gs) = enc_fields fs @ enc_fields gs"
  by (simp add: enc_fields_def)

lemma length_enc_one: "k < 15 \<Longrightarrow> length (enc_fields [Bytes k b]) = size_len (length b)"
  by (simp add: enc_fields_def size_len_def varint_len.simps [of "8 * k + 2"]
      varint_len.simps [of "Suc (Suc (8 * k))"])

lemma length_wire_raw: "length (wire_raw r) = size_raw r"
  by (simp add: wire_raw_def size_raw_def enc_fields_append)

lemma length_wire_essence: "length (wire_essence e) = size_essence e"
proof (cases e)
  case None
  then show ?thesis by (simp add: wire_essence_def size_essence_def enc_fields_def)
next
  case (Some m)
  then show ?thesis
    by (cases m) (simp_all add: wire_essence_def size_essence_def length_enc_one enc_fields_append)
qed

definition toy_tx :: "'m \<Rightarrow> 'm tx_lib_scheme" where
  "toy_tx m = toy_app
     \<lparr>raw_marshal = Some \<circ> wire_raw, raw_unmarshal = unwire_raw,
      essence_marshal = Some \<circ> wire_essence, essence_unmarshal = unwire_essence, \<dots> = m\<rparr>"

lemma toy_proto: "proto_ok (toy_tx m)"
  by (simp add: proto_ok_def toy_tx_def toy_app_def toy_lib_def unwire_wire_raw unwire_wire_essence
      length_wire_raw length_wire_essence)

lemma toy_tx_fields:
  "pub_of_seed (toy_tx m) = id" "sign_raw (toy_tx m) = (\<lambda>k msg. toy_sig (pubkey k) msg)"
  "verify_raw (toy_tx m) = (\<lambda>pk msg sig. sig = toy_sig pk msg)"
  "BlockMaxParents (toy_tx m) = 8" "MaxSignaturesInAMilestone (toy_tx m) = 255"
  "num64 (toy_tx m) = le64" "RemoveDupsAndSort (toy_tx m) = (\<lambda>ps. sort (remdups ps))"
  "sig_less (toy_tx m) = (\<lambda>x y. sigPublicKey x < sigPublicKey y)"
  "essence_of (toy_tx m) = (\<lambda>ms. Some (toy_essence ms))"
  "milestone_id_of (toy_tx m) = (\<lambda>ms. Some (b32 (ucast (msIndex ms))))"
  "build (toy_tx m) = Some"
  "block_id_of (toy_tx m) = (\<lambda>b. Some (b32 (100 + ucast (msIndex (blkPayload b)))))"
  "verify_signatures (toy_tx m) = toy_verify" "serializes (toy_tx m) = (\<lambda>b. True)"
  "json_marshal (toy_tx m) = (\<lambda>d. Some (fst c_app_data d))"
  "blake2b (toy_tx m) = (\<lambda>b. copy32 zero32 b)"
  "raw_marshal (toy_tx m) = Some \<circ> wire_raw" "raw_unmarshal (toy_tx m) = unwire_raw"
  "essence_marshal (toy_tx m) = Some \<circ> wire_essence" "essence_unmarshal (toy_tx m) = unwire_essence"
  by (simp_all add: toy_tx_def toy_app_def toy_lib_def)

lemma toy_tx_ok:
  "json_ok (toy_tx m)" "ed25519_ok (toy_tx m)" "num64_ok (toy_tx m)" "dedup_ok (toy_tx m)"
  "sig_order_ok (toy_tx m)" "essence_ok (toy_tx m)" "sigs_ok (toy_tx m)"
  unfolding toy_tx_def by (simp_all only: toy_json) (simp_all only: toy_app_def toy_laws)

section \<open>Properties\<close>

text \<open>
  C21. \<open>MarshalTx\<close> of a committee with a proper key never fails, and \<open>UnmarshalTx\<close> at any other
  committee member gives back the public key and the same transaction if the sender is a member
  for the milestone index, and \<open>ErrNonApplicablePublicKey\<close> if it is not.
\<close>
theorem UnmarshalTx_inverts_MarshalTx:
  assumes "proto_ok L" and "ed25519_ok L" and "keypair L (privateKey c)"
  shows "\<exists>b. MarshalTx L c t = Inr b \<and>
    UnmarshalTx L c' i b =
      Ret (if pubkey (privateKey c) \<in> Members c' i then Inr (PublicKey c, t)
           else Inl (ErrCommittee ErrNonApplicablePublicKey))"
proof -
  obtain es b where b: "MarshalTx L c t = Inr b"
    "raw_unmarshal L b = Some \<lparr>rawEssence = es, rawPublicKey = PublicKey c,
       rawSignature = sigSignature (Sign L c es)\<rparr>"
    using MarshalTx_Inr [OF assms(1), of c t] by metis
  show ?thesis
  proof (cases "pubkey (privateKey c) \<in> Members c' i")
    case True
    then show ?thesis using b UnmarshalTx_of_MarshalTx [OF assms, of t b c' i] by simp
  next
    case False
    then show ?thesis using b by (simp add: UnmarshalTx_def VerifySingle_def PublicKey_def Members_def)
  qed
qed

theorem UnmarshalTx_inverts_MarshalTx_witness:
  "\<exists>b. MarshalTx (toy_tx ()) com4 (Proof 7 (b32 50)) = Inr b \<and>
    UnmarshalTx (toy_tx ()) com4 7 b =
      Ret (if pubkey (privateKey com4) \<in> Members com4 7 then Inr (PublicKey com4, Proof 7 (b32 50))
           else Inl (ErrCommittee ErrNonApplicablePublicKey))"
  by (rule UnmarshalTx_inverts_MarshalTx [OF toy_proto toy_tx_ok(2)])
    (simp add: keypair_def com4_def key4_def toy_tx_def toy_app_def toy_lib_def)

text \<open>
  Every transaction the coordinator makes fits into \<open>MaxTxBytes\<close>, so none of them is refused
  for its size; a partial signature of 64 bytes needs all of it.
\<close>
theorem MarshalTx_fits_MaxTxBytes:
  assumes "proto_ok L" and "MarshalTx L c t = Inr b"
    and "case t of PartialSignature s \<Rightarrow> length s = 64 | _ \<Rightarrow> True"
  shows "length b \<le> MaxTxBytes \<and>
    (length b = MaxTxBytes \<longleftrightarrow> (case t of PartialSignature s \<Rightarrow> True | _ \<Rightarrow> False))"
  using assms by (rule MarshalTx_length)

theorem MarshalTx_fits_MaxTxBytes_witness:
  "length (wire_raw \<lparr>rawEssence = wire_essence (Some (Essence_Proof 7 (bytes_of (b32 50)))),
       rawPublicKey = bytes_of (b32 1),
       rawSignature = toy_sig (b32 1) (wire_essence (Some (Essence_Proof 7 (bytes_of (b32 50)))))\<rparr>)
     \<le> MaxTxBytes"
  by (rule MarshalTx_fits_MaxTxBytes [OF toy_proto, of "()" com4 "Proof 7 (b32 50)", THEN conjunct1])
    (simp_all add: MarshalTx_def toy_tx_def toy_app_def toy_lib_def PublicKey_def com4_def key4_def
      Sign_def copy64_id toy_sig_def)

text \<open>
  C22. What \<open>UnmarshalTx\<close> accepts is authentic: it returns an issuer and a transaction exactly for
  a message with the 32-byte key of a committee member, a signature of that member over the
  essence bytes it carries, and an essence that is the encoding of that transaction.
\<close>
theorem UnmarshalTx_accepts_iff:
  "UnmarshalTx L c i b = Ret (Inr (pk, t)) \<longleftrightarrow>
     (\<exists>raw p. raw_unmarshal L b = Some raw \<and> rawPublicKey raw = pk \<and> pk = bytes_of p \<and>
        p \<in> Members c i \<and> length (rawSignature raw) = 64 \<and>
        verify_raw L p (rawEssence raw) (rawSignature raw) \<and>
        essence_unmarshal L (rawEssence raw) = Some (Some (essence_of_tx t)))"
  by (rule UnmarshalTx_Inr_iff)

text \<open>
  \<open>UnmarshalTx\<close> panics exactly on a well-formed message whose public key does not have 32
  bytes: the key is turned into an ID before its length is checked. The message needs no valid
  signature, and the empty byte string is one.
\<close>
theorem UnmarshalTx_panics_iff:
  "(\<exists>e. UnmarshalTx L c i b = Panic e) \<longleftrightarrow>
     (\<exists>raw. raw_unmarshal L b = Some raw \<and> length (rawPublicKey raw) \<noteq> 32)"
  by (rule UnmarshalTx_panics)

end
