(* ===== verification/KeyedQueue.thy ===== *)
theory KeyedQueue
  imports Prelude
begin

text \<open>
  The retry queue of \<open>pkg/decoo/queue/queue.go\<close>. The fields of \<open>KeyedQueue\<close> are those of the
  struct; list elements carry an identity because \<open>byKey\<close> holds pointers to them. The loop
  goroutine is the field \<open>phase\<close>: waiting in its \<open>select\<close>, about to pop, executing a callback,
  or gone. Every critical section of the mutex is one definition; \<open>queue_step\<close> interleaves them
  with the timer and with callers.
\<close>

section \<open>State\<close>

text \<open>
  A \<open>time.Timer\<close> (Go 1.21): \<open>armed\<close> is the duration it runs for, \<open>tick\<close> tells whether its
  channel holds an unread value. \<open>Reset\<close> and \<open>Stop\<close> leave the channel alone.
\<close>

record timer =
  armed :: "nat option"
  tick :: bool

definition timer_Reset :: "nat \<Rightarrow> timer \<Rightarrow> timer" where
  "timer_Reset d t = t\<lparr>armed := Some d\<rparr>"

definition timer_Stop :: "timer \<Rightarrow> timer" where
  "timer_Stop t = t\<lparr>armed := None\<rparr>"

definition timer_fire :: "timer \<Rightarrow> timer" where
  "timer_fire t = t\<lparr>armed := None, tick := True\<rparr>"

datatype ('k, 'v) loop_phase = Selecting | Popping | Executing 'k 'v | Terminated

text \<open>\<open>running\<close> is the \<open>call\<close>: its key, and whether its context has been cancelled.\<close>

record ('k, 'v) keyed_queue =
  running :: "('k \<times> bool) option"
  elems :: "(nat \<times> 'k \<times> 'v) list"
  byKey :: "('k, nat) fmap"
  qlen :: int
  timer :: timer
  retry :: nat
  closed :: bool
  phase :: "('k, 'v) loop_phase"
  nextElem :: nat

section \<open>Operations\<close>

definition Queue_New :: "nat \<Rightarrow> ('k, 'v) keyed_queue" where
  "Queue_New d =
     \<lparr>running = None, elems = [], byKey = fmempty, qlen = 0,
      timer = \<lparr>armed = None, tick = False\<rparr>, retry = d, closed = False,
      phase = Selecting, nextElem = 0\<rparr>"

definition Queue_Len :: "('k, 'v) keyed_queue \<Rightarrow> int" where
  "Queue_Len q = qlen q"

text \<open>\<open>list.PushBack\<close> of a new pair, with the entry of \<open>byKey\<close> that points to it.\<close>

definition push_back :: "'k \<Rightarrow> 'v \<Rightarrow> ('k, 'v) keyed_queue \<Rightarrow> ('k, 'v) keyed_queue" where
  "push_back k v q =
     q\<lparr>elems := elems q @ [(nextElem q, k, v)], byKey := fmupd k (nextElem q) (byKey q),
       qlen := qlen q + 1, nextElem := Suc (nextElem q)\<rparr>"

text \<open>\<open>list.Remove\<close> of the element a pointer refers to.\<close>

definition remove_elem :: "nat \<Rightarrow> (nat \<times> 'k \<times> 'v) list \<Rightarrow> (nat \<times> 'k \<times> 'v) list" where
  "remove_elem p es = filter (\<lambda>e. fst e \<noteq> p) es"

definition cancel_running :: "('k, 'v) keyed_queue \<Rightarrow> ('k, 'v) keyed_queue" where
  "cancel_running q =
     (case running q of None \<Rightarrow> q | Some (k, _) \<Rightarrow> q\<lparr>running := Some (k, True)\<rparr>)"

definition Queue_Submit :: "'k \<Rightarrow> 'v \<Rightarrow> ('k, 'v) keyed_queue \<Rightarrow> ('k, 'v) keyed_queue" where
  "Queue_Submit k v q =
     (let q1 = (if qlen q = 0 then q\<lparr>timer := timer_Reset 0 (timer q)\<rparr> else q);
          q2 = (if map_option fst (running q1) = Some k then cancel_running q1 else q1);
          q3 = (case fmlookup (byKey q2) k of
                  Some p \<Rightarrow> q2\<lparr>elems := remove_elem p (elems q2), qlen := qlen q2 - 1\<rparr>
                | None \<Rightarrow> q2)
      in push_back k v q3)"

text \<open>
  The loop. \<open>on_tick\<close>: the value received from the timer, then the shutdown test of \<open>process\<close>.
  \<open>popFront\<close> dereferences the front element: an empty list is a panic.
\<close>

definition on_tick :: "('k, 'v) keyed_queue \<Rightarrow> ('k, 'v) keyed_queue" where
  "on_tick q =
     (let q1 = q\<lparr>timer := (timer q)\<lparr>tick := False\<rparr>\<rparr>
      in if closed q1 then q1 else q1\<lparr>phase := Popping\<rparr>)"

definition popFront :: "('k, 'v) keyed_queue \<Rightarrow> ('k, 'v) keyed_queue go" where
  "popFront q =
     (case elems q of
        [] \<Rightarrow> Panic ''nil pointer dereference''
      | (p, k, v) # es \<Rightarrow>
          Ret (q\<lparr>elems := es, byKey := fmdrop k (byKey q), running := Some (k, False),
                 phase := Executing k v\<rparr>))"

text \<open>\<open>ctx.Err() != nil\<close> for the context of the running call.\<close>

definition ctx_cancelled :: "('k, 'v) keyed_queue \<Rightarrow> bool" where
  "ctx_cancelled q = (case running q of None \<Rightarrow> False | Some (_, c) \<Rightarrow> c)"

text \<open>The rest of \<open>process\<close>, after the callback for \<open>k\<close> and \<open>v\<close> returned; \<open>err\<close>: it failed.\<close>

definition process_end :: "bool \<Rightarrow> 'k \<Rightarrow> 'v \<Rightarrow> ('k, 'v) keyed_queue \<Rightarrow> ('k, 'v) keyed_queue" where
  "process_end err k v q =
     (let q1 = q\<lparr>qlen := qlen q - 1, running := None, phase := Selecting\<rparr> in
      if err \<and> \<not> ctx_cancelled q
      then (let q2 = (if fmlookup (byKey q1) k = None then push_back k v q1 else q1)
            in q2\<lparr>timer := timer_Reset (retry q2) (timer q2)\<rparr>)
      else if 0 < qlen q1 then q1\<lparr>timer := timer_Reset 0 (timer q1)\<rparr>
      else q1)"

text \<open>
  \<open>Stop\<close> closes the channel (a second \<open>close\<close> panics), cancels the running call, waits for the
  loop to be gone and then stops the timer.
\<close>

definition stop_begin :: "('k, 'v) keyed_queue \<Rightarrow> ('k, 'v) keyed_queue go" where
  "stop_begin q =
     (if closed q then Panic ''close of closed channel''
      else Ret (cancel_running (q\<lparr>closed := True\<rparr>)))"

definition stop_end :: "('k, 'v) keyed_queue \<Rightarrow> ('k, 'v) keyed_queue" where
  "stop_end q = q\<lparr>timer := timer_Stop (timer q)\<rparr>"

section \<open>Interleaving\<close>

datatype ('k, 'v) queue_event =
  Submitted 'k 'v | Fired | Ticked | Popped | Finished bool | StopCalled | LoopExit | StopReturned

inductive queue_step ::
    "('k, 'v) keyed_queue \<Rightarrow> ('k, 'v) queue_event \<Rightarrow> ('k, 'v) keyed_queue \<Rightarrow> bool" where
  submit: "queue_step q (Submitted k v) (Queue_Submit k v q)"
| fire: "armed (timer q) = Some d \<Longrightarrow> queue_step q Fired (q\<lparr>timer := timer_fire (timer q)\<rparr>)"
| receive: "phase q = Selecting \<Longrightarrow> tick (timer q) \<Longrightarrow> queue_step q Ticked (on_tick q)"
| pop: "phase q = Popping \<Longrightarrow> popFront q = Ret q' \<Longrightarrow> queue_step q Popped q'"
| finish: "phase q = Executing k v \<Longrightarrow> queue_step q (Finished err) (process_end err k v q)"
| stop: "stop_begin q = Ret q' \<Longrightarrow> queue_step q StopCalled q'"
| exit: "phase q = Selecting \<Longrightarrow> closed q \<Longrightarrow> queue_step q LoopExit (q\<lparr>phase := Terminated\<rparr>)"
| stopped: "phase q = Terminated \<Longrightarrow> queue_step q StopReturned (stop_end q)"

text \<open>The states of a queue whose callers submit keys of \<open>K\<close>.\<close>

primrec submits_in :: "'k set \<Rightarrow> ('k, 'v) queue_event \<Rightarrow> bool" where
  "submits_in K (Submitted k v) \<longleftrightarrow> k \<in> K"
| "submits_in K Fired \<longleftrightarrow> True"
| "submits_in K Ticked \<longleftrightarrow> True"
| "submits_in K Popped \<longleftrightarrow> True"
| "submits_in K (Finished err) \<longleftrightarrow> True"
| "submits_in K StopCalled \<longleftrightarrow> True"
| "submits_in K LoopExit \<longleftrightarrow> True"
| "submits_in K StopReturned \<longleftrightarrow> True"

inductive queue_reachable :: "'k set \<Rightarrow> ('k, 'v) keyed_queue \<Rightarrow> bool" for K where
  init: "queue_reachable K (Queue_New d)"
| step: "queue_reachable K q \<Longrightarrow> queue_step q e q' \<Longrightarrow> submits_in K e \<Longrightarrow> queue_reachable K q'"

text \<open>
  What the loop and the timer do on their own while the callback succeeds, with the values
  executed, in order.
\<close>

inductive executes ::
    "('k, 'v) keyed_queue \<Rightarrow> ('k \<times> 'v) list \<Rightarrow> ('k, 'v) keyed_queue \<Rightarrow> bool" where
  rest: "executes q [] q"
| internal: "queue_step q e q' \<Longrightarrow> e = Fired \<or> e = Ticked \<or> e = Popped \<Longrightarrow>
     executes q' xs q'' \<Longrightarrow> executes q xs q''"
| success: "phase q = Executing k v \<Longrightarrow> queue_step q (Finished False) q' \<Longrightarrow>
     executes q' xs q'' \<Longrightarrow> executes q ((k, v) # xs) q''"

section \<open>Invariant\<close>

text \<open>The queue as its callers see it: the values waiting, oldest first.\<close>

definition waiting :: "('k, 'v) keyed_queue \<Rightarrow> ('k \<times> 'v) list" where
  "waiting q = map snd (elems q)"

definition by_key_of :: "(nat \<times> 'k \<times> 'v) list \<Rightarrow> 'k \<Rightarrow> nat option" where
  "by_key_of es = map_of (map (\<lambda>e. (fst (snd e), fst e)) es)"

definition list_inv :: "('k, 'v) keyed_queue \<Rightarrow> bool" where
  "list_inv q \<longleftrightarrow>
     distinct (map fst (elems q)) \<and> distinct (map (fst \<circ> snd) (elems q)) \<and>
     list_all (\<lambda>e. fst e < nextElem q) (elems q) \<and> fmlookup (byKey q) = by_key_of (elems q)"

definition len_inv :: "('k, 'v) keyed_queue \<Rightarrow> bool" where
  "len_inv q \<longleftrightarrow> qlen q = int (length (elems q)) + (if running q = None then 0 else 1)"

definition run_inv :: "('k, 'v) keyed_queue \<Rightarrow> bool" where
  "run_inv q \<longleftrightarrow>
     (case phase q of
        Executing k v \<Rightarrow>
          (\<exists>c. running q = Some (k, c)) \<and> (ctx_cancelled q \<or> k \<notin> set (map fst (waiting q)))
      | Popping \<Rightarrow> running q = None \<and> elems q \<noteq> []
      | _ \<Rightarrow> running q = None)"

text \<open>The timer has a single pending tick, only for a waiting loop and a non-empty queue, and then always.\<close>

definition pending :: "timer \<Rightarrow> bool" where
  "pending t \<longleftrightarrow> armed t \<noteq> None \<or> tick t"

definition timer_inv :: "('k, 'v) keyed_queue \<Rightarrow> bool" where
  "timer_inv q \<longleftrightarrow>
     \<not> (armed (timer q) \<noteq> None \<and> tick (timer q)) \<and>
     (pending (timer q) \<longrightarrow> (phase q = Selecting \<or> phase q = Terminated) \<and> elems q \<noteq> []) \<and>
     (\<not> closed q \<longrightarrow> phase q = Selecting \<longrightarrow> elems q \<noteq> [] \<longrightarrow> pending (timer q)) \<and>
     (phase q = Terminated \<longrightarrow> closed q)"

definition queue_inv :: "('k, 'v) keyed_queue \<Rightarrow> bool" where
  "queue_inv q \<longleftrightarrow> list_inv q \<and> len_inv q \<and> run_inv q \<and> timer_inv q"

lemmas queue_inv_defs =
  queue_inv_def list_inv_def len_inv_def run_inv_def timer_inv_def pending_def waiting_def

lemmas timer_defs = timer_Reset_def timer_Stop_def timer_fire_def

section \<open>The invariant holds\<close>

lemma by_key_of_None_iff: "by_key_of es k = None \<longleftrightarrow> k \<notin> set (map (fst \<circ> snd) es)"
  by (auto simp: by_key_of_def map_of_eq_None_iff image_iff)

lemma by_key_of_SomeD: "by_key_of es k = Some p \<Longrightarrow> \<exists>v. (p, k, v) \<in> set es"
  by (induction es) (auto simp: by_key_of_def split: if_splits)

lemma by_key_of_snoc:
  "k \<notin> set (map (fst \<circ> snd) es) \<Longrightarrow> by_key_of (es @ [(p, k, v)]) = (by_key_of es)(k \<mapsto> p)"
  by (induction es) (auto simp: by_key_of_def)

lemma by_key_of_filter:
  "by_key_of (filter (\<lambda>e. fst (snd e) \<noteq> k) es) = (by_key_of es)(k := None)"
  by (induction es) (auto simp: by_key_of_def)

lemma remove_elem_by_key:
  assumes "distinct (map fst es)" and "distinct (map (fst \<circ> snd) es)" and "by_key_of es k = Some p"
  shows "remove_elem p es = filter (\<lambda>e. fst (snd e) \<noteq> k) es"
proof -
  obtain v where v: "(p, k, v) \<in> set es" using by_key_of_SomeD [OF assms(3)] by blast
  have "fst e = p \<longleftrightarrow> fst (snd e) = k" if "e \<in> set es" for e
    using assms(1,2) v that by (metis comp_apply distinct_map fst_conv inj_onD snd_conv)
  then show ?thesis unfolding remove_elem_def by (intro filter_cong) blast+
qed

lemma length_filter_key:
  assumes "distinct (map (fst \<circ> snd) es)" "by_key_of es k = Some p"
  shows "int (length (filter (\<lambda>e. fst (snd e) \<noteq> k) es)) = int (length es) - 1"
proof -
  obtain v where "(p, k, v) \<in> set es" using by_key_of_SomeD [OF assms(2)] by blast
  with assms(1) show ?thesis
  proof (induction es)
    case (Cons e es)
    show ?case
    proof (cases "fst (snd e) = k")
      case True
      then have "filter (\<lambda>e. fst (snd e) \<noteq> k) es = es"
        using Cons.prems by (intro filter_True) (auto simp: image_iff)
      with True show ?thesis by simp
    next
      case False
      with Cons show ?thesis by auto
    qed
  qed simp
qed

lemma list_inv_push_back:
  assumes "list_inv q" and "k \<notin> set (map (fst \<circ> snd) (elems q))"
  shows "list_inv (push_back k v q)"
  using assms by_key_of_snoc [OF assms(2)]
  by (auto simp: list_inv_def push_back_def list_all_iff fun_eq_iff)

lemma waiting_push_back [simp]: "waiting (push_back k v q) = waiting q @ [(k, v)]"
  by (simp add: waiting_def push_back_def)

text \<open>Taking the old value of a key out of the list.\<close>

lemma list_inv_filter:
  assumes "list_inv q"
  shows "list_inv (q\<lparr>elems := filter (\<lambda>e. fst (snd e) \<noteq> k) (elems q), byKey := fmdrop k (byKey q)\<rparr>)"
  using assms by (auto simp: list_inv_def by_key_of_filter distinct_map_filter list_all_iff)

lemma fmupd_drop: "fmupd k x (fmdrop k m) = fmupd k x m"
  by (rule fmap_ext) simp

definition drop_key :: "'k \<Rightarrow> ('k, 'v) keyed_queue \<Rightarrow> ('k, 'v) keyed_queue" where
  "drop_key k q =
     q\<lparr>elems := filter (\<lambda>e. fst (snd e) \<noteq> k) (elems q), byKey := fmdrop k (byKey q),
       qlen := qlen q - (if fmlookup (byKey q) k = None then 0 else 1)\<rparr>"

text \<open>
  Under the invariant, \<open>Submit\<close> is: restart the timer of an empty queue, cancel a running
  call of the key, forget the old value of the key, push the new one.
\<close>

lemma Submit_eq:
  assumes "list_inv q"
  shows "Queue_Submit k v q =
    push_back k v (drop_key k
      ((if map_option fst (running q) = Some k then cancel_running q else q)
         \<lparr>timer := if qlen q = 0 then timer_Reset 0 (timer q) else timer q\<rparr>))"
proof -
  have d: "distinct (map fst (elems q))" "distinct (map (fst \<circ> snd) (elems q))"
    and b: "fmlookup (byKey q) k = by_key_of (elems q) k"
    using assms by (auto simp: list_inv_def)
  show ?thesis
  proof (cases "fmlookup (byKey q) k")
    case None
    then have "filter (\<lambda>e. fst (snd e) \<noteq> k) (elems q) = elems q"
      using b by (auto simp: filter_id_conv by_key_of_None_iff)
    with None show ?thesis
      by (auto simp: Queue_Submit_def drop_key_def push_back_def cancel_running_def fmupd_drop Let_def
          split: option.splits)
  next
    case (Some p)
    then have "remove_elem p (elems q) = filter (\<lambda>e. fst (snd e) \<noteq> k) (elems q)"
      using remove_elem_by_key [OF d] b by simp
    with Some show ?thesis
      by (auto simp: Queue_Submit_def drop_key_def push_back_def cancel_running_def fmupd_drop Let_def
          split: option.splits)
  qed
qed

lemma keys_waiting: "set (map (fst \<circ> snd) (elems q)) = fst ` set (waiting q)"
  by (simp add: waiting_def image_comp)

lemma waiting_update [simp]:
  "waiting (q\<lparr>timer := t\<rparr>) = waiting q" "waiting (q\<lparr>closed := c\<rparr>) = waiting q"
  "waiting (q\<lparr>phase := ph\<rparr>) = waiting q"
  by (simp_all add: waiting_def)

lemma list_inv_drop_key: "list_inv q \<Longrightarrow> list_inv (drop_key k q)"
  using list_inv_filter [of q k] by (simp add: list_inv_def drop_key_def)

lemma drop_key_fields [simp]:
  "running (drop_key k q) = running q" "timer (drop_key k q) = timer q" "phase (drop_key k q) = phase q"
  "closed (drop_key k q) = closed q" "retry (drop_key k q) = retry q" "ctx_cancelled (drop_key k q) = ctx_cancelled q"
  by (simp_all add: drop_key_def ctx_cancelled_def)

lemma push_back_fields [simp]:
  "running (push_back k v q) = running q" "timer (push_back k v q) = timer q" "phase (push_back k v q) = phase q"
  "closed (push_back k v q) = closed q" "retry (push_back k v q) = retry q" "qlen (push_back k v q) = qlen q + 1"
  "elems (push_back k v q) \<noteq> []"
  "ctx_cancelled (push_back k v q) = ctx_cancelled q"
  by (simp_all add: push_back_def ctx_cancelled_def)

lemma cancel_running_fields [simp]:
  "elems (cancel_running q) = elems q" "byKey (cancel_running q) = byKey q" "timer (cancel_running q) = timer q"
  "phase (cancel_running q) = phase q" "closed (cancel_running q) = closed q" "retry (cancel_running q) = retry q"
  "qlen (cancel_running q) = qlen q" "nextElem (cancel_running q) = nextElem q"
  "running (cancel_running q) = map_option (\<lambda>(k, _). (k, True)) (running q)"
  "waiting (cancel_running q) = waiting q"
  by (auto simp: cancel_running_def waiting_def split: option.splits)

lemma waiting_drop_key [simp]: "waiting (drop_key k q) = filter (\<lambda>x. fst x \<noteq> k) (waiting q)"
  by (simp add: waiting_def drop_key_def filter_map comp_def)

lemma qlen_drop_key:
  assumes "list_inv q"
  shows "qlen (drop_key k q) - int (length (elems (drop_key k q))) = qlen q - int (length (elems q))"
proof (cases "fmlookup (byKey q) k")
  case None
  then have "filter (\<lambda>e. fst (snd e) \<noteq> k) (elems q) = elems q"
    using assms by (auto simp: filter_id_conv by_key_of_None_iff list_inv_def)
  with None show ?thesis by (simp add: drop_key_def)
next
  case (Some p)
  then show ?thesis
    using length_filter_key [of "elems q" k p] assms by (simp add: drop_key_def list_inv_def)
qed

lemma queue_inv_New: "queue_inv (Queue_New d)"
  by (simp add: queue_inv_defs Queue_New_def by_key_of_def fun_eq_iff)

lemma queue_inv_Submit:
  assumes inv: "queue_inv q"
  shows "queue_inv (Queue_Submit k v q)"
proof -
  let ?c = "if map_option fst (running q) = Some k then cancel_running q else q"
  let ?q = "?c\<lparr>timer := if qlen q = 0 then timer_Reset 0 (timer q) else timer q\<rparr>"
  let ?d = "drop_key k ?q"
  have l: "list_inv q" using inv by (simp add: queue_inv_def)
  then have l': "list_inv ?q" by (simp add: list_inv_def)
  have eq: "Queue_Submit k v q = push_back k v ?d" by (rule Submit_eq [OF l])
  have "k \<notin> set (map (fst \<circ> snd) (elems ?d))" by (auto simp: drop_key_def)
  then have "list_inv (push_back k v ?d)"
    by (intro list_inv_push_back list_inv_drop_key l')
  moreover have "len_inv (push_back k v ?d)"
    using inv qlen_drop_key [OF l', of k] 
    by (auto simp: queue_inv_def len_inv_def push_back_def)
  moreover have "run_inv (push_back k v ?d)"
    using inv by (auto simp: queue_inv_def run_inv_def ctx_cancelled_def split: loop_phase.splits)
  moreover have "timer_inv (push_back k v ?d)"
    using inv by (auto simp: queue_inv_def timer_inv_def len_inv_def run_inv_def timer_defs pending_def split: loop_phase.splits if_splits)
  ultimately show ?thesis by (simp add: queue_inv_def eq)
qed

lemma popFront_cases:
  assumes "popFront q = Ret q'"
  obtains p k v es where "elems q = (p, k, v) # es"
    "q' = q\<lparr>elems := es, byKey := fmdrop k (byKey q), running := Some (k, False), phase := Executing k v\<rparr>"
  using assms by (auto simp: popFront_def split: list.splits)

lemma queue_inv_pop:
  assumes inv: "queue_inv q" and "phase q = Popping" and "popFront q = Ret q'"
  shows "queue_inv q'"
  using assms(3)
proof (cases rule: popFront_cases)
  case (1 p k v es)
  have "k \<notin> set (map (fst \<circ> snd) es)" using inv 1(1) by (simp add: queue_inv_def list_inv_def)
  then have "by_key_of es k = None" by (simp only: by_key_of_None_iff not_False_eq_True)
  then have "by_key_of es = (by_key_of (elems q))(k := None)" using 1(1) by (auto simp: by_key_of_def fun_eq_iff)
  with inv 1 assms(2) show ?thesis
    by (auto simp: queue_inv_defs ctx_cancelled_def image_iff)
qed

lemma queue_inv_finish:
  assumes inv: "queue_inv q" and ph: "phase q = Executing k v"
  shows "queue_inv (process_end err k v q)"
proof -
  obtain c where r: "running q = Some (k, c)" and c: "ctx_cancelled q = c" and new: "c \<or> k \<notin> set (map fst (waiting q))"
    using inv ph by (auto simp: queue_inv_def run_inv_def ctx_cancelled_def)
  let ?q = "q\<lparr>qlen := qlen q - 1, running := None, phase := Selecting\<rparr>"
  show ?thesis
  proof (cases "err \<and> \<not> c")
    case True
    then have n: "k \<notin> set (map (fst \<circ> snd) (elems q))" using new by (auto simp: waiting_def)
    then have b: "fmlookup (byKey q) k = None" using inv by (simp only: queue_inv_def list_inv_def by_key_of_None_iff not_False_eq_True)
    have "list_inv (push_back k v ?q)"
      using inv n by (intro list_inv_push_back) (auto simp: queue_inv_def list_inv_def)
    then show ?thesis
      using inv ph True r c b by (simp add: process_end_def queue_inv_defs push_back_def timer_defs)
  next
    case False
    then show ?thesis
      using inv ph r c by (auto simp: process_end_def Let_def queue_inv_defs timer_defs)
  qed
qed

lemma queue_inv_step: "queue_step q e q' \<Longrightarrow> queue_inv q \<Longrightarrow> queue_inv q'"
proof (induction rule: queue_step.induct)
  case (submit q k v) then show ?case by (rule queue_inv_Submit)
next
  case (fire q d)
  then show ?case by (auto simp: queue_inv_defs timer_defs ctx_cancelled_def split: loop_phase.splits)
next
  case (receive q)
  then show ?case by (auto simp: queue_inv_defs on_tick_def Let_def)
next
  case (pop q q')
  then show ?case by (blast intro: queue_inv_pop)
next
  case (finish q k v err)
  then show ?case by (blast intro: queue_inv_finish)
next
  case (stop q q')
  then show ?case by (auto simp: queue_inv_defs stop_begin_def cancel_running_def ctx_cancelled_def split: if_splits option.splits loop_phase.splits)
next
  case (exit q)
  then show ?case by (auto simp: queue_inv_defs)
next
  case (stopped q)
  then show ?case by (auto simp: queue_inv_defs stop_end_def timer_defs)
qed

lemma queue_reachable_inv: "queue_reachable K q \<Longrightarrow> queue_inv q"
  by (induction rule: queue_reachable.induct) (auto intro: queue_inv_New queue_inv_step)

section \<open>The queue as a list of values, one per key\<close>

lemma waiting_Submit:
  assumes "queue_inv q"
  shows "waiting (Queue_Submit k v q) = filter (\<lambda>x. fst x \<noteq> k) (waiting q) @ [(k, v)]"
  using assms Submit_eq [of q k v] by (auto simp: queue_inv_def)

lemma waiting_pop: "popFront q = Ret q' \<Longrightarrow>
    \<exists>k v. waiting q = (k, v) # waiting q' \<and> phase q' = Executing k v \<and> closed q' = closed q
      \<and> running q' = Some (k, False)"
  by (erule popFront_cases) (auto simp: waiting_def)

lemma waiting_process_end:
  assumes "queue_inv q" and "phase q = Executing k v"
  shows "waiting (process_end err k v q) =
    waiting q @ (if err \<and> \<not> ctx_cancelled q then [(k, v)] else [])"
proof (cases "err \<and> \<not> ctx_cancelled q")
  case True
  then have "k \<notin> set (map (fst \<circ> snd) (elems q))"
    using assms by (auto simp: queue_inv_def run_inv_def waiting_def)
  then have "fmlookup (byKey q) k = None"
    using assms by (simp only: queue_inv_def list_inv_def by_key_of_None_iff not_False_eq_True)
  with True show ?thesis
    by (simp add: process_end_def waiting_def push_back_def)
next
  case False
  then show ?thesis by (auto simp: process_end_def Let_def waiting_def)
qed

lemma waiting_keys_distinct: "queue_inv q \<Longrightarrow> distinct (map fst (waiting q))"
  by (simp add: queue_inv_def list_inv_def waiting_def)

text \<open>
  What callers rely on: submitting replaces the waiting value of the key and puts the new one
  last, so there is at most one waiting value per key, whatever was submitted before.
\<close>

locale keyed_fifo =
  fixes ok :: "'q \<Rightarrow> bool"
    and contents :: "'q \<Rightarrow> ('k \<times> 'v) list"
    and put :: "'k \<Rightarrow> 'v \<Rightarrow> 'q \<Rightarrow> 'q"
  assumes ok_put: "ok q \<Longrightarrow> ok (put k v q)"
    and contents_put: "ok q \<Longrightarrow> contents (put k v q) = filter (\<lambda>x. fst x \<noteq> k) (contents q) @ [(k, v)]"
    and contents_distinct: "ok q \<Longrightarrow> distinct (map fst (contents q))"
begin

lemma latest_value:
  assumes "ok q"
  shows "map_of (contents (put k v q)) = (map_of (contents q))(k \<mapsto> v)"
proof -
  have f: "map_of (filter (\<lambda>x. fst x \<noteq> k) xs) = (map_of xs)(k := None)" for xs :: "('k \<times> 'v) list"
    by (induction xs) auto
  show ?thesis
    by (rule ext) (simp add: contents_put [OF assms] f map_add_def split: option.splits)
qed

lemma ok_puts: "ok q \<Longrightarrow> ok (fold (\<lambda>(k, v). put k v) kvs q)"
  by (induction kvs arbitrary: q) (auto intro: ok_put)

lemma latest_values:
  "ok q \<Longrightarrow> map_of (contents (fold (\<lambda>(k, v). put k v) kvs q)) = map_of (contents q) ++ map_of (rev kvs)"
proof (induction kvs arbitrary: q)
  case Nil
  then show ?case by simp
next
  case (Cons kv kvs)
  then show ?case
    by (cases kv) (auto simp: ok_put latest_value map_add_def fun_eq_iff split: option.splits)
qed

lemma contents_bound:
  assumes "ok q" and "finite K" and "fst ` set (contents q) \<subseteq> K"
  shows "length (contents q) \<le> card K"
proof -
  have "length (contents q) = card (set (map fst (contents q)))"
    using contents_distinct [OF assms(1)] distinct_card by fastforce
  then show ?thesis using assms(2,3) card_mono by fastforce
qed

end

interpretation kq: keyed_fifo queue_inv waiting Queue_Submit
  by unfold_locales (auto intro: queue_inv_Submit waiting_Submit waiting_keys_distinct)

section \<open>Progress\<close>

lemma closed_simps [simp]:
  "closed (process_end err k v q) = closed q" "phase (process_end err k v q) = Selecting"
  by (auto simp: process_end_def Let_def)

text \<open>From a tick on, the loop pops and starts the oldest value.\<close>

lemma tick_starts_oldest:
  assumes inv: "queue_inv q" and "phase q = Selecting" and "tick (timer q)" and "\<not> closed q"
    and w: "waiting q = (k, v) # xs"
  shows "\<exists>q'. queue_inv q' \<and> phase q' = Executing k v \<and> \<not> closed q' \<and> waiting q' = xs \<and>
    (\<forall>ys q''. executes q' ys q'' \<longrightarrow> executes q ys q'')"
proof -
  have s1: "queue_step q Ticked (on_tick q)" using assms by (intro queue_step.receive)
  have p1: "phase (on_tick q) = Popping" "waiting (on_tick q) = waiting q" "\<not> closed (on_tick q)"
    using assms(4) by (auto simp: on_tick_def waiting_def)
  obtain q' where q': "popFront (on_tick q) = Ret q'"
    using p1(2) w by (auto simp: popFront_def waiting_def split: list.splits)
  then have s2: "queue_step (on_tick q) Popped q'" using p1(1) by (intro queue_step.pop)
  have "queue_inv q'" using queue_inv_step [OF s2 queue_inv_step [OF s1 inv]] .
  moreover have "phase q' = Executing k v" "waiting q' = xs" "\<not> closed q'"
    using waiting_pop [OF q'] p1 w by auto
  ultimately show ?thesis
    using s1 s2 by (blast intro: executes.internal)
qed

lemma starts_oldest:
  assumes inv: "queue_inv q" and ph: "phase q = Selecting" and op: "\<not> closed q"
    and w: "waiting q = (k, v) # xs"
  shows "\<exists>q'. queue_inv q' \<and> phase q' = Executing k v \<and> \<not> closed q' \<and> waiting q' = xs \<and>
    (\<forall>ys q''. executes q' ys q'' \<longrightarrow> executes q ys q'')"
proof (cases "tick (timer q)")
  case True
  then show ?thesis using assms by (intro tick_starts_oldest)
next
  case False
  then obtain d where d: "armed (timer q) = Some d"
    using inv ph op w by (auto simp: queue_inv_def timer_inv_def pending_def waiting_def)
  let ?q = "q\<lparr>timer := timer_fire (timer q)\<rparr>"
  have s: "queue_step q Fired ?q" using d by (rule queue_step.fire)
  have "\<exists>q'. queue_inv q' \<and> phase q' = Executing k v \<and> \<not> closed q' \<and> waiting q' = xs \<and>
    (\<forall>ys q''. executes q' ys q'' \<longrightarrow> executes ?q ys q'')"
    using queue_inv_step [OF s inv] ph op w by (intro tick_starts_oldest) (auto simp: timer_fire_def)
  then show ?thesis using s by (blast intro: executes.internal)
qed

lemma drains:
  "queue_inv q \<Longrightarrow> phase q = Selecting \<Longrightarrow> \<not> closed q \<Longrightarrow>
     \<exists>q'. executes q (waiting q) q' \<and> Queue_Len q' = 0"
proof (induction "waiting q" arbitrary: q)
  case Nil
  then have "Queue_Len q = 0"
    by (simp add: queue_inv_def len_inv_def run_inv_def Queue_Len_def waiting_def)
  moreover have "executes q (waiting q) q" using Nil(1) by (metis executes.rest)
  ultimately show ?case by blast
next
  case (Cons kv xs)
  obtain k v where kv: "kv = (k, v)" by (cases kv)
  with Cons(2) have w: "waiting q = (k, v) # xs" by simp
  obtain q1 where q1: "queue_inv q1" "phase q1 = Executing k v" "\<not> closed q1" "waiting q1 = xs"
    and run: "\<And>ys q''. executes q1 ys q'' \<Longrightarrow> executes q ys q''"
    using starts_oldest [OF Cons(3-5) w] by blast
  let ?q2 = "process_end False k v q1"
  have s: "queue_step q1 (Finished False) ?q2" using q1(2) by (rule queue_step.finish)
  have w2: "waiting ?q2 = xs" using waiting_process_end [OF q1(1,2)] q1(4) by simp
  obtain q3 where q3: "executes ?q2 xs q3" "Queue_Len q3 = 0"
    using Cons(1) [of ?q2] w2 queue_inv_step [OF s q1(1)] q1(3) by auto
  have "executes q1 ((k, v) # xs) q3" using q1(2) s q3(1) by (rule executes.success)
  with run w q3(2) show ?case by metis
qed

lemma reachable_keys:
  "queue_reachable K q \<Longrightarrow>
     fst ` set (waiting q) \<subseteq> K \<and> (\<forall>k v. phase q = Executing k v \<longrightarrow> k \<in> K)"
proof (induction rule: queue_reachable.induct)
  case (init d)
  then show ?case by (simp add: Queue_New_def waiting_def)
next
  case (step q e q')
  have inv: "queue_inv q" using step.hyps(1) by (rule queue_reachable_inv)
  show ?case using step.hyps(2,3) step.IH
  proof (cases rule: queue_step.cases)
    case (submit k v)
    then show ?thesis
      using step.hyps(3) step.IH waiting_Submit [OF inv, of k v] Submit_eq [of q k v] inv
      by (auto simp: queue_inv_def)
  next
    case (pop)
    then show ?thesis using step.IH waiting_pop [of q q'] by fastforce
  next
    case (finish k v err)
    then show ?thesis using step.IH waiting_process_end [OF inv, of k v err] by auto
  next
    case (stop)
    then show ?thesis using step.IH by (force simp: stop_begin_def split: if_splits)
  qed (auto simp: on_tick_def stop_end_def Let_def)
qed

section \<open>Properties\<close>

definition demo_queue :: "(nat, nat) keyed_queue" where
  "demo_queue = Queue_Submit 2 20 (Queue_Submit 1 10 (Queue_New 100))"

lemma demo_reachable: "queue_reachable {1, 2} demo_queue"
proof -
  have "queue_reachable {1, 2} (Queue_Submit 1 10 (Queue_New 100 :: (nat, nat) keyed_queue))"
    by (rule queue_reachable.step [OF queue_reachable.init queue_step.submit]) simp
  then show ?thesis unfolding demo_queue_def
    by (rule queue_reachable.step [OF _ queue_step.submit]) simp
qed

text \<open>
  C31. The loop never pops an empty list: in every reachable state, when \<open>process\<close> is about to
  call \<open>popFront\<close> there is a front element, whatever callers submit or stop in between.
\<close>
theorem queue_pop_never_panics:
  assumes "queue_reachable K q" and "phase q = Popping"
  shows "popFront q \<noteq> Panic e"
  using queue_reachable_inv [OF assms(1)] assms(2)
  by (auto simp: queue_inv_def run_inv_def popFront_def split: list.splits)

lemma demo_popping:
  "queue_reachable {1, 2} (on_tick (demo_queue\<lparr>timer := timer_fire (timer demo_queue)\<rparr>))"
proof -
  have "armed (timer demo_queue) = Some 0"
    by (simp add: demo_queue_def Queue_Submit_def push_back_def Queue_New_def timer_Reset_def)
  then have "queue_reachable {1, 2} (demo_queue\<lparr>timer := timer_fire (timer demo_queue)\<rparr>)"
    by (intro queue_reachable.step [OF demo_reachable queue_step.fire]) simp_all
  then show ?thesis
    by (rule queue_reachable.step [OF _ queue_step.receive])
       (simp_all add: demo_queue_def Queue_Submit_def push_back_def Queue_New_def timer_fire_def)
qed

theorem queue_pop_never_panics_witness:
  "popFront (on_tick (demo_queue\<lparr>timer := timer_fire (timer demo_queue)\<rparr>)) \<noteq> Panic ''nil pointer dereference''"
  by (rule queue_pop_never_panics [OF demo_popping])
     (simp add: demo_queue_def Queue_Submit_def push_back_def Queue_New_def on_tick_def)

text \<open>
  C32. No lost wake-up, and FIFO: from every reachable state in which the loop waits and the
  queue is not stopped, the timer and the loop on their own execute all waiting values, oldest
  first, when the callback succeeds, and end with an empty queue.
\<close>
theorem queue_executes_all_waiting:
  assumes "queue_reachable K q" and "phase q = Selecting" and "\<not> closed q"
  shows "\<exists>q'. executes q (waiting q) q' \<and> Queue_Len q' = 0"
  by (rule drains [OF queue_reachable_inv [OF assms(1)] assms(2,3)])

theorem queue_executes_all_waiting_witness:
  "\<exists>q'. executes demo_queue [(1, 10), (2, 20)] q' \<and> Queue_Len q' = 0"
proof -
  have "phase demo_queue = Selecting" and "\<not> closed demo_queue"
    and w: "waiting demo_queue = [(1, 10), (2, 20)]"
    by (simp_all add: demo_queue_def Queue_Submit_def push_back_def Queue_New_def waiting_def)
  then show ?thesis using queue_executes_all_waiting [OF demo_reachable] by simp
qed

text \<open>
  C33. The queue cannot overflow: with \<open>K\<close> the keys its callers use, it never holds more than
  one waiting value per key and one running value, however often callbacks fail. \<open>Len\<close> counts
  exactly those.
\<close>
theorem queue_length_bounded:
  assumes "queue_reachable K q" and "finite K"
  shows "distinct (map fst (waiting q)) \<and> Queue_Len q \<le> int (card K) + 1 \<and>
    Queue_Len q = int (length (waiting q)) + (if running q = None then 0 else 1)"
proof -
  note inv = queue_reachable_inv [OF assms(1)]
  have len: "Queue_Len q = int (length (waiting q)) + (if running q = None then 0 else 1)"
    using inv by (simp add: queue_inv_def len_inv_def Queue_Len_def waiting_def)
  have "length (waiting q) \<le> card K"
    using kq.contents_bound [OF inv assms(2)] reachable_keys [OF assms(1)] by simp
  with len kq.contents_distinct [OF inv] show ?thesis by simp
qed

theorem queue_length_bounded_witness:
  "distinct (map fst (waiting demo_queue)) \<and> Queue_Len demo_queue \<le> 3 \<and>
   Queue_Len demo_queue = int (length (waiting demo_queue)) + (if running demo_queue = None then 0 else 1)"
  using queue_length_bounded [OF demo_reachable] by simp

text \<open>
  A submitted value overrides the waiting value of its key, and only that one; a running
  value of the key has its context cancelled.
\<close>
theorem queue_submit_overrides:
  assumes "queue_reachable K q"
  shows "waiting (Queue_Submit k v q) = filter (\<lambda>x. fst x \<noteq> k) (waiting q) @ [(k, v)] \<and>
    running (Queue_Submit k v q) =
      (case running q of None \<Rightarrow> None | Some (k', c) \<Rightarrow> Some (k', c \<or> k' = k)) \<and>
    map_of (waiting (Queue_Submit k v q)) = (map_of (waiting q))(k \<mapsto> v)"
proof -
  note inv = queue_reachable_inv [OF assms(1)]
  have "running (Queue_Submit k v q) =
      (case running q of None \<Rightarrow> None | Some (k', c) \<Rightarrow> Some (k', c \<or> k' = k))"
    using Submit_eq [of q k v] inv by (auto simp: queue_inv_def split: option.splits)
  then show ?thesis
    using kq.contents_put [OF inv] kq.latest_value [OF inv] by blast
qed

theorem queue_submit_overrides_witness:
  "waiting (Queue_Submit 1 11 demo_queue) = [(2, 20), (1, 11)]"
proof -
  have "waiting demo_queue = [(1, 10), (2, 20)]"
    by (simp add: demo_queue_def Queue_Submit_def push_back_def Queue_New_def waiting_def)
  then show ?thesis using queue_submit_overrides [OF demo_reachable, of 1 11] by simp
qed

text \<open>
  After an execution the value goes to the back of the queue exactly when it failed and was
  not cancelled; in that case no newer value of its key is waiting. The loop is idle again, and
  a value that is still waiting will get a tick.
\<close>
theorem queue_retries_failed:
  assumes "queue_reachable K q" and "phase q = Executing k v"
  shows "waiting (process_end err k v q) =
      waiting q @ (if err \<and> \<not> ctx_cancelled q then [(k, v)] else []) \<and>
    (ctx_cancelled q \<or> k \<notin> fst ` set (waiting q)) \<and>
    (closed q \<or> waiting (process_end err k v q) = [] \<or> pending (timer (process_end err k v q)))"
proof -
  note inv = queue_reachable_inv [OF assms(1)]
  have s: "queue_step q (Finished err) (process_end err k v q)"
    using assms(2) by (rule queue_step.finish)
  have "closed q \<or> waiting (process_end err k v q) = [] \<or> pending (timer (process_end err k v q))"
    using queue_inv_step [OF s inv] by (auto simp: queue_inv_def timer_inv_def waiting_def)
  moreover have "ctx_cancelled q \<or> k \<notin> fst ` set (waiting q)"
    using inv assms(2) by (auto simp: queue_inv_def run_inv_def)
  ultimately show ?thesis
    using waiting_process_end [OF inv assms(2)] by blast
qed

definition demo_running :: "(nat, nat) keyed_queue" where
  "demo_running =
     (case popFront (on_tick (demo_queue\<lparr>timer := timer_fire (timer demo_queue)\<rparr>)) of
        Ret q \<Rightarrow> q | Panic e \<Rightarrow> Queue_New 0)"

lemma demo_running:
  "queue_reachable {1, 2} demo_running" "phase demo_running = Executing 1 10"
  "waiting demo_running = [(2, 20)]" "\<not> ctx_cancelled demo_running"
proof -
  let ?q = "on_tick (demo_queue\<lparr>timer := timer_fire (timer demo_queue)\<rparr>)"
  have e: "popFront ?q = Ret demo_running" and "phase ?q = Popping"
    by (simp_all add: demo_running_def demo_queue_def Queue_Submit_def push_back_def Queue_New_def
        on_tick_def popFront_def)
  then show "queue_reachable {1, 2} demo_running"
    by (intro queue_reachable.step [OF demo_popping queue_step.pop]) simp_all
  show "phase demo_running = Executing 1 10" "waiting demo_running = [(2, 20)]"
    "\<not> ctx_cancelled demo_running"
    by (simp_all add: demo_running_def demo_queue_def Queue_Submit_def push_back_def Queue_New_def
        on_tick_def popFront_def waiting_def ctx_cancelled_def)
qed

theorem queue_retries_failed_witness:
  "waiting (process_end True 1 10 demo_running) = [(2, 20), (1, 10)]"
  using queue_retries_failed [OF demo_running(1,2), of True] demo_running(3,4) by simp

end
