(* ===== verification/Coordinator.thy ===== *)
theory Coordinator
  imports CommitStore Wire KeyedQueue
begin

text \<open>
  The coordinator object of \<open>pkg/decoo/coordinator.go\<close> and the services it calls. The INX node,
  the Tangle listener, the notifier and the Tendermint client are external: what they answer to
  the calls of one operation is the record \<open>inx\<close>, an argument of the operation, and what the
  operation makes them do is written to the log \<open>effects\<close>.
\<close>

section \<open>External services\<close>

datatype register_result = Registered | AlreadyRegistered | RegisterFailed

text \<open>
  \<open>None\<close> stands for an error. \<open>LatestMilestone\<close> may also return no milestone without an error;
  \<open>waitForIndex\<close> tells whether waiting for a milestone index ended without an error.
\<close>

record inx =
  protoVersion :: "8 word"
  latestMilestone :: "milestone option option"
  latestMilestoneIndex :: "32 word"
  blockMetadata :: "block_id \<Rightarrow> inx_metadata option"
  submitBlock :: "block \<Rightarrow> block_id option"
  computeWhiteFlag :: "32 word \<Rightarrow> 32 word \<Rightarrow> block_id list \<Rightarrow> milestone_id \<Rightarrow> (bytes \<times> bytes) option"
  registerSolid :: "block_id \<Rightarrow> register_result"
  waitForIndex :: "32 word \<Rightarrow> bool"
  broadcastTxSync :: "bytes \<Rightarrow> 32 word option"

text \<open>
  The calls of \<open>pkg/decoo/inx.go\<close> are calls of the client under a timeout; a timeout is one of the
  errors.
\<close>

abbreviation inxLatestMilestone :: "inx \<Rightarrow> milestone option option" where
  "inxLatestMilestone env \<equiv> latestMilestone env"

abbreviation inxLatestMilestoneIndex :: "inx \<Rightarrow> 32 word" where
  "inxLatestMilestoneIndex env \<equiv> latestMilestoneIndex env"

abbreviation inxBlockMetadata :: "inx \<Rightarrow> block_id \<Rightarrow> inx_metadata option" where
  "inxBlockMetadata env b \<equiv> blockMetadata env b"

abbreviation inxSubmitBlock :: "inx \<Rightarrow> block \<Rightarrow> block_id option" where
  "inxSubmitBlock env b \<equiv> submitBlock env b"

abbreviation inxComputeWhiteFlag ::
    "inx \<Rightarrow> 32 word \<Rightarrow> 32 word \<Rightarrow> block_id list \<Rightarrow> milestone_id \<Rightarrow> (bytes \<times> bytes) option" where
  "inxComputeWhiteFlag env index ts parents lastID \<equiv> computeWhiteFlag env index ts parents lastID"

abbreviation inxRegisterBlockSolidCallback :: "inx \<Rightarrow> block_id \<Rightarrow> register_result" where
  "inxRegisterBlockSolidCallback env b \<equiv> registerSolid env b"

datatype effect =
  ClearCallbacks
| RegisterCallback block_id "32 word" peer_id
| GoSubmit milestone
| Notify "32 word"
| Listen "32 word"
| SubmitBlock block
| BroadcastTxSync bytes

section \<open>The coordinator\<close>

text \<open>Keys of the broadcast queue: the string \<open>"partial"\<close> or a peer.\<close>

datatype queue_key = KPartial | KPeer peer_id

text \<open>\<open>stopped\<close> is the state of \<open>stopOnce\<close>; \<open>cancelled\<close> that of the context.\<close>

record coordinator =
  coCommittee :: committee
  maxRetainBlocks :: "64 word"
  checkState :: app_state
  deliverState :: app_state
  cms :: commit_info
  started :: bool
  stopped :: bool
  cancelled :: bool
  broadcastQueue :: "(queue_key, bytes) keyed_queue"
  effects :: "effect list"

type_synonym 'a coo = "(coordinator, 'a) exec"

definition emit :: "effect \<Rightarrow> coordinator \<Rightarrow> coordinator" where
  "emit e c = c\<lparr>effects := effects c @ [e]\<rparr>"

abbreviation inxClearBlockSolidCallbacks :: "coordinator \<Rightarrow> coordinator" where
  "inxClearBlockSolidCallbacks c \<equiv> emit ClearCallbacks c"

definition F :: "coordinator \<Rightarrow> int" where
  "F c = com_f (coCommittee c)"

definition T :: "coordinator \<Rightarrow> int" where
  "T c = com_t (coCommittee c)"

text \<open>Durations are in nanoseconds, as in Go.\<close>

definition RetryInterval :: nat where
  "RetryInterval = 100000000"

text \<open>
  \<open>Stop\<close> runs once. It closes the broadcast queue, whose loop and timer then end by the steps of
  \<open>KeyedQueue\<close>; \<open>Stop\<close> waits for them, and \<open>QueueStop\<close> shows that the wait ends.
\<close>

definition Stop :: "coordinator \<Rightarrow> unit coo" where
  "Stop c =
     (if stopped c then Val () c
      else
        let c1 = c\<lparr>stopped := True, started := False, cancelled := True\<rparr>
        in case stop_begin (broadcastQueue c1) of
             Panic e \<Rightarrow> Raise e c1
           | Ret q \<Rightarrow> Val () (c1\<lparr>broadcastQueue := q\<rparr>))"

text \<open>\<open>Wait\<close> blocks until the context is cancelled (\<open>None\<close>) and then makes sure that \<open>Stop\<close> has run.\<close>

definition Coordinator_Wait :: "coordinator \<Rightarrow> unit coo option" where
  "Coordinator_Wait c = (if \<not> cancelled c then None else Some (Stop c))"

text \<open>The deferred \<open>stopOnPanic\<close>: a panic stops the coordinator and is raised again.\<close>

definition stopOnPanic :: "'a coo \<Rightarrow> 'a coo" where
  "stopOnPanic r =
     (case r of
        Val a c \<Rightarrow> Val a c
      | Raise e c \<Rightarrow> exec_bind (Stop c) (\<lambda>_ c'. Raise e c'))"

lemma stopOnPanic_Val_iff [go_simps]: "stopOnPanic r = Val a c \<longleftrightarrow> r = Val a c"
  by (cases r) (auto simp: stopOnPanic_def go_simps)

lemma emit_simps [simp]:
  "coCommittee (emit e c) = coCommittee c" "maxRetainBlocks (emit e c) = maxRetainBlocks c"
  "checkState (emit e c) = checkState c" "deliverState (emit e c) = deliverState c"
  "cms (emit e c) = cms c" "started (emit e c) = started c" "stopped (emit e c) = stopped c"
  "cancelled (emit e c) = cancelled c" "broadcastQueue (emit e c) = broadcastQueue c"
  "effects (emit e c) = effects c @ [e]" "F (emit e c) = F c" "T (emit e c) = T c"
  by (simp_all add: emit_def F_def T_def)

end
