(* ===== verification/Inx.thy ===== *)
theory Inx
  imports Coordinator "HOL-Library.Sublist"
begin

text \<open>
  The plugin's client of the node, \<open>components/decoo/inx.go\<close>: \<open>INXClient\<close> wraps the node bridge of
  \<open>inx-app\<close> and is what the coordinator calls as its \<open>INXClient\<close>. The bridge is external: its answers
  are the record \<open>node_bridge\<close>, where \<open>None\<close> is an error; a call that may return a nil pointer
  without an error has \<open>Some None\<close> for it.
\<close>

record node_bridge =
  nbLatestMilestone :: "milestone option option"
  nbConfirmedMilestoneIndex :: "32 word"
  nbMilestone :: "32 word \<Rightarrow> milestone option option"
  nbComputeWhiteFlag ::
    "32 word \<Rightarrow> 32 word \<Rightarrow> block_id list \<Rightarrow> milestone_id \<Rightarrow> string + (bytes \<times> bytes)"

section \<open>Operations\<close>

datatype client_error =
  ErrInvalidIndex | ErrQueryMilestone "32 word" | ErrParentsMismatch "32 word" | ErrComputeWhiteFlag string

definition errTextComputeWhiteFlagInvalidIndex :: string where
  "errTextComputeWhiteFlagInvalidIndex = ''node is not synchronized''"

text \<open>\<open>strings.Contains\<close>\<close>

definition contains_text :: "string \<Rightarrow> string \<Rightarrow> bool" where
  "contains_text s sub \<longleftrightarrow> list_ex (prefix sub) (suffixes s)"

definition Client_LatestMilestone :: "node_bridge \<Rightarrow> milestone option option" where
  "Client_LatestMilestone nb =
     (case nbLatestMilestone nb of
        None \<Rightarrow> None
      | Some latest \<Rightarrow> (case latest of Some ms \<Rightarrow> Some (Some ms) | None \<Rightarrow> Some None))"

definition equal_ids :: "block_id list \<Rightarrow> block_id list \<Rightarrow> bool" where
  "equal_ids a b =
     (if length a \<noteq> length b then False else list_all (\<lambda>i. a ! i = b ! i) [0..<length a])"

text \<open>A nil milestone without an error would be dereferenced.\<close>

definition queryWhiteFlag ::
    "node_bridge \<Rightarrow> 32 word \<Rightarrow> block_id list \<Rightarrow> (client_error + (bytes \<times> bytes)) go" where
  "queryWhiteFlag nb index parents =
     (case nbMilestone nb index of
        None \<Rightarrow> Ret (Inl (ErrQueryMilestone index))
      | Some None \<Rightarrow> Panic ''nil pointer dereference''
      | Some (Some ms) \<Rightarrow>
          if \<not> equal_ids (msParents ms) parents then Ret (Inl (ErrParentsMismatch index))
          else Ret (Inr (bytes_of (msInclusionMerkleRoot ms), bytes_of (msAppliedMerkleRoot ms))))"

definition ComputeWhiteFlag ::
    "node_bridge \<Rightarrow> 32 word \<Rightarrow> 32 word \<Rightarrow> block_id list \<Rightarrow> milestone_id
     \<Rightarrow> (client_error + (bytes \<times> bytes)) go" where
  "ComputeWhiteFlag nb index timestamp parents previousMilestoneID =
     (let cmi = nbConfirmedMilestoneIndex nb in
      if index > cmi + 1 then Ret (Inl ErrInvalidIndex)
      else if cmi > 0 \<and> index \<le> cmi then queryWhiteFlag nb index parents
      else (case nbComputeWhiteFlag nb index timestamp parents previousMilestoneID of
              Inl err \<Rightarrow>
                if contains_text err errTextComputeWhiteFlagInvalidIndex
                then queryWhiteFlag nb index parents
                else Ret (Inl (ErrComputeWhiteFlag err))
            | Inr res \<Rightarrow> Ret (Inr res)))"

section \<open>The client as the coordinator sees it\<close>

text \<open>Errors and panics of the client both make the calling \<open>EndBlock\<close> panic.\<close>

definition with_client :: "node_bridge \<Rightarrow> inx \<Rightarrow> inx" where
  "with_client nb env =
     env\<lparr>latestMilestone := Client_LatestMilestone nb,
         computeWhiteFlag := (\<lambda>i ts ps m.
           case ComputeWhiteFlag nb i ts ps m of Ret (Inr r) \<Rightarrow> Some r | _ \<Rightarrow> None)\<rparr>"

section \<open>Facts\<close>

lemma equal_ids_iff [simp]: "equal_ids a b \<longleftrightarrow> a = b"
  by (auto simp: equal_ids_def list_all_iff intro: nth_equalityI)

lemma contains_text_iff: "contains_text s sub \<longleftrightarrow> (\<exists>u v. s = u @ sub @ v)"
proof -
  have "contains_text s sub \<longleftrightarrow> (\<exists>w. suffix w s \<and> prefix sub w)"
    by (auto simp: contains_text_def list_ex_iff)
  then show ?thesis by (auto simp: suffix_def prefix_def)
qed

lemma Client_LatestMilestone_eq [simp]: "Client_LatestMilestone nb = nbLatestMilestone nb"
  by (simp add: Client_LatestMilestone_def split: option.split)

text \<open>The roots the milestone of an index carries, if it has the given parents.\<close>

definition roots_of :: "milestone \<Rightarrow> bytes \<times> bytes" where
  "roots_of ms = (bytes_of (msInclusionMerkleRoot ms), bytes_of (msAppliedMerkleRoot ms))"

lemma queryWhiteFlag_Inr_iff:
  "queryWhiteFlag nb i ps = Ret (Inr r) \<longleftrightarrow>
     (\<exists>ms. nbMilestone nb i = Some (Some ms) \<and> msParents ms = ps \<and> r = roots_of ms)"
  by (auto simp: queryWhiteFlag_def roots_of_def split: option.splits)

text \<open>When the client answers from the confirmed milestone instead of a computation.\<close>

definition queries :: "node_bridge \<Rightarrow> 32 word \<Rightarrow> 32 word \<Rightarrow> block_id list \<Rightarrow> milestone_id \<Rightarrow> bool" where
  "queries nb i ts ps m \<longleftrightarrow>
     0 < nbConfirmedMilestoneIndex nb \<and> i \<le> nbConfirmedMilestoneIndex nb \<or>
     (\<exists>u v. nbComputeWhiteFlag nb i ts ps m = Inl (u @ errTextComputeWhiteFlagInvalidIndex @ v))"

lemma ComputeWhiteFlag_cases:
  "ComputeWhiteFlag nb i ts ps m =
     (if nbConfirmedMilestoneIndex nb + 1 < i then Ret (Inl ErrInvalidIndex)
      else if queries nb i ts ps m then queryWhiteFlag nb i ps
      else (case nbComputeWhiteFlag nb i ts ps m of
              Inl err \<Rightarrow> Ret (Inl (ErrComputeWhiteFlag err)) | Inr r \<Rightarrow> Ret (Inr r)))"
  by (auto simp: ComputeWhiteFlag_def queries_def Let_def contains_text_iff split: sum.splits)

text \<open>
  C28. When the white flag of the coordinator's client succeeds: never for a milestone after the
  next one; for a milestone the node has confirmed, or confirms while it computes, exactly if the
  node has it with the same parents, and then with the roots it carries; otherwise with what the
  node computes.
\<close>
theorem ComputeWhiteFlag_succeeds_iff:
  "computeWhiteFlag (with_client nb env) i ts ps m = Some r \<longleftrightarrow>
     i \<le> nbConfirmedMilestoneIndex nb + 1 \<and>
     (if queries nb i ts ps m
      then \<exists>ms. nbMilestone nb i = Some (Some ms) \<and> msParents ms = ps \<and> r = roots_of ms
      else nbComputeWhiteFlag nb i ts ps m = Inr r)"
proof -
  have "computeWhiteFlag (with_client nb env) i ts ps m = Some r \<longleftrightarrow> ComputeWhiteFlag nb i ts ps m = Ret (Inr r)"
    by (simp add: with_client_def split: go.split sum.split)
  then show ?thesis
    by (auto simp: ComputeWhiteFlag_cases queryWhiteFlag_Inr_iff not_less split: sum.splits)
qed

end
