(* ===== verification/App.thy ===== *)
theory App
  imports Coordinator
begin

text \<open>
  The ABCI application, \<open>pkg/decoo/app.go\<close>: the calls Tendermint makes for every transaction and
  every block, the creation and the submission of milestones. Loops over maps take the order in
  which the runtime visits the keys as an argument. Panics carry the coordinator as it was.
\<close>

section \<open>Return codes\<close>

definition CodeTypeOK :: "32 word" where "CodeTypeOK = 0"
definition CodeTypeSizeError :: "32 word" where "CodeTypeSizeError = 1"
definition CodeTypeSyntaxError :: "32 word" where "CodeTypeSyntaxError = 2"
definition CodeTypeStateError :: "32 word" where "CodeTypeStateError = 3"
definition CodeTypeNotSupportedError :: "32 word" where "CodeTypeNotSupportedError = 4"

lemmas code_defs =
  CodeTypeOK_def CodeTypeSizeError_def CodeTypeSyntaxError_def CodeTypeStateError_def
  CodeTypeNotSupportedError_def

text \<open>A response to a transaction: its code, and the error that is its log.\<close>

record tx_response =
  Code :: "32 word"
  Log :: "tx_error option"

section \<open>Info and Query\<close>

fun decimal :: "nat \<Rightarrow> string" where
  "decimal n = (if n < 10 then [char_of (48 + n)] else decimal (n div 10) @ [char_of (48 + n mod 10)])"

declare decimal.simps [simp del]

record info_response =
  infoData :: string
  AppVersion :: "64 word"
  LastBlockHeight :: "64 word"
  LastBlockAppHash :: bytes

definition ProtocolVersion :: "64 word" where
  "ProtocolVersion = 1"

definition Info :: "coordinator \<Rightarrow> info_response" where
  "Info c =
     (let last = LastCommitInfo (cms c)
      in \<lparr>infoData = ''{\"milestone_index\":'' @ decimal (unat (MilestoneIndex (State (deliverState c)))) @ ''}'',
          AppVersion = ProtocolVersion, LastBlockHeight = Height last, LastBlockAppHash = CommitHash last\<rparr>)"

definition Query :: "coordinator \<Rightarrow> tx_response" where
  "Query c = \<lparr>Code = CodeTypeNotSupportedError, Log = None\<rparr>"

section \<open>Transactions\<close>

text \<open>
  \<open>CheckTx\<close> and \<open>DeliverTx\<close> do the same to the check state and the deliver state; neither of
  them defers \<open>stopOnPanic\<close>.
\<close>

definition CheckTx :: "'z tx_lib_scheme \<Rightarrow> bytes \<Rightarrow> coordinator \<Rightarrow> tx_response coo" where
  "CheckTx L tx c =
     (if length tx > MaxTxBytes then Val \<lparr>Code = CodeTypeSizeError, Log = None\<rparr> c
      else exec_bind (lift_go (UnmarshalTx L (coCommittee c) (MilestoneIndex (State (checkState c))) tx) c)
        (\<lambda>r c. case r of
           Inl e \<Rightarrow> Val \<lparr>Code = CodeTypeSyntaxError, Log = Some e\<rparr> c
         | Inr (issuer, t) \<Rightarrow>
             exec_bind (lift_go (Apply L t issuer (checkState c)) c)
               (\<lambda>(err, s) c. case err of
                  Some e \<Rightarrow> Val \<lparr>Code = CodeTypeStateError, Log = Some e\<rparr> (c\<lparr>checkState := s\<rparr>)
                | None \<Rightarrow> Val \<lparr>Code = CodeTypeOK, Log = None\<rparr> (c\<lparr>checkState := s\<rparr>))))"

definition DeliverTx :: "'z tx_lib_scheme \<Rightarrow> bytes \<Rightarrow> coordinator \<Rightarrow> tx_response coo" where
  "DeliverTx L tx c =
     (if length tx > MaxTxBytes then Val \<lparr>Code = CodeTypeSizeError, Log = None\<rparr> c
      else exec_bind (lift_go (UnmarshalTx L (coCommittee c) (MilestoneIndex (State (deliverState c))) tx) c)
        (\<lambda>r c. case r of
           Inl e \<Rightarrow> Val \<lparr>Code = CodeTypeSyntaxError, Log = Some e\<rparr> c
         | Inr (issuer, t) \<Rightarrow>
             exec_bind (lift_go (Apply L t issuer (deliverState c)) c)
               (\<lambda>(err, s) c. case err of
                  Some e \<Rightarrow> Val \<lparr>Code = CodeTypeStateError, Log = Some e\<rparr> (c\<lparr>deliverState := s\<rparr>)
                | None \<Rightarrow> Val \<lparr>Code = CodeTypeOK, Log = None\<rparr> (c\<lparr>deliverState := s\<rparr>))))"

section \<open>Blocks\<close>

definition BeginBlock :: "header \<Rightarrow> coordinator \<Rightarrow> unit coo" where
  "BeginBlock h c = stopOnPanic
     (case ValidateHeight (cms c) (hdrHeight h) of
        Some err \<Rightarrow> Raise ''invalid height'' c
      | None \<Rightarrow> Val () (c\<lparr>deliverState := (deliverState c)\<lparr>blockHeader := h\<rparr>\<rparr>))"

text \<open>
  The loop of \<open>EndBlock\<close> that collects the parents with more than \<open>F\<close> proofs, over the keys of
  \<open>ProofIssuersByBlockID\<close> in the order given; it returns the weight and the parents.
\<close>

fun collectParents ::
    "int \<Rightarrow> app_state \<Rightarrow> block_id list \<Rightarrow> int \<times> block_id list \<Rightarrow> int \<times> block_id list" where
  "collectParents f s [] acc = acc"
| "collectParents f s (b # bs) (parentWeight, parents) =
     (if 0 < map_get 0 (IssuerCountByParent s) b \<and>
         f < map_len (map_get fmempty (ProofIssuersByBlockID s) b)
      then collectParents f s bs
        (parentWeight + map_get 0 (IssuerCountByParent s) b,
         if b \<noteq> LastMilestoneBlockID (State s) then parents @ [b] else parents)
      else collectParents f s bs (parentWeight, parents))"

text \<open>The order of parents: by issuer count, highest first, then by ID.\<close>

definition parent_less :: "(block_id, int) fmap \<Rightarrow> block_id \<Rightarrow> block_id \<Rightarrow> bool" where
  "parent_less counts a b =
     (let cmp = map_get 0 counts b - map_get 0 counts a
      in if cmp = 0 then bytes_of a < bytes_of b else cmp < 0)"

definition selectParents :: "'z iota_lib_scheme \<Rightarrow> app_state \<Rightarrow> block_id list \<Rightarrow> block_id list" where
  "selectParents L s parents =
     RemoveDupsAndSort L
       ((if length parents > BlockMaxParents L - 1
         then take (BlockMaxParents L - 1) (sort_by (parent_less (IssuerCountByParent s)) parents)
         else parents) @ [LastMilestoneBlockID (State s)])"

definition createMilestoneEssence ::
    "'z iota_lib_scheme \<Rightarrow> inx \<Rightarrow> block_id list \<Rightarrow> coordinator \<Rightarrow> unit coo" where
  "createMilestoneEssence L env parents0 c =
     (let s = deliverState c;
          parents = selectParents L s parents0;
          timestamp = ucast (hdrTime (blockHeader s)) :: 32 word
      in case inxComputeWhiteFlag env (MilestoneIndex (State s)) timestamp parents (LastMilestoneID (State s)) of
           None \<Rightarrow> Raise ''computing the white flag failed'' c
         | Some (inclMerkleRoot, appliedMerkleRoot) \<Rightarrow>
             exec_bind (lift_go (Byte32FromSlice inclMerkleRoot) c) (\<lambda>incl c.
             exec_bind (lift_go (Byte32FromSlice appliedMerkleRoot) c) (\<lambda>appl c.
               let ms = NewMilestone (MilestoneIndex (State s)) timestamp (protoVersion env)
                          (LastMilestoneID (State s)) parents incl appl
               in Val () (c\<lparr>deliverState := s
                    \<lparr>Milestone := Some (ms\<lparr>msMetadata := Metadata L (State s)\<rparr>)\<rparr>\<rparr>))))"

definition registerProcessParentOnSolid ::
    "inx \<Rightarrow> block_id \<Rightarrow> 32 word \<Rightarrow> peer_id \<Rightarrow> coordinator \<Rightarrow> unit coo" where
  "registerProcessParentOnSolid env b index peerID c =
     (case inxRegisterBlockSolidCallback env b of
        Registered \<Rightarrow> Val () (emit (RegisterCallback b index peerID) c)
      | AlreadyRegistered \<Rightarrow> Val () c
      | RegisterFailed \<Rightarrow> Raise ''registering the callback failed'' c)"

text \<open>The loop of \<open>EndBlock\<close> over \<open>ParentByIssuer\<close>, with the set of processed blocks.\<close>

fun awaitParents :: "inx \<Rightarrow> peer_id list \<Rightarrow> block_id set \<Rightarrow> coordinator \<Rightarrow> unit coo" where
  "awaitParents env [] processed c = Val () c"
| "awaitParents env (p # ps) processed c =
     (let b = map_get zero32 (ParentByIssuer (deliverState c)) p
      in if b \<in> processed then awaitParents env ps processed c
         else exec_bind (lift_go (ID (coCommittee c)) c) (\<lambda>own c.
           if (case fmlookup (ProofIssuersByBlockID (deliverState c)) b of
                 None \<Rightarrow> False
               | Some proof \<Rightarrow> fmlookup proof own \<noteq> None)
           then awaitParents env ps (insert b processed) c
           else exec_bind
             (registerProcessParentOnSolid env b (MilestoneIndex (State (deliverState c))) p c)
             (\<lambda>_ c. awaitParents env ps (insert b processed) c)))"

text \<open>The order arguments: of \<open>ProofIssuersByBlockID\<close> and of \<open>ParentByIssuer\<close>.\<close>

definition EndBlock ::
    "'z iota_lib_scheme \<Rightarrow> inx \<Rightarrow> block_id list \<Rightarrow> peer_id list \<Rightarrow> coordinator \<Rightarrow> unit coo" where
  "EndBlock L env bs ps c = stopOnPanic
     (exec_bind
       (if Milestone (deliverState c) = None
        then (case collectParents (F c) (deliverState c) bs (0, []) of
                (parentWeight, parents) \<Rightarrow>
                  if F c < parentWeight
                  then createMilestoneEssence L env parents (inxClearBlockSolidCallbacks c)
                  else Val () c)
        else Val () c)
       (\<lambda>_ c. if Milestone (deliverState c) = None then awaitParents env ps {} c else Val () c))"

section \<open>Commit\<close>

definition retainHeight :: "64 word \<Rightarrow> 64 word \<Rightarrow> 64 word" where
  "retainHeight retainBlocks commitHeight =
     (if retainBlocks = 0 then 0
      else let v = commitHeight - retainBlocks in if sint v \<le> 0 then 0 else v)"

definition tx_essence :: "'z iota_lib_scheme \<Rightarrow> milestone \<Rightarrow> bytes go" where
  "tx_essence L ms = (case essence_of L ms of None \<Rightarrow> Panic ''essence'' | Some es \<Rightarrow> Ret es)"

definition broadcastPartial :: "'z tx_lib_scheme \<Rightarrow> milestone \<Rightarrow> coordinator \<Rightarrow> unit coo" where
  "broadcastPartial L ms c =
     exec_bind (lift_go (tx_essence L ms) c) (\<lambda>essence c.
       case MarshalTx L (coCommittee c) (PartialSignature (sigSignature (Sign L (coCommittee c) essence))) of
         Inl e \<Rightarrow> Raise ''marshalling the transaction failed'' c
       | Inr tx \<Rightarrow> Val () (c\<lparr>broadcastQueue := Queue_Submit KPartial tx (broadcastQueue c)\<rparr>))"

text \<open>
  Completing the milestone \<open>ms\<close> of the deliver state: sort and attach the signatures, hand the
  milestone to a new goroutine, start the state of the next one and announce its index. \<open>ks\<close> is
  the order of \<open>SignaturesByIssuer\<close>.
\<close>

definition completeMilestone ::
    "'z iota_lib_scheme \<Rightarrow> peer_id list \<Rightarrow> milestone \<Rightarrow> coordinator \<Rightarrow> unit coo" where
  "completeMilestone L ks ms0 c0 =
     (let s = deliverState c0;
          signatures = sort_by (sig_less L) (map (\<lambda>k. the (fmlookup (SignaturesByIssuer s) k)) ks);
          ms = ms0\<lparr>msSignatures := signatures\<rparr>;
          c = emit (GoSubmit ms) (c0\<lparr>deliverState := s\<lparr>Milestone := Some ms\<rparr>\<rparr>)
      in exec_bind (lift_go (ms_MustID L ms) c) (\<lambda>lastID c.
         exec_bind (lift_go (MilestoneBlockID L ms) c) (\<lambda>lastBlockID c.
           let st = \<lparr>MilestoneHeight = hdrHeight (blockHeader (deliverState c)),
                     MilestoneIndex = MilestoneIndex (State (deliverState c)) + 1,
                     LastMilestoneID = lastID, LastMilestoneBlockID = lastBlockID\<rparr>
           in Val () (emit (Notify (MilestoneIndex st))
                (c\<lparr>deliverState := Reset st (deliverState c)\<rparr>)))))"

text \<open>\<open>c.checkState.Copy(&c.deliverState)\<close> and \<open>c.cms.Commit(&c.deliverState)\<close>\<close>

definition copyState :: "'z app_lib_scheme \<Rightarrow> coordinator \<Rightarrow> unit coo" where
  "copyState L c =
     (case Copy L (checkState c) (deliverState c) of
        Val u s \<Rightarrow> Val () (c\<lparr>checkState := s\<rparr>)
      | Raise e s \<Rightarrow> Raise e (c\<lparr>checkState := s\<rparr>))"

definition commitState :: "'z app_lib_scheme \<Rightarrow> coordinator \<Rightarrow> unit coo" where
  "commitState L c =
     exec_bind (lift_go (CommitStore_Commit L (deliverState c)) c) (\<lambda>i c. Val () (c\<lparr>cms := i\<rparr>))"

record commit_response =
  CommitData :: bytes
  RetainHeight :: "64 word"

definition Commit ::
    "'z tx_lib_scheme \<Rightarrow> peer_id list \<Rightarrow> coordinator \<Rightarrow> commit_response coo" where
  "Commit L ks c = stopOnPanic
     (let retain = retainHeight (maxRetainBlocks c) (hdrHeight (blockHeader (deliverState c))) in
      exec_bind
        (case Milestone (deliverState c) of
           None \<Rightarrow> Val () c
         | Some ms \<Rightarrow>
             if map_len (SignaturesByIssuer (deliverState c)) < T c
             then exec_bind (lift_go (ID (coCommittee c)) c) (\<lambda>own c.
                    if fmlookup (SignaturesByIssuer (deliverState c)) own = None
                    then broadcastPartial L ms c else Val () c)
             else Val () c) (\<lambda>_ c.
      exec_bind
        (case Milestone (deliverState c) of
           None \<Rightarrow> Val () c
         | Some ms \<Rightarrow>
             if T c \<le> map_len (SignaturesByIssuer (deliverState c))
             then completeMilestone L ks ms c else Val () c) (\<lambda>_ c.
      exec_bind (copyState L c) (\<lambda>_ c.
      exec_bind (commitState L c) (\<lambda>_ c.
        Val \<lparr>CommitData = CommitHash (LastCommitInfo (cms c)), RetainHeight = retain\<rparr> c)))))"

section \<open>Parents\<close>

definition ValidParent :: "inx_metadata \<Rightarrow> bool" where
  "ValidParent meta \<longleftrightarrow>
     metaSolid meta \<and> metaReferencedByMilestoneIndex meta = 0 \<and> \<not> metaShouldReattach meta"

text \<open>The callback of a solid block.\<close>

definition processParent ::
    "'z tx_lib_scheme \<Rightarrow> 32 word \<Rightarrow> peer_id \<Rightarrow> inx_metadata \<Rightarrow> coordinator \<Rightarrow> unit coo" where
  "processParent L index peerID meta c =
     (if metaReferencedByMilestoneIndex meta = index then Val () c
      else if \<not> ValidParent meta then Val () c
      else (case MarshalTx L (coCommittee c) (Proof index (metaBlockID meta)) of
              Inl e \<Rightarrow> Raise ''marshalling the transaction failed'' c
            | Inr tx \<Rightarrow> Val () (c\<lparr>broadcastQueue := Queue_Submit (KPeer peerID) tx (broadcastQueue c)\<rparr>)))"

section \<open>Submitting a milestone\<close>

datatype submit_error = ErrSignatures | ErrBuild | ErrSerialize | ErrSubmit

definition submitMilestoneBlock ::
    "'z iota_lib_scheme \<Rightarrow> inx \<Rightarrow> milestone \<Rightarrow> coordinator \<Rightarrow> submit_error option coo" where
  "submitMilestoneBlock L env ms c =
     (if msIndex ms \<le> inxLatestMilestoneIndex env then Val None c
      else if \<not> verify_signatures L ms (T c) (Members (coCommittee c) (msIndex ms))
      then Val (Some ErrSignatures) c
      else (case buildMilestoneBlock L ms of
              None \<Rightarrow> Val (Some ErrBuild) c
            | Some b \<Rightarrow>
                if \<not> serializes L b then Val (Some ErrSerialize) c
                else let c1 = emit (SubmitBlock b) c
                     in case inxSubmitBlock env b of
                          Some i \<Rightarrow> Val None c1
                        | None \<Rightarrow>
                            exec_bind (lift_go (block_MustID L b) c1) (\<lambda>bid c1.
                              if inxBlockMetadata env bid = None then Val (Some ErrSubmit) c1
                              else Val None c1)))"

text \<open>The goroutine that \<open>Commit\<close> starts.\<close>

definition submitRoutine ::
    "'z iota_lib_scheme \<Rightarrow> inx \<Rightarrow> milestone \<Rightarrow> coordinator \<Rightarrow> unit coo" where
  "submitRoutine L env ms c = stopOnPanic
     (exec_bind (submitMilestoneBlock L env ms c) (\<lambda>err c.
        case err of Some e \<Rightarrow> Raise ''submitting the milestone failed'' c | None \<Rightarrow> Val () c))"

end
