(* ===== verification/AppFacts.thy ===== *)
theory AppFacts
  imports App
begin

text \<open>
  What the operations of \<open>App\<close> do, as equations and frame conditions for the proofs about whole
  runs: the two transaction handlers, the choice of the parents, \<open>EndBlock\<close> and \<open>Commit\<close>.
\<close>

section \<open>Transaction handlers\<close>

text \<open>The common part of \<open>CheckTx\<close> and \<open>DeliverTx\<close>, on the state they work on.\<close>

definition handleTx :: "'z tx_lib_scheme \<Rightarrow> committee \<Rightarrow> bytes \<Rightarrow> app_state \<Rightarrow> (tx_response \<times> app_state) go" where
  "handleTx L com tx s =
     (if length tx > MaxTxBytes then Ret (\<lparr>Code = CodeTypeSizeError, Log = None\<rparr>, s)
      else go_bind (UnmarshalTx L com (MilestoneIndex (State s)) tx)
        (\<lambda>r. case r of
           Inl e \<Rightarrow> Ret (\<lparr>Code = CodeTypeSyntaxError, Log = Some e\<rparr>, s)
         | Inr (issuer, t) \<Rightarrow>
             go_bind (Apply L t issuer s)
               (\<lambda>(err, s'). case err of
                  Some e \<Rightarrow> Ret (\<lparr>Code = CodeTypeStateError, Log = Some e\<rparr>, s')
                | None \<Rightarrow> Ret (\<lparr>Code = CodeTypeOK, Log = None\<rparr>, s'))))"

lemma handleTx_Ret:
  assumes "handleTx L com tx s = Ret (r, s')"
  shows "Code r \<noteq> CodeTypeOK \<and> s' = s \<or>
    (\<exists>t p. r = \<lparr>Code = CodeTypeOK, Log = None\<rparr> \<and> p \<in> Members com (MilestoneIndex (State s)) \<and>
       UnmarshalTx L com (MilestoneIndex (State s)) tx = Ret (Inr (bytes_of p, t)) \<and>
       Apply L t (bytes_of p) s = Ret (None, s'))"
proof (cases "length tx > MaxTxBytes")
  case True
  then show ?thesis using assms by (auto simp: handleTx_def code_defs)
next
  case False
  then obtain x where x: "UnmarshalTx L com (MilestoneIndex (State s)) tx = Ret x"
    using assms by (auto simp: handleTx_def go_simps)
  show ?thesis
  proof (cases x)
    case (Inl e)
    then show ?thesis using assms x False by (auto simp: handleTx_def code_defs)
  next
    case (Inr it)
    obtain issuer t where it: "it = (issuer, t)" by (cases it)
    obtain p where p: "issuer = bytes_of p" "p \<in> Members com (MilestoneIndex (State s))"
      using x Inr it by (auto simp: UnmarshalTx_Inr_iff)
    obtain err s2 where a: "Apply L t (bytes_of p) s = Ret (err, s2)"
      using assms x Inr it p(1) False by (auto simp: handleTx_def go_simps)
    show ?thesis
    proof (cases err)
      case None
      then show ?thesis using assms x Inr it p a False by (auto simp: handleTx_def)
    next
      case (Some e)
      then have "s2 = s" using txs.ap_error a by blast
      then show ?thesis using assms x Inr it p a Some False by (auto simp: handleTx_def code_defs)
    qed
  qed
qed

text \<open>
  The interface of a handler of transactions that works on one of the two states of the
  coordinator: it is \<open>handleTx\<close> there, and a panic changes nothing.
\<close>

locale tx_handler =
  fixes lib :: "'z tx_lib_scheme"
    and handler :: "bytes \<Rightarrow> coordinator \<Rightarrow> tx_response coo"
    and target :: "coordinator \<Rightarrow> app_state"
    and replace :: "app_state \<Rightarrow> coordinator \<Rightarrow> coordinator"
  assumes handler_eq: "handler tx c =
      (case handleTx lib (coCommittee c) tx (target c) of
         Panic e \<Rightarrow> Raise e c
       | Ret (r, s) \<Rightarrow> Val r (replace s c))"
    and replace_same: "replace (target c) c = c"
    and target_replace: "target (replace s c) = s"
begin

lemma handler_panics: "handler tx c = Raise e c' \<Longrightarrow> c' = c"
  by (auto simp: handler_eq split: go.splits prod.splits)

lemma handler_Val:
  assumes "handler tx c = Val r c'"
  shows "\<exists>s. handleTx lib (coCommittee c) tx (target c) = Ret (r, s) \<and> c' = replace s c"
  using assms by (auto simp: handler_eq split: go.splits prod.splits)

lemma handler_rejects: "handler tx c = Val r c' \<Longrightarrow> Code r \<noteq> CodeTypeOK \<Longrightarrow> c' = c"
  by (auto dest!: handler_Val handleTx_Ret simp: replace_same)

lemma handler_keeps:
  assumes "handler tx c = Val r c'"
    and "app_inv lib (Members (coCommittee c) (MilestoneIndex (State (target c)))) (target c)"
  shows "app_inv lib (Members (coCommittee c) (MilestoneIndex (State (target c)))) (target c') \<and>
    State (target c') = State (target c) \<and> Milestone (target c') = Milestone (target c) \<and>
    blockHeader (target c') = blockHeader (target c)"
proof -
  obtain s where s: "handleTx lib (coCommittee c) tx (target c) = Ret (r, s)" "c' = replace s c"
    using handler_Val [OF assms(1)] by blast
  from handleTx_Ret [OF s(1)] show ?thesis
  proof (elim disjE exE conjE)
    assume "s = target c"
    then show ?thesis using s(2) assms(2) by (simp add: target_replace)
  next
    fix t p
    assume "p \<in> Members (coCommittee c) (MilestoneIndex (State (target c)))"
      and a: "Apply lib t (bytes_of p) (target c) = Ret (None, s)"
    then show ?thesis
      using txs.ap_inv [OF a] txs.ap_frame [OF a] assms(2) by (simp add: s(2) target_replace)
  qed
qed

lemma handler_empty_panics:
  assumes "proto_ok lib"
  shows "\<exists>e. handler [] c = Raise e c"
proof -
  let ?r = "\<lparr>rawEssence = [], rawPublicKey = [], rawSignature = []\<rparr>"
  obtain b where b: "raw_unmarshal lib b = Some ?r" "length b = size_raw ?r"
    using assms by (auto simp: proto_ok_def)
  then have "b = []" by (simp add: size_raw_def size_bytes_def)
  then obtain e where "UnmarshalTx lib (coCommittee c) (MilestoneIndex (State (target c))) [] = Panic e"
    using b UnmarshalTx_panics [of lib "coCommittee c" _ "[]"] by fastforce
  then show ?thesis by (simp add: handler_eq handleTx_def)
qed

end

lemma CheckTx_eq:
  "CheckTx L tx c =
     (case handleTx L (coCommittee c) tx (checkState c) of
        Panic e \<Rightarrow> Raise e c
      | Ret (r, s) \<Rightarrow> Val r (c\<lparr>checkState := s\<rparr>))"
proof (cases "length tx > MaxTxBytes")
  case False
  show ?thesis
  proof (cases "UnmarshalTx L (coCommittee c) (MilestoneIndex (State (checkState c))) tx")
    case (Ret x)
    show ?thesis
    proof (cases x)
      case (Inr it)
      obtain issuer t where "it = (issuer, t)" by (cases it)
      with Inr Ret False show ?thesis
        by (cases "Apply L t issuer (checkState c)")
          (auto simp: CheckTx_def handleTx_def split: option.splits)
    qed (simp add: CheckTx_def handleTx_def Ret False)
  qed (simp add: CheckTx_def handleTx_def False)
qed (simp add: CheckTx_def handleTx_def)

lemma DeliverTx_eq:
  "DeliverTx L tx c =
     (case handleTx L (coCommittee c) tx (deliverState c) of
        Panic e \<Rightarrow> Raise e c
      | Ret (r, s) \<Rightarrow> Val r (c\<lparr>deliverState := s\<rparr>))"
proof (cases "length tx > MaxTxBytes")
  case False
  show ?thesis
  proof (cases "UnmarshalTx L (coCommittee c) (MilestoneIndex (State (deliverState c))) tx")
    case (Ret x)
    show ?thesis
    proof (cases x)
      case (Inr it)
      obtain issuer t where "it = (issuer, t)" by (cases it)
      with Inr Ret False show ?thesis
        by (cases "Apply L t issuer (deliverState c)")
          (auto simp: DeliverTx_def handleTx_def split: option.splits)
    qed (simp add: DeliverTx_def handleTx_def Ret False)
  qed (simp add: DeliverTx_def handleTx_def False)
qed (simp add: DeliverTx_def handleTx_def)

interpretation check_tx: tx_handler L "CheckTx L" checkState "\<lambda>s c. c\<lparr>checkState := s\<rparr>"
  for L :: "'z tx_lib_scheme"
  by unfold_locales (simp_all add: CheckTx_eq)

interpretation deliver_tx: tx_handler L "DeliverTx L" deliverState "\<lambda>s c. c\<lparr>deliverState := s\<rparr>"
  for L :: "'z tx_lib_scheme"
  by unfold_locales (simp_all add: DeliverTx_eq)

section \<open>Parents of a milestone\<close>

text \<open>A block that at least one issuer proposed and more than \<open>f\<close> members proved.\<close>

definition confirmed :: "int \<Rightarrow> app_state \<Rightarrow> block_id \<Rightarrow> bool" where
  "confirmed f s b \<longleftrightarrow> 0 < map_get 0 (IssuerCountByParent s) b \<and> f < int (card (provers s b))"

lemma collectParents_eq:
  "collectParents f s bs (w, ps) =
     (w + (\<Sum>b \<leftarrow> filter (confirmed f s) bs. map_get 0 (IssuerCountByParent s) b),
      ps @ filter (\<lambda>b. confirmed f s b \<and> b \<noteq> LastMilestoneBlockID (State s)) bs)"
  by (induction bs arbitrary: w ps) (auto simp: confirmed_def provers_def map_len_def)

lemma weight_eq:
  assumes "tally_inv s" and "distinct bs"
  shows "(\<Sum>b \<leftarrow> filter (confirmed f s) bs. map_get 0 (IssuerCountByParent s) b) =
    int (card (\<Union>b \<in> set (filter (confirmed f s) bs). proposers s b))"
proof -
  have "card (\<Union>b \<in> A. proposers s b) = (\<Sum>b \<in> A. card (proposers s b))" if "finite A" for A
    using that by (intro card_UN_disjoint) (auto simp: proposers_def)
  then show ?thesis
    using assms by (simp add: sum_list_distinct_conv_sum_set tally_inv_def)
qed

interpretation parent_order: keyed_less "parent_less counts" id for counts
proof
  fix x y z :: block_id
  show "\<not> parent_less counts x x" by (simp add: parent_less_def Let_def)
  show "parent_less counts x y \<Longrightarrow> parent_less counts y z \<Longrightarrow> parent_less counts x z"
    by (auto simp: parent_less_def Let_def split: if_splits)
  show "id x \<noteq> id y \<Longrightarrow> parent_less counts x y \<or> parent_less counts y x"
    using linorder_less_linear [of "bytes_of x" "bytes_of y"]
    by (auto simp: parent_less_def Let_def bytes_of_inject)
qed

text \<open>The set of the selected parents does not depend on the order the parents came in.\<close>

lemma selectParents_cong:
  assumes "dedup_ok L" and "distinct ps" and "mset ps = mset qs"
  shows "selectParents L s ps = selectParents L s qs"
proof -
  have "sort_by (parent_less (IssuerCountByParent s)) ps = sort_by (parent_less (IssuerCountByParent s)) qs"
    using parent_order.sort_by_cong [of ps qs] assms(2,3) by simp
  moreover have "length ps = length qs" and "set ps = set qs"
    using assms(3) by (metis size_mset) (metis assms(3) set_mset_mset)
  ultimately show ?thesis
    unfolding selectParents_def by (intro dedup_cong [OF assms(1)]) auto
qed

lemma selectParents_facts:
  assumes "dedup_ok L" and "0 < BlockMaxParents L"
  shows "sorted_wrt (<) (selectParents L s ps)" and "distinct (selectParents L s ps)"
    and "LastMilestoneBlockID (State s) \<in> set (selectParents L s ps)"
    and "set (selectParents L s ps) \<subseteq> insert (LastMilestoneBlockID (State s)) (set ps)"
    and "length (selectParents L s ps) \<le> BlockMaxParents L"
proof -
  let ?qs = "(if length ps > BlockMaxParents L - 1
         then take (BlockMaxParents L - 1) (sort_by (parent_less (IssuerCountByParent s)) ps)
         else ps) @ [LastMilestoneBlockID (State s)]"
  have e: "selectParents L s ps = RemoveDupsAndSort L ?qs" by (simp add: selectParents_def)
  note d = dedup_facts [OF assms(1), of ?qs]
  show "sorted_wrt (<) (selectParents L s ps)" "distinct (selectParents L s ps)"
    using d e by auto
  show "LastMilestoneBlockID (State s) \<in> set (selectParents L s ps)"
    using d(1) e by auto
  show "set (selectParents L s ps) \<subseteq> insert (LastMilestoneBlockID (State s)) (set ps)"
    using d(1) e set_sort_by [of "parent_less (IssuerCountByParent s)" ps]
    by (auto split: if_splits dest!: in_set_takeD)
  have "length ?qs \<le> BlockMaxParents L" using assms(2) by auto
  then show "length (selectParents L s ps) \<le> BlockMaxParents L"
    using d(4) e by simp
qed

text \<open>
  The issuers behind the selected parents: if all confirmed parents together have more than
  \<open>f\<close> issuers, so have the selected ones, as there is room for \<open>f + 1\<close> of them.
\<close>

lemma selectParents_issuers:
  assumes d: "dedup_ok L" and room: "f + 1 \<le> int (BlockMaxParents L) - 1"
    and ps: "distinct ps" "LastMilestoneBlockID (State s) \<notin> set ps"
      "list_all (\<lambda>b. proposers s b \<noteq> {}) ps"
    and weight: "f < int (card (\<Union>b \<in> insert (LastMilestoneBlockID (State s)) (set ps). proposers s b))"
  shows "f < int (card (\<Union>b \<in> set (selectParents L s ps). proposers s b))"
proof (cases "length ps > BlockMaxParents L - 1")
  case False
  then have "set (selectParents L s ps) = insert (LastMilestoneBlockID (State s)) (set ps)"
    using dedup_facts(1) [OF d] by (simp add: selectParents_def)
  then show ?thesis using weight by simp
next
  case True
  let ?n = "BlockMaxParents L - 1"
  let ?qs = "take ?n (sort_by (parent_less (IssuerCountByParent s)) ps)"
  have sub: "set ?qs \<subseteq> set ps"
    by (metis set_sort_by set_take_subset)
  have q: "distinct ?qs" "length ?qs = ?n"
    using ps(1) True by auto
  have "set ?qs \<subseteq> set (selectParents L s ps)"
    using dedup_facts(1) [OF d] True by (auto simp: selectParents_def)
  then have "(\<Union>b \<in> set ?qs. proposers s b) \<subseteq> (\<Union>b \<in> set (selectParents L s ps). proposers s b)"
    by blast
  then have le: "card (\<Union>b \<in> set ?qs. proposers s b) \<le> card (\<Union>b \<in> set (selectParents L s ps). proposers s b)"
    by (intro card_mono) auto
  have "card (\<Union>b \<in> set ?qs. proposers s b) = (\<Sum>b \<in> set ?qs. card (proposers s b))"
    by (rule card_UN_disjoint) (auto simp: proposers_def)
  moreover have "(\<Sum>b \<in> set ?qs. 1) \<le> (\<Sum>b \<in> set ?qs. card (proposers s b))"
  proof (rule sum_mono)
    fix b assume "b \<in> set ?qs"
    then have "proposers s b \<noteq> {}" using sub ps(3) by (auto simp: list_all_iff)
    then show "1 \<le> card (proposers s b)"
      using finite_proposers [of s b] card_gt_0_iff [of "proposers s b"] by linarith
  qed
  moreover have "(\<Sum>b \<in> set ?qs. 1) = ?n"
    using q by (simp add: distinct_card)
  ultimately show ?thesis using le room by linarith
qed

text \<open>
  A block with more than \<open>f\<close> issuers is always selected, if so many issuers cannot be found for all
  the parents there is room for and one more.
\<close>

lemma selectParents_keeps:
  assumes d: "dedup_ok L" and t: "tally_inv s" and ps: "distinct ps" "b \<in> set ps"
    and heavy: "f < int (card (proposers s b))" and "0 \<le> f"
    and room: "int (card (fmdom' (ParentByIssuer s))) \<le> (f + 1) * (int (BlockMaxParents L) - 1)"
  shows "b \<in> set (selectParents L s ps)"
proof (cases "length ps > BlockMaxParents L - 1")
  case False
  then show ?thesis using dedup_facts(1) [OF d] ps(2) by (simp add: selectParents_def)
next
  case True
  let ?n = "BlockMaxParents L - 1"
  let ?xs = "sort_by (parent_less (IssuerCountByParent s)) ps"
  let ?w = "\<lambda>x. card (proposers s x)"
  have count: "map_get 0 (IssuerCountByParent s) x = int (?w x)" for x
    using t by (simp add: tally_inv_def)
  have sel: "set (take ?n ?xs) \<subseteq> set (selectParents L s ps)"
    using dedup_facts(1) [OF d] True by (auto simp: selectParents_def)
  show ?thesis
  proof (rule ccontr)
    assume "b \<notin> set (selectParents L s ps)"
    then have nb: "b \<notin> set (take ?n ?xs)" using sel by blast
    moreover have "set ?xs = set (take ?n ?xs) \<union> set (drop ?n ?xs)"
      by (metis append_take_drop_id set_append)
    ultimately have "b \<in> set (drop ?n ?xs)" using ps(2) by auto
    moreover have "sorted_wrt (parent_less (IssuerCountByParent s)) (take ?n ?xs @ drop ?n ?xs)"
      using parent_order.sorted_sort_by [of ps] ps(1) by simp
    ultimately have lt: "parent_less (IssuerCountByParent s) x b" if "x \<in> set (take ?n ?xs)" for x
      using that unfolding sorted_wrt_append by blast
    have "?w b \<le> ?w x" if "x \<in> set (take ?n ?xs)" for x
      using lt [OF that] by (simp add: parent_less_def Let_def count split: if_splits)
    then have ge: "?w b \<le> ?w x" if "x \<in> insert b (set (take ?n ?xs))" for x
      using that by blast
    have "card (set (take ?n ?xs)) = ?n"
      using ps(1) True by (simp add: distinct_card)
    then have "(?n + 1) * ?w b \<le> (\<Sum>x \<in> insert b (set (take ?n ?xs)). ?w x)"
      using sum_ge_card [of "insert b (set (take ?n ?xs))" "?w b" ?w] ge nb by simp
    also have "\<dots> = card (\<Union>x \<in> insert b (set (take ?n ?xs)). proposers s x)"
      by (rule card_UN_disjoint [symmetric]) (auto simp: proposers_def)
    also have "\<dots> \<le> card (fmdom' (ParentByIssuer s))"
      by (intro card_mono) (auto simp: proposers_def)
    finally have "int ?n * int (?w b) + int (?w b) \<le> (f + 1) * (int (BlockMaxParents L) - 1)"
      using room by (simp flip: of_nat_mult of_nat_add add: algebra_simps)
    moreover have "int (BlockMaxParents L) - 1 \<le> int ?n" by linarith
    then have "(f + 1) * (int (BlockMaxParents L) - 1) \<le> (f + 1) * int ?n"
      using \<open>0 \<le> f\<close> by (intro mult_left_mono) auto
    moreover have "(f + 1) * int ?n \<le> int (?w b) * int ?n"
      using heavy by (intro mult_right_mono) auto
    ultimately have "int ?n * int (?w b) + int (?w b) \<le> int (?w b) * int ?n" by linarith
    then show False using heavy \<open>0 \<le> f\<close> by (simp add: mult.commute)
  qed
qed

section \<open>EndBlock\<close>

text \<open>The milestones handed to the submitting goroutine, oldest first.\<close>

definition submitted :: "coordinator \<Rightarrow> milestone list" where
  "submitted c = concat (map (\<lambda>e. case e of GoSubmit ms \<Rightarrow> [ms] | _ \<Rightarrow> []) (effects c))"

lemma submitted_emit [simp]:
  "submitted (emit e c) = submitted c @ (case e of GoSubmit ms \<Rightarrow> [ms] | _ \<Rightarrow> [])"
  by (simp add: submitted_def)

lemma submitted_upd [simp]:
  "submitted (c\<lparr>checkState := s\<rparr>) = submitted c" "submitted (c\<lparr>deliverState := s\<rparr>) = submitted c"
  "submitted (c\<lparr>cms := i\<rparr>) = submitted c" "submitted (c\<lparr>broadcastQueue := q\<rparr>) = submitted c"
  "submitted (c\<lparr>started := b\<rparr>) = submitted c" "submitted (c\<lparr>stopped := b\<rparr>) = submitted c"
  "submitted (c\<lparr>cancelled := b\<rparr>) = submitted c"
  by (simp_all add: submitted_def)

lemma F_upd [simp]:
  "F (c\<lparr>checkState := s\<rparr>) = F c" "F (c\<lparr>deliverState := s\<rparr>) = F c" "F (c\<lparr>broadcastQueue := q\<rparr>) = F c"
  "T (c\<lparr>checkState := s\<rparr>) = T c" "T (c\<lparr>deliverState := s\<rparr>) = T c" "T (c\<lparr>broadcastQueue := q\<rparr>) = T c"
  by (simp_all add: F_def T_def)

text \<open>What no operation on blocks changes, and what in addition only \<open>Commit\<close> does.\<close>

definition base :: "coordinator \<Rightarrow> committee \<times> 64 word \<times> bool \<times> bool \<times> bool" where
  "base c = (coCommittee c, maxRetainBlocks c, started c, stopped c, cancelled c)"

definition frame :: "coordinator \<Rightarrow> coordinator \<Rightarrow> bool" where
  "frame c c' \<longleftrightarrow> base c' = base c \<and> checkState c' = checkState c \<and> cms c' = cms c \<and>
     broadcastQueue c' = broadcastQueue c \<and> submitted c' = submitted c"

lemma frame_refl [simp]: "frame c c" and frame_trans: "frame c d \<Longrightarrow> frame d e \<Longrightarrow> frame c e"
  by (simp_all add: frame_def)

lemma frame_upd [simp]: "frame c (d\<lparr>deliverState := s\<rparr>) = frame c d"
  by (simp add: frame_def base_def)

lemma base_emit [simp]: "base (emit e c) = base c"
  by (simp add: base_def)

lemma base_upd [simp]:
  "base (c\<lparr>checkState := s\<rparr>) = base c" "base (c\<lparr>deliverState := s\<rparr>) = base c"
  "base (c\<lparr>cms := i\<rparr>) = base c" "base (c\<lparr>broadcastQueue := q\<rparr>) = base c"
  by (simp_all add: base_def)

lemma baseD: "base c' = base c \<Longrightarrow> coCommittee c' = coCommittee c \<and> F c' = F c \<and> T c' = T c"
  by (simp add: base_def F_def T_def)

lemma frame_emit:
  "frame c (emit e c) \<longleftrightarrow> (case e of GoSubmit ms \<Rightarrow> False | _ \<Rightarrow> True)"
  by (simp add: frame_def split: effect.split)

definition newMilestone :: "'z iota_lib_scheme \<Rightarrow> 8 word \<Rightarrow> app_state \<Rightarrow> block_id list \<Rightarrow> byte32 \<Rightarrow> byte32 \<Rightarrow> milestone" where
  "newMilestone L v s parents incl appl =
     (NewMilestone (MilestoneIndex (State s)) (ucast (hdrTime (blockHeader s))) v
        (LastMilestoneID (State s)) parents incl appl)\<lparr>msMetadata := Metadata L (State s)\<rparr>"

text \<open>The parents a milestone would get, and the weight behind them.\<close>

definition candidates :: "int \<Rightarrow> app_state \<Rightarrow> block_id list \<Rightarrow> block_id list" where
  "candidates f s bs = filter (\<lambda>b. confirmed f s b \<and> b \<noteq> LastMilestoneBlockID (State s)) bs"

definition weight :: "int \<Rightarrow> app_state \<Rightarrow> block_id list \<Rightarrow> int" where
  "weight f s bs = (\<Sum>b \<leftarrow> filter (confirmed f s) bs. map_get 0 (IssuerCountByParent s) b)"

lemma createMilestoneEssence_Val:
  assumes "createMilestoneEssence L env ps c = Val u c'"
  shows "\<exists>incl appl. computeWhiteFlag env (MilestoneIndex (State (deliverState c)))
        (ucast (hdrTime (blockHeader (deliverState c)))) (selectParents L (deliverState c) ps)
        (LastMilestoneID (State (deliverState c))) = Some (bytes_of incl, bytes_of appl) \<and>
      c' = c\<lparr>deliverState := (deliverState c)\<lparr>Milestone :=
        Some (newMilestone L (protoVersion env) (deliverState c) (selectParents L (deliverState c) ps) incl appl)\<rparr>\<rparr>"
  using assms
  by (auto simp: createMilestoneEssence_def newMilestone_def Let_def go_simps
      split: option.splits prod.splits)

lemma awaitParents_Val:
  "awaitParents env ps processed c = Val u c' \<Longrightarrow> frame c c' \<and> deliverState c' = deliverState c"
proof (induction env ps processed c rule: awaitParents.induct)
  case (2 env p ps processed c)
  let ?b = "map_get zero32 (ParentByIssuer (deliverState c)) p"
  show ?case
  proof (cases "?b \<in> processed")
    case True
    then show ?thesis using 2 by simp
  next
    case False
    show ?thesis
    proof (cases "case fmlookup (ProofIssuersByBlockID (deliverState c)) ?b of None \<Rightarrow> False
        | Some proof \<Rightarrow> fmlookup proof (pubkey (privateKey (coCommittee c))) \<noteq> None")
      case True
      then show ?thesis using 2(2) [of ?b] 2(4) False by simp
    next
      case none: False
      then obtain c1 where c1: "registerProcessParentOnSolid env ?b (MilestoneIndex (State (deliverState c))) p c = Val () c1"
        "awaitParents env ps (insert ?b processed) c1 = Val u c'"
        using 2(4) False none by (simp add: Let_def go_simps) blast
      have "frame c c1 \<and> deliverState c1 = deliverState c"
        using c1(1) by (auto simp: registerProcessParentOnSolid_def frame_emit split: register_result.splits)
      moreover have "frame c1 c' \<and> deliverState c' = deliverState c1"
        using 2(3) [of ?b] c1(2) False none by simp
      ultimately show ?thesis using frame_trans by metis
    qed
  qed
qed simp

lemma EndBlock_Val:
  assumes "EndBlock L env bs ps c = Val u c'"
  shows "frame c c'"
    and "if Milestone (deliverState c) = None \<and> F c < weight (F c) (deliverState c) bs
      then (let sel = selectParents L (deliverState c) (candidates (F c) (deliverState c) bs) in
        \<exists>incl appl. computeWhiteFlag env (MilestoneIndex (State (deliverState c)))
          (ucast (hdrTime (blockHeader (deliverState c)))) sel
          (LastMilestoneID (State (deliverState c))) = Some (bytes_of incl, bytes_of appl) \<and>
        deliverState c' = (deliverState c)\<lparr>Milestone :=
          Some (newMilestone L (protoVersion env) (deliverState c) sel incl appl)\<rparr>)
      else deliverState c' = deliverState c"
proof -
  let ?s = "deliverState c"
  have cp: "collectParents (F c) ?s bs (0, []) = (weight (F c) ?s bs, candidates (F c) ?s bs)"
    by (simp add: collectParents_eq weight_def candidates_def)
  obtain u1 c1 where c1:
    "(if Milestone ?s = None
      then if F c < weight (F c) ?s bs
        then createMilestoneEssence L env (candidates (F c) ?s bs) (emit ClearCallbacks c) else Val () c
      else Val () c) = Val u1 c1"
    "(if Milestone (deliverState c1) = None then awaitParents env ps {} c1 else Val () c1) = Val u c'"
    using assms unfolding EndBlock_def go_simps cp by (auto split: prod.splits)
  have 2: "frame c1 c' \<and> deliverState c' = deliverState c1"
    using c1(2) awaitParents_Val by (auto split: if_splits)
  have "frame c c1 \<and> (if Milestone ?s = None \<and> F c < weight (F c) ?s bs
      then (let sel = selectParents L ?s (candidates (F c) ?s bs) in
        \<exists>incl appl. computeWhiteFlag env (MilestoneIndex (State ?s))
          (ucast (hdrTime (blockHeader ?s))) sel (LastMilestoneID (State ?s)) = Some (bytes_of incl, bytes_of appl) \<and>
        deliverState c1 = ?s\<lparr>Milestone := Some (newMilestone L (protoVersion env) ?s sel incl appl)\<rparr>)
      else deliverState c1 = ?s)"
  proof (cases "Milestone ?s = None \<and> F c < weight (F c) ?s bs")
    case True
    then have "createMilestoneEssence L env (candidates (F c) ?s bs) (emit ClearCallbacks c) = Val u1 c1"
      using c1(1) by simp
    from createMilestoneEssence_Val [OF this] show ?thesis
      using True by (auto simp: frame_emit Let_def bytes_of_inject)
  next
    case False
    then show ?thesis using c1(1) by (auto split: if_splits)
  qed
  with 2 show "frame c c'"
    and "if Milestone ?s = None \<and> F c < weight (F c) ?s bs
      then (let sel = selectParents L ?s (candidates (F c) ?s bs) in
        \<exists>incl appl. computeWhiteFlag env (MilestoneIndex (State ?s))
          (ucast (hdrTime (blockHeader ?s))) sel (LastMilestoneID (State ?s)) = Some (bytes_of incl, bytes_of appl) \<and>
        deliverState c' = ?s\<lparr>Milestone := Some (newMilestone L (protoVersion env) ?s sel incl appl)\<rparr>)
      else deliverState c' = ?s"
    using frame_trans by (blast, simp)
qed

section \<open>Commit\<close>

definition sortedSignatures :: "'z iota_lib_scheme \<Rightarrow> peer_id list \<Rightarrow> app_state \<Rightarrow> ed25519_signature list" where
  "sortedSignatures L ks s = sort_by (sig_less L) (map (\<lambda>k. the (fmlookup (SignaturesByIssuer s) k)) ks)"

lemma broadcastPartial_Val:
  "broadcastPartial L ms c = Val u c' \<Longrightarrow> \<exists>tx. c' = c\<lparr>broadcastQueue := Queue_Submit KPartial tx (broadcastQueue c)\<rparr>"
  unfolding broadcastPartial_def go_simps by (elim exE conjE) (simp split: sum.splits, blast+)

lemma completeMilestone_Val:
  assumes "completeMilestone L ks ms c = Val u c'"
  shows "\<exists>i b. let s = deliverState c; ms' = ms\<lparr>msSignatures := sortedSignatures L ks s\<rparr>;
      st = \<lparr>MilestoneHeight = hdrHeight (blockHeader s), MilestoneIndex = MilestoneIndex (State s) + 1,
            LastMilestoneID = i, LastMilestoneBlockID = b\<rparr> in
    ms_MustID L ms' = Ret i \<and> MilestoneBlockID L ms' = Ret b \<and>
    deliverState c' = Reset st s \<and> submitted c' = submitted c @ [ms'] \<and>
    base c' = base c \<and> checkState c' = checkState c \<and> cms c' = cms c \<and> broadcastQueue c' = broadcastQueue c"
  using assms
  by (auto simp: completeMilestone_def sortedSignatures_def Let_def go_simps Reset_def)

text \<open>The state with which \<open>Commit\<close> goes on, in the two cases.\<close>

definition completes :: "coordinator \<Rightarrow> milestone \<Rightarrow> bool" where
  "completes c ms \<longleftrightarrow>
     Milestone (deliverState c) = Some ms \<and> T c \<le> map_len (SignaturesByIssuer (deliverState c))"

lemma copyState_Val:
  assumes "json_ok L" and "copyState L c = Val u c'"
  shows "\<exists>s. c' = c\<lparr>checkState := s\<rparr> \<and> app_data.truncate s = app_data.truncate (deliverState c)"
proof -
  obtain s where s: "Copy L (checkState c) (deliverState c) = Val () s"
    "app_data.truncate s = app_data.truncate (deliverState c)"
    using Copy_Val [OF assms(1), of "checkState c" "deliverState c"] by blast
  then show ?thesis using assms(2) by (auto simp: copyState_def)
qed

lemma commitState_Val:
  "commitState L c = Val u c' \<Longrightarrow> \<exists>h. Hash L (deliverState c) = Ret h \<and>
     c' = c\<lparr>cms := \<lparr>Height = hdrHeight (blockHeader (deliverState c)), CommitHash = h\<rparr>\<rparr>"
  by (auto simp: commitState_def CommitStore_Commit_def go_simps)

text \<open>What a commit does to the state being delivered and to the milestones handed to the node: a
  milestone whose signatures are complete is finished and the round reset, otherwise nothing moves.\<close>
abbreviation commits_milestone where
  "commits_milestone L ks c c' \<equiv> (if \<exists>ms. completes c ms
    then \<exists>ms i b. completes c ms \<and>
      (let s = deliverState c; ms' = ms\<lparr>msSignatures := sortedSignatures L ks s\<rparr> in
        ms_MustID L ms' = Ret i \<and> MilestoneBlockID L ms' = Ret b \<and>
        deliverState c' = Reset \<lparr>MilestoneHeight = hdrHeight (blockHeader s),
          MilestoneIndex = MilestoneIndex (State s) + 1, LastMilestoneID = i, LastMilestoneBlockID = b\<rparr> s \<and>
        submitted c' = submitted c @ [ms'])
    else deliverState c' = deliverState c \<and> submitted c' = submitted c)"

text \<open>The first two stages of a commit: the own signature is broadcast, then the milestone completed.\<close>
lemma Commit_stages:
  assumes sign: "(case Milestone (deliverState c) of None \<Rightarrow> Val () c
       | Some ms \<Rightarrow> if map_len (SignaturesByIssuer (deliverState c)) < T c
           then if fmlookup (SignaturesByIssuer (deliverState c)) (pubkey (privateKey (coCommittee c))) = None
             then broadcastPartial L ms c else Val () c
           else Val () c) = Val () c1"
    and complete: "(case Milestone (deliverState c1) of None \<Rightarrow> Val () c1
       | Some ms \<Rightarrow> if T c1 \<le> map_len (SignaturesByIssuer (deliverState c1))
           then completeMilestone L ks ms c1 else Val () c1) = Val () c2"
  shows "base c2 = base c \<and> commits_milestone L ks c c2"
proof -
  have c1: "deliverState c1 = deliverState c \<and> base c1 = base c \<and> submitted c1 = submitted c"
    using sign by (auto dest!: broadcastPartial_Val split: option.splits if_splits)
  note b1 = baseD [OF conjunct1 [OF conjunct2 [OF c1]]]
  show ?thesis
  proof (cases "\<exists>ms. completes c ms")
    case True
    then obtain ms where ms: "completes c ms" by blast
    then have "completeMilestone L ks ms c1 = Val () c2"
      using complete c1 b1 by (auto simp: completes_def)
    from completeMilestone_Val [OF this] show ?thesis
      using ms c1 by (auto simp: Let_def)
  next
    case False
    then have "c2 = c1"
      using complete c1 b1 by (auto simp: completes_def split: option.splits if_splits)
    then show ?thesis using False c1 by simp
  qed
qed

lemma Commit_Val:
  assumes "json_ok L" and "Commit L ks c = Val r c'"
  shows "base c' = base c"
    and "app_data.truncate (checkState c') = app_data.truncate (deliverState c')"
    and "\<exists>h. Hash L (deliverState c') = Ret h \<and>
      cms c' = \<lparr>Height = hdrHeight (blockHeader (deliverState c)), CommitHash = h\<rparr> \<and>
      r = \<lparr>CommitData = h, RetainHeight = retainHeight (maxRetainBlocks c) (hdrHeight (blockHeader (deliverState c)))\<rparr>"
    and "commits_milestone L ks c c'"
proof -
  obtain c1 c2 c3 where
    1: "(case Milestone (deliverState c) of None \<Rightarrow> Val () c
       | Some ms \<Rightarrow> if map_len (SignaturesByIssuer (deliverState c)) < T c
           then if fmlookup (SignaturesByIssuer (deliverState c)) (pubkey (privateKey (coCommittee c))) = None
             then broadcastPartial L ms c else Val () c
           else Val () c) = Val () c1" and
    2: "(case Milestone (deliverState c1) of None \<Rightarrow> Val () c1
       | Some ms \<Rightarrow> if T c1 \<le> map_len (SignaturesByIssuer (deliverState c1))
           then completeMilestone L ks ms c1 else Val () c1) = Val () c2" and
    3: "copyState L c2 = Val () c3" and
    4: "commitState L c3 = Val () c'" and
    5: "r = \<lparr>CommitData = CommitHash (cms c'),
          RetainHeight = retainHeight (maxRetainBlocks c) (hdrHeight (blockHeader (deliverState c)))\<rparr>"
    using assms(2) by (auto simp: Commit_def Let_def go_simps LastCommitInfo_def cong: option.case_cong if_cong)
  note c2 = Commit_stages [OF 1 2]
  obtain s where s: "c3 = c2\<lparr>checkState := s\<rparr>" "app_data.truncate s = app_data.truncate (deliverState c2)"
    using copyState_Val [OF assms(1) 3] by blast
  obtain h where h: "Hash L (deliverState c3) = Ret h"
    "c' = c3\<lparr>cms := \<lparr>Height = hdrHeight (blockHeader (deliverState c3)), CommitHash = h\<rparr>\<rparr>"
    using commitState_Val [OF 4] by blast
  have d: "deliverState c' = deliverState c2" "submitted c' = submitted c2" "base c' = base c2"
    "checkState c' = s"
    using s h by simp_all
  show "base c' = base c" using d c2 by simp
  show "app_data.truncate (checkState c') = app_data.truncate (deliverState c')" using d s by simp
  show "commits_milestone L ks c c'"
    using c2 unfolding d by blast
  have "blockHeader (deliverState c2) = blockHeader (deliverState c)"
    using c2 by (auto simp: Let_def split: if_splits)
  then show "\<exists>h. Hash L (deliverState c') = Ret h \<and>
      cms c' = \<lparr>Height = hdrHeight (blockHeader (deliverState c)), CommitHash = h\<rparr> \<and>
      r = \<lparr>CommitData = h, RetainHeight = retainHeight (maxRetainBlocks c) (hdrHeight (blockHeader (deliverState c)))\<rparr>"
    using h s 5 by simp
qed

end
