(* ===== verification/Lifecycle.thy ===== *)
theory Lifecycle
  imports AppFacts
begin

text \<open>
  The operations of \<open>pkg/decoo/coordinator.go\<close> around the ABCI application: construction,
  bootstrapping and resuming, starting, proposing a parent, and the callback of the broadcast
  queue.
\<close>

datatype coo_error =
  ErrTooManyValidators | ErrNotStarted | ErrInvalidParent
| ErrRetrieveLatest | ErrIncompatibleIndex | ErrIncompatibleID | ErrIncompatibleBlockID
| ErrMetadata metadata_error | ErrWaitIndex | ErrQueryMetadata | ErrBroadcast | ErrBroadcastCode "32 word"

section \<open>Construction\<close>

text \<open>The zero value of an \<open>AppState\<close>; its nil maps are shown as empty ones.\<close>

definition zero_state :: app_state where
  "zero_state =
     \<lparr>State = \<lparr>MilestoneHeight = 0, MilestoneIndex = 0, LastMilestoneID = zero32,
               LastMilestoneBlockID = zero32\<rparr>,
      ParentByIssuer = fmempty, IssuerCountByParent = fmempty, ProofIssuersByBlockID = fmempty,
      Milestone = None, SignaturesByIssuer = fmempty, blockHeader = \<lparr>hdrHeight = 0, hdrTime = 0\<rparr>\<rparr>"

definition New :: "'z iota_lib_scheme \<Rightarrow> committee \<Rightarrow> 64 word \<Rightarrow> coo_error + coordinator" where
  "New L com retainBlocks =
     (if com_f com + 1 > int (BlockMaxParents L) - 1 then Inl ErrTooManyValidators
      else if com_n com > MaxSignaturesInAMilestone L then Inl ErrTooManyValidators
      else Inr \<lparr>coCommittee = com, maxRetainBlocks = retainBlocks,
                checkState = zero_state, deliverState = zero_state,
                cms = \<lparr>Height = 0, CommitHash = []\<rparr>,
                started = False, stopped = False, cancelled = False,
                broadcastQueue = Queue_New RetryInterval, effects = []\<rparr>)"

section \<open>Bootstrap and resume\<close>

definition initState :: "'z app_lib_scheme \<Rightarrow> 64 word \<Rightarrow> state \<Rightarrow> coordinator \<Rightarrow> unit coo" where
  "initState L height st c =
     (let c1 = c\<lparr>checkState := Reset st (checkState c), deliverState := Reset st (deliverState c)\<rparr>
      in exec_bind (lift_go (Hash L (deliverState c1)) c1) (\<lambda>h c.
           Val () (c\<lparr>cms := \<lparr>Height = height, CommitHash = h\<rparr>\<rparr>)))"

text \<open>The latest milestone of the node must be the one before \<open>index\<close>; none at all is fine.\<close>

definition validateLatest ::
    "'z iota_lib_scheme \<Rightarrow> inx \<Rightarrow> 32 word \<Rightarrow> milestone_id \<Rightarrow> block_id \<Rightarrow> coo_error option go" where
  "validateLatest L env index milestoneID milestoneBlockID =
     (case inxLatestMilestone env of
        None \<Rightarrow> Ret (Some ErrRetrieveLatest)
      | Some None \<Rightarrow> Ret None
      | Some (Some latest) \<Rightarrow>
          if msIndex latest \<noteq> index - 1 then Ret (Some ErrIncompatibleIndex)
          else go_bind (ms_MustID L latest) (\<lambda>i.
            if i \<noteq> milestoneID then Ret (Some ErrIncompatibleID)
            else go_bind (MilestoneBlockID L latest) (\<lambda>b.
              if b \<noteq> milestoneBlockID then Ret (Some ErrIncompatibleBlockID) else Ret None)))"

definition Bootstrap ::
    "'z app_lib_scheme \<Rightarrow> inx \<Rightarrow> bool \<Rightarrow> 32 word \<Rightarrow> milestone_id \<Rightarrow> block_id \<Rightarrow> coordinator
     \<Rightarrow> coo_error option coo" where
  "Bootstrap L env force index milestoneID milestoneBlockID c =
     exec_bind
       (if force then Val None c
        else lift_go (validateLatest L env index milestoneID milestoneBlockID) c) (\<lambda>err c.
       case err of
         Some e \<Rightarrow> Val (Some e) c
       | None \<Rightarrow>
           exec_bind
             (initState L 0 \<lparr>MilestoneHeight = 0, MilestoneIndex = index,
                LastMilestoneID = milestoneID, LastMilestoneBlockID = milestoneBlockID\<rparr> c)
             (\<lambda>_ c. Val None c))"

definition InitState :: "'z app_lib_scheme \<Rightarrow> milestone \<Rightarrow> coordinator \<Rightarrow> coo_error option coo" where
  "InitState L ms c =
     (case NewStateFromMilestone L ms of
        Inl e \<Rightarrow> Val (Some (ErrMetadata e)) c
      | Inr st \<Rightarrow> exec_bind (initState L (MilestoneHeight st) st c) (\<lambda>_ c. Val None c))"

section \<open>Running\<close>

definition Start :: "coordinator \<Rightarrow> unit coo" where
  "Start c = Val () (c\<lparr>started := True\<rparr>)"

definition Coordinator_PublicKey :: "coordinator \<Rightarrow> bytes" where
  "Coordinator_PublicKey c = PublicKey (coCommittee c)"

definition Coordinator_MilestoneIndex :: "coordinator \<Rightarrow> 32 word" where
  "Coordinator_MilestoneIndex c = MilestoneIndex (State (checkState c))"

definition registerStateMilestoneIndexEvent :: "32 word \<Rightarrow> coordinator \<Rightarrow> coordinator" where
  "registerStateMilestoneIndexEvent index c =
     (let c1 = emit (Listen index) c
      in if index \<le> Coordinator_MilestoneIndex c1 then emit (Notify index) c1 else c1)"

definition ProposeParent ::
    "'z tx_lib_scheme \<Rightarrow> inx \<Rightarrow> 32 word \<Rightarrow> block_id \<Rightarrow> coordinator \<Rightarrow> coo_error option coo" where
  "ProposeParent L env index b c =
     (if \<not> started c then Val (Some ErrNotStarted) c
      else (case MarshalTx L (coCommittee c) (Parent index b) of
              Inl e \<Rightarrow> Raise ''marshalling the transaction failed'' c
            | Inr tx \<Rightarrow>
                let c1 = registerStateMilestoneIndexEvent index c
                in if \<not> waitForIndex env index then Val (Some ErrWaitIndex) c1
                   else (case blockMetadata env b of
                           None \<Rightarrow> Val (Some ErrQueryMetadata) c1
                         | Some meta \<Rightarrow>
                             if \<not> ValidParent meta then Val (Some ErrInvalidParent) c1
                             else let c2 = emit (BroadcastTxSync tx) c1
                                  in case broadcastTxSync env tx of
                                       None \<Rightarrow> Val (Some ErrBroadcast) c2
                                     | Some code \<Rightarrow>
                                         if code \<noteq> CodeTypeOK then Val (Some (ErrBroadcastCode code)) c2
                                         else Val None c2)))"

text \<open>
  The callback of the broadcast queue. Only an error of the client is an error: a transaction
  that did not pass \<open>CheckTx\<close> counts as sent.
\<close>

definition broadcastTx :: "inx \<Rightarrow> bytes \<Rightarrow> coordinator \<Rightarrow> coo_error option coo" where
  "broadcastTx env tx c =
     (if \<not> started c then Val (Some ErrNotStarted) c
      else let c1 = emit (BroadcastTxSync tx) c
           in case broadcastTxSync env tx of
                None \<Rightarrow> Val (Some ErrBroadcast) c1
              | Some code \<Rightarrow> Val None c1)"

section \<open>Facts\<close>

lemma initState_Val:
  assumes "initState L h st c = Val u c'"
  shows "deliverState c' = Reset st (deliverState c)" and "checkState c' = Reset st (checkState c)"
    and "Height (cms c') = h" and "Hash L (Reset st (deliverState c)) = Ret (CommitHash (cms c'))"
    and "base c' = base c" and "submitted c' = submitted c" and "broadcastQueue c' = broadcastQueue c"
  using assms by (auto simp: initState_def Let_def go_simps)

lemma initState_total:
  assumes "json_ok L"
  shows "\<exists>c'. initState L h st c = Val () c'"
proof -
  obtain x where "Hash L (Reset st (deliverState c)) = Ret x" using Hash_Ret [OF assms] by blast
  then show ?thesis by (simp add: initState_def Let_def)
qed

lemma truncate_Reset: "app_data.truncate (Reset st a) = app_data.truncate (Reset st b)"
  by (simp add: truncate_eq_iff)

lemma New_Inr_iff:
  "New L com m = Inr c \<longleftrightarrow>
     com_f com + 1 \<le> int (BlockMaxParents L) - 1 \<and> com_n com \<le> MaxSignaturesInAMilestone L \<and>
     c = \<lparr>coCommittee = com, maxRetainBlocks = m, checkState = zero_state, deliverState = zero_state,
          cms = \<lparr>Height = 0, CommitHash = []\<rparr>, started = False, stopped = False, cancelled = False,
          broadcastQueue = Queue_New RetryInterval, effects = []\<rparr>"
  by (auto simp: New_def)

lemma Bootstrap_None:
  assumes "Bootstrap L env force index mid bid c = Val None c'"
  shows "initState L 0 \<lparr>MilestoneHeight = 0, MilestoneIndex = index, LastMilestoneID = mid,
      LastMilestoneBlockID = bid\<rparr> c = Val () c'"
  using assms by (auto simp: Bootstrap_def go_simps split: if_splits option.splits)

lemma InitState_None:
  assumes "InitState L ms c = Val None c'"
  shows "\<exists>st. NewStateFromMilestone L ms = Inr st \<and> initState L (MilestoneHeight st) st c = Val () c'"
  using assms by (auto simp: InitState_def go_simps split: sum.splits)

end
