(* ===== verification/System.thy ===== *)
theory System
  imports Lifecycle
begin

text \<open>
  Runs of a coordinator. Tendermint delivers the same consensus calls in the same order to every
  replica; between them a replica makes local steps, in any order: transactions to its mempool,
  callbacks of solid blocks, proposals, submissions, and the steps of its broadcast queue. A run
  is a sequence of operations that return; the order in which maps are ranged over and the
  answers of the node are arbitrary at every step.
\<close>

section \<open>Steps\<close>

datatype call = BeginBlockC header | DeliverTxC bytes | EndBlockC | CommitC

text \<open>
  What replicas share outside the coordinator: when the node of a replica answers, the white flag
  of the same arguments is the same (\<open>flag\<close>), and so is the protocol version (\<open>ver\<close>).
\<close>

definition answers ::
    "(32 word \<Rightarrow> 32 word \<Rightarrow> block_id list \<Rightarrow> milestone_id \<Rightarrow> bytes \<times> bytes) \<Rightarrow> 8 word \<Rightarrow> inx \<Rightarrow> bool" where
  "answers flag ver env \<longleftrightarrow>
     protoVersion env = ver \<and>
     (\<forall>i ts ps m r. computeWhiteFlag env i ts ps m = Some r \<longrightarrow> r = flag i ts ps m)"

inductive abci_step for L flag ver where
  beginb: "BeginBlock h c = Val u c' \<Longrightarrow> abci_step L flag ver c (BeginBlockC h) c'"
| deliver: "DeliverTx L tx c = Val r c' \<Longrightarrow> abci_step L flag ver c (DeliverTxC tx) c'"
| endb: "EndBlock L env bs ps c = Val u c' \<Longrightarrow> answers flag ver env \<Longrightarrow>
    enumerates bs (ProofIssuersByBlockID (deliverState c)) \<Longrightarrow>
    enumerates ps (ParentByIssuer (deliverState c)) \<Longrightarrow> abci_step L flag ver c EndBlockC c'"
| commit: "Commit L ks c = Val r c' \<Longrightarrow>
    enumerates ks (SignaturesByIssuer (deliverState c)) \<Longrightarrow> abci_step L flag ver c CommitC c'"

inductive local_step for L where
  check: "CheckTx L tx c = Val r c' \<Longrightarrow> local_step L c c'"
| solid: "processParent L i p meta c = Val u c' \<Longrightarrow> local_step L c c'"
| propose: "ProposeParent L env i b c = Val r c' \<Longrightarrow> local_step L c c'"
| submit: "submitRoutine L env ms c = Val u c' \<Longrightarrow> local_step L c c'"
| broadcast: "broadcastTx env tx c = Val r c' \<Longrightarrow> local_step L c c'"
| queue: "queue_step (broadcastQueue c) e q \<Longrightarrow> local_step L c (c\<lparr>broadcastQueue := q\<rparr>)"
| start: "Start c = Val u c' \<Longrightarrow> local_step L c c'"
| stop: "Stop c = Val u c' \<Longrightarrow> local_step L c c'"

text \<open>\<open>run L flag ver c ks c'\<close>: from \<open>c\<close>, the calls \<open>ks\<close> with local steps between lead to \<open>c'\<close>.\<close>

inductive run for L flag ver where
  nocall: "run L flag ver c [] c"
| loc: "run L flag ver c ks c' \<Longrightarrow> local_step L c' c'' \<Longrightarrow> run L flag ver c ks c''"
| call: "run L flag ver c ks c' \<Longrightarrow> abci_step L flag ver c' k c'' \<Longrightarrow> run L flag ver c (ks @ [k]) c''"

inductive_cases abci_step_BeginE: "abci_step L flag ver c (BeginBlockC h) c'"
inductive_cases abci_step_DeliverE: "abci_step L flag ver c (DeliverTxC tx) c'"
inductive_cases abci_step_EndE: "abci_step L flag ver c EndBlockC c'"
inductive_cases abci_step_CommitE: "abci_step L flag ver c CommitC c'"

text \<open>A coordinator that has been made by \<open>New\<close> and then bootstrapped or resumed.\<close>

inductive ready for L where
  bootstrapped: "New L com m = Inr c \<Longrightarrow> Bootstrap L env force index mid bid c = Val None c' \<Longrightarrow> ready L c'"
| resumed: "New L com m = Inr c \<Longrightarrow> InitState L ms c = Val None c' \<Longrightarrow> ready L c'"

section \<open>Local steps\<close>

text \<open>The part of a coordinator that only consensus calls change.\<close>

definition replicated :: "coordinator \<Rightarrow> committee \<times> app_state \<times> commit_info \<times> milestone list" where
  "replicated c = (coCommittee c, deliverState c, cms c, submitted c)"

lemma replicated_emit:
  "replicated (emit e c) = replicated c \<longleftrightarrow> (case e of GoSubmit ms \<Rightarrow> False | _ \<Rightarrow> True)"
  by (simp add: replicated_def split: effect.split)

lemma replicated_upd [simp]:
  "replicated (c\<lparr>checkState := s\<rparr>) = replicated c" "replicated (c\<lparr>broadcastQueue := q\<rparr>) = replicated c"
  "replicated (c\<lparr>started := b\<rparr>) = replicated c" "replicated (c\<lparr>stopped := b\<rparr>) = replicated c"
  "replicated (c\<lparr>cancelled := b\<rparr>) = replicated c"
  by (simp_all add: replicated_def)

lemma submitMilestoneBlock_Val:
  "submitMilestoneBlock L env ms c = Val r c' \<Longrightarrow> replicated c' = replicated c \<and> checkState c' = checkState c"
  by (auto simp: submitMilestoneBlock_def Let_def go_simps replicated_emit
      split: if_splits option.splits)

lemma ProposeParent_Val:
  "ProposeParent L env i b c = Val r c' \<Longrightarrow> replicated c' = replicated c \<and> checkState c' = checkState c"
  by (auto simp: ProposeParent_def registerStateMilestoneIndexEvent_def Let_def replicated_def
      split: if_splits option.splits sum.splits)

lemma local_step_replicated:
  assumes "local_step L c c'"
  shows "replicated c' = replicated c"
  using assms
proof cases
  case (check tx r)
  then show ?thesis using check_tx.handler_Val by (metis replicated_upd(1))
next
  case (submit env ms u)
  then obtain e c1 where "submitMilestoneBlock L env ms c = Val e c1" "c' = c1"
    by (auto simp: submitRoutine_def go_simps split: option.splits)
  then show ?thesis using submitMilestoneBlock_Val by blast
qed (auto simp: processParent_def broadcastTx_def Start_def Stop_def Let_def replicated_emit
    dest: ProposeParent_Val split: if_splits sum.splits option.splits go.splits)

lemma local_step_checkState:
  assumes "local_step L c c'"
  shows "checkState c' = checkState c \<or> (\<exists>tx r. CheckTx L tx c = Val r c')"
  using assms
proof cases
  case (submit env ms u)
  then obtain e c1 where "submitMilestoneBlock L env ms c = Val e c1" "c' = c1"
    by (auto simp: submitRoutine_def go_simps split: option.splits)
  then show ?thesis using submitMilestoneBlock_Val by blast
qed (auto simp: processParent_def broadcastTx_def Start_def Stop_def Let_def
    dest: ProposeParent_Val split: if_splits sum.splits option.splits go.splits)

end
