(* ===== verification/Invariants.thy ===== *)
theory Invariants
  imports System
begin

text \<open>
  The invariant of a run: both states are tallies of votes of committee members, the milestone
  under construction is the one its votes determine, and the milestones handed over for
  submission are completely signed and form a chain that ends in the current state.
\<close>

section \<open>Definitions\<close>

text \<open>A milestone carries the coordinator state \<open>st\<close>.\<close>

definition carries :: "'z iota_lib_scheme \<Rightarrow> state \<Rightarrow> milestone \<Rightarrow> bool" where
  "carries L st ms \<longleftrightarrow>
     msIndex ms = MilestoneIndex st \<and> msPreviousMilestoneID ms = LastMilestoneID st \<and>
     msMetadata ms = Metadata L st \<and> LastMilestoneBlockID st \<in> set (msParents ms)"

text \<open>Distinct sorted parents in the limits of the protocol.\<close>

definition parents_ok :: "'z iota_lib_scheme \<Rightarrow> milestone \<Rightarrow> bool" where
  "parents_ok L ms \<longleftrightarrow> sorted_wrt (<) (msParents ms) \<and> length (msParents ms) \<le> BlockMaxParents L"

text \<open>
  The parents are backed by the votes: all but the last milestone block have a proof of more than
  \<open>f\<close> members, and more than \<open>f\<close> members proposed one of the parents.
\<close>

definition backed :: "int \<Rightarrow> app_state \<Rightarrow> milestone \<Rightarrow> bool" where
  "backed f s ms \<longleftrightarrow>
     (\<forall>b \<in> set (msParents ms). b = LastMilestoneBlockID (State s) \<or> f < int (card (provers s b))) \<and>
     f < int (card (\<Union>b \<in> set (msParents ms). proposers s b))"

definition milestone_inv :: "'z iota_lib_scheme \<Rightarrow> int \<Rightarrow> app_state \<Rightarrow> bool" where
  "milestone_inv L f s \<longleftrightarrow>
     (case Milestone s of
        None \<Rightarrow> True
      | Some ms \<Rightarrow> carries L (State s) ms \<and> parents_ok L ms \<and> backed f s ms \<and> msSignatures ms = [])"

definition state_ok :: "'z app_lib_scheme \<Rightarrow> committee \<Rightarrow> app_state \<Rightarrow> bool" where
  "state_ok L com s \<longleftrightarrow>
     app_inv L (Members com (MilestoneIndex (State s))) s \<and> milestone_inv L (com_f com) s"

text \<open>A quorum of valid signatures of members, one per key, in the order of the library.\<close>

definition signed :: "'z iota_lib_scheme \<Rightarrow> committee \<Rightarrow> milestone \<Rightarrow> bool" where
  "signed L com ms \<longleftrightarrow>
     com_t com \<le> int (length (msSignatures ms)) \<and> distinct (map sigPublicKey (msSignatures ms)) \<and>
     sorted_wrt (sig_less L) (msSignatures ms) \<and>
     (\<forall>sg \<in> set (msSignatures ms). sigPublicKey sg \<in> Members com (msIndex ms) \<and>
        length (sigSignature sg) = 64 \<and>
        (\<exists>es. essence_of L ms = Some es \<and> verify_raw L (sigPublicKey sg) es (sigSignature sg)))"

lemma signed_signers: "signed L com ms \<Longrightarrow> com_t com \<le> int (card (sigPublicKey ` set (msSignatures ms)))"
  using distinct_card [of "map sigPublicKey (msSignatures ms)"] by (simp add: signed_def)

text \<open>The state after the milestone \<open>ms\<close>, and the chain of milestones.\<close>

definition follows :: "'z iota_lib_scheme \<Rightarrow> milestone \<Rightarrow> state \<Rightarrow> bool" where
  "follows L ms st \<longleftrightarrow>
     MilestoneIndex st = msIndex ms + 1 \<and> ms_MustID L ms = Ret (LastMilestoneID st) \<and>
     MilestoneBlockID L ms = Ret (LastMilestoneBlockID st)"

definition chained :: "'z iota_lib_scheme \<Rightarrow> milestone \<Rightarrow> milestone \<Rightarrow> bool" where
  "chained L ms ms' \<longleftrightarrow> (\<exists>st. follows L ms st \<and> carries L st ms')"

definition chain_inv :: "'z iota_lib_scheme \<Rightarrow> coordinator \<Rightarrow> bool" where
  "chain_inv L c \<longleftrightarrow>
     successively (chained L) (submitted c) \<and>
     (submitted c \<noteq> [] \<longrightarrow> follows L (last (submitted c)) (State (deliverState c))) \<and>
     (\<forall>ms \<in> set (submitted c). parents_ok L ms \<and> signed L (coCommittee c) ms \<and> (\<exists>st. carries L st ms))"

definition coo_inv :: "'z app_lib_scheme \<Rightarrow> coordinator \<Rightarrow> bool" where
  "coo_inv L c \<longleftrightarrow>
     com_f (coCommittee c) + 1 \<le> int (BlockMaxParents L) - 1 \<and>
     state_ok L (coCommittee c) (checkState c) \<and> state_ok L (coCommittee c) (deliverState c) \<and>
     chain_inv L c"

text \<open>The laws of the libraries that the invariant needs.\<close>

definition lib_ok :: "'z tx_lib_scheme \<Rightarrow> bool" where
  "lib_ok L \<longleftrightarrow> json_ok L \<and> dedup_ok L \<and> sig_order_ok L \<and> essence_ok L \<and> 0 < BlockMaxParents L"

lemma toy_lib_ok: "lib_ok (toy_tx m)"
  by (simp add: lib_ok_def toy_tx_fields toy_tx_ok)

section \<open>Preservation by the operations\<close>

lemma state_ok_truncate:
  assumes "app_data.truncate a = app_data.truncate b"
  shows "state_ok L com a = state_ok L com b"
proof -
  have t: "proposers a c = proposers b c" "provers a c = provers b c" "State a = State b"
    "Milestone a = Milestone b" for c
    using assms by (simp_all add: truncate_eq_iff proposers_def provers_def)
  have "app_inv L M a = app_inv L M b" for M
    using app_inv_truncate [of L M a] app_inv_truncate [of L M b] assms by simp
  then show ?thesis
    by (simp add: state_ok_def milestone_inv_def backed_def t cong: option.case_cong)
qed

lemma state_ok_Reset [simp]: "state_ok L com (Reset st a)"
  by (simp add: state_ok_def milestone_inv_def app_inv_Reset)

lemma state_ok_header [simp]: "state_ok L com (s\<lparr>blockHeader := h\<rparr>) = state_ok L com s"
  by (rule state_ok_truncate) simp

lemma Apply_milestone_inv:
  assumes "Apply L t (bytes_of p) s = Ret (None, s')" and "milestone_inv L f s"
  shows "milestone_inv L f s'"
proof (cases "Milestone s")
  case None
  then show ?thesis using txs.ap_frame [OF assms(1)] by (simp add: milestone_inv_def)
next
  case (Some ms)
  then obtain sig where "t = PartialSignature sig"
    using assms(1) by (cases t) (auto simp: Apply_Ret_None)
  then obtain g where "s' = s\<lparr>SignaturesByIssuer := g\<rparr>"
    using assms(1) by (auto simp: Apply_Ret_None)
  then show ?thesis using assms(2) by (simp add: milestone_inv_def backed_def split: option.splits)
qed

lemma handleTx_state_ok:
  assumes "handleTx L com tx s = Ret (r, s')" and "state_ok L com s"
  shows "state_ok L com s' \<and> State s' = State s"
  using handleTx_Ret [OF assms(1)]
proof (elim disjE exE conjE)
  assume "s' = s"
  then show ?thesis using assms(2) by simp
next
  fix t p
  assume p: "p \<in> Members com (MilestoneIndex (State s))" and a: "Apply L t (bytes_of p) s = Ret (None, s')"
  then show ?thesis
    using txs.ap_inv [OF a p] txs.ap_frame [OF a] Apply_milestone_inv [OF a] assms(2)
    by (simp add: state_ok_def)
qed

lemma weight_card:
  assumes "tally_inv s" and "enumerates bs (ProofIssuersByBlockID s)"
  shows "weight f s bs = int (card (\<Union>b \<in> set (filter (confirmed f s) bs). proposers s b))"
  using assms by (simp add: weight_def weight_eq enumerates_def)

text \<open>The milestone that \<open>EndBlock\<close> creates satisfies the invariant.\<close>

lemma newMilestone_inv:
  assumes L: "lib_ok L" and room: "f + 1 \<le> int (BlockMaxParents L) - 1"
    and inv: "tally_inv s" "Milestone s = None"
    and bs: "enumerates bs (ProofIssuersByBlockID s)" and w: "f < weight f s bs"
  shows "milestone_inv L f (s\<lparr>Milestone := Some (newMilestone L v s (selectParents L s (candidates f s bs)) i a)\<rparr>)"
proof -
  let ?ps = "selectParents L s (candidates f s bs)" and ?last = "LastMilestoneBlockID (State s)"
  have d: "dedup_ok L" "0 < BlockMaxParents L" using L by (auto simp: lib_ok_def)
  note facts = selectParents_facts [OF d, of s "candidates f s bs"]
  have cand: "distinct (candidates f s bs)" "?last \<notin> set (candidates f s bs)"
    "set (filter (confirmed f s) bs) \<subseteq> insert ?last (set (candidates f s bs))"
    "list_all (confirmed f s) (candidates f s bs)"
    using bs by (auto simp: candidates_def enumerates_def list_all_iff)
  have nonempty: "list_all (\<lambda>b. proposers s b \<noteq> {}) (candidates f s bs)"
    using cand(4) inv(1) by (auto simp: list_all_iff confirmed_def tally_inv_def)
  have "f < int (card (\<Union>b \<in> insert ?last (set (candidates f s bs)). proposers s b))"
  proof -
    have "(\<Union>b \<in> set (filter (confirmed f s) bs). proposers s b)
        \<subseteq> (\<Union>b \<in> insert ?last (set (candidates f s bs)). proposers s b)"
      using cand(3) by blast
    then have "card (\<Union>b \<in> set (filter (confirmed f s) bs). proposers s b)
        \<le> card (\<Union>b \<in> insert ?last (set (candidates f s bs)). proposers s b)"
      by (intro card_mono) auto
    then show ?thesis using w weight_card [OF inv(1) bs, of f] by linarith
  qed
  then have issuers: "f < int (card (\<Union>b \<in> set ?ps. proposers s b))"
    using selectParents_issuers [OF d(1) room cand(1,2) nonempty] by simp
  have "f < int (card (provers s b))" if "b \<in> set ?ps" "b \<noteq> ?last" for b
    using that facts(4) cand(4) by (auto simp: list_all_iff confirmed_def)
  with issuers facts show ?thesis
    by (auto simp: milestone_inv_def newMilestone_def NewMilestone_def carries_def parents_ok_def backed_def)
qed

lemma app_inv_Milestone:
  assumes "app_inv L M s" and "Milestone s = None"
  shows "app_inv L M (s\<lparr>Milestone := Some ms\<rparr>)"
  using assms by (simp add: app_inv_def tally_inv_def sigs_inv_def members_inv_def)

lemma EndBlock_state_ok:
  assumes L: "lib_ok L" and inv: "coo_inv L c" and e: "EndBlock L env bs ps c = Val u c'"
    and bs: "enumerates bs (ProofIssuersByBlockID (deliverState c))"
  shows "state_ok L (coCommittee c) (deliverState c') \<and> State (deliverState c') = State (deliverState c)"
proof (cases "Milestone (deliverState c) = None \<and> F c < weight (F c) (deliverState c) bs")
  case True
  let ?s = "deliverState c"
  let ?sel = "selectParents L ?s (candidates (F c) ?s bs)"
  obtain i a where s': "deliverState c' = ?s\<lparr>Milestone := Some (newMilestone L (protoVersion env) ?s ?sel i a)\<rparr>"
    using EndBlock_Val(2) [OF e] True by (auto simp: Let_def)
  have app: "app_inv L (Members (coCommittee c) (MilestoneIndex (State ?s))) ?s"
    and room: "F c + 1 \<le> int (BlockMaxParents L) - 1"
    using inv by (auto simp: coo_inv_def state_ok_def F_def)
  have "milestone_inv L (F c) (deliverState c')"
    unfolding s' using newMilestone_inv [OF L room _ _ bs] True app by (simp add: app_inv_def)
  then show ?thesis
    using app_inv_Milestone [OF app] True by (simp add: s' state_ok_def F_def)
next
  case False
  then have "deliverState c' = deliverState c" using EndBlock_Val(2) [OF e] by auto
  then show ?thesis using inv by (simp add: coo_inv_def)
qed

text \<open>The signatures \<open>Commit\<close> attaches are a quorum for the essence of the milestone.\<close>

lemma sortedSignatures_signed:
  assumes L: "lib_ok L" and ok: "state_ok L com s" and ms: "Milestone s = Some ms"
    and ks: "enumerates ks (SignaturesByIssuer s)" and t: "com_t com \<le> map_len (SignaturesByIssuer s)"
  shows "signed L com (ms\<lparr>msSignatures := sortedSignatures L ks s\<rparr>)"
proof -
  let ?sig = "\<lambda>k. the (fmlookup (SignaturesByIssuer s) k)"
  have sg: "\<exists>sg. fmlookup (SignaturesByIssuer s) k = Some sg \<and> sigPublicKey sg = k \<and>
      length (sigSignature sg) = 64 \<and> k \<in> Members com (msIndex ms) \<and>
      (\<exists>es. essence_of L ms = Some es \<and> verify_raw L k es (sigSignature sg))" if k: "k \<in> set ks" for k
  proof -
    obtain sg where g: "fmlookup (SignaturesByIssuer s) k = Some sg"
      using enumerates_lookup [OF ks k] by blast
    have "k \<in> Members com (MilestoneIndex (State s))"
      using ok g by (auto simp: state_ok_def app_inv_def members_inv_def fmlookup_dom'_iff)
    then show ?thesis
      using ok ms g by (fastforce simp: state_ok_def app_inv_def sigs_inv_def milestone_inv_def carries_def)
  qed
  have keys: "map (sigPublicKey \<circ> ?sig) ks = ks"
    using sg by (intro map_idI) fastforce
  have dist: "distinct (map sigPublicKey (map ?sig ks))"
    using ks keys by (simp add: enumerates_def)
  have perm: "mset (sortedSignatures L ks s) = mset (map ?sig ks)"
    by (simp add: sortedSignatures_def)
  have "keyed_less (sig_less L) sigPublicKey" using L by (simp add: lib_ok_def sig_order_ok_def)
  then have "sorted_wrt (sig_less L) (sortedSignatures L ks s)"
    unfolding sortedSignatures_def using dist by (rule keyed_less.sorted_sort_by)
  moreover have "distinct (map sigPublicKey (sortedSignatures L ks s))"
    using dist perm by (metis mset_eq_imp_distinct_iff mset_map)
  moreover have "com_t com \<le> int (length (sortedSignatures L ks s))"
    using t enumerates_length [OF ks] by (simp add: sortedSignatures_def)
  moreover have "essence_of L (ms\<lparr>msSignatures := x\<rparr>) = essence_of L ms" for x
    using L by (simp add: lib_ok_def essence_ok_def)
  moreover have "set (sortedSignatures L ks s) = ?sig ` set ks"
    by (simp add: sortedSignatures_def)
  ultimately show ?thesis using sg unfolding signed_def by fastforce
qed

lemma completes_chain:
  assumes L: "lib_ok L" and inv: "coo_inv L c" and ms: "completes c ms"
    and ks: "enumerates ks (SignaturesByIssuer (deliverState c))"
    and ms': "ms' = ms\<lparr>msSignatures := sortedSignatures L ks (deliverState c)\<rparr>"
    and i: "ms_MustID L ms' = Ret i" "MilestoneBlockID L ms' = Ret b"
    and c': "submitted c' = submitted c @ [ms']" "coCommittee c' = coCommittee c"
      "State (deliverState c') = \<lparr>MilestoneHeight = h,
         MilestoneIndex = MilestoneIndex (State (deliverState c)) + 1, LastMilestoneID = i,
         LastMilestoneBlockID = b\<rparr>"
  shows "chain_inv L c'"
proof -
  have ok: "state_ok L (coCommittee c) (deliverState c)" and ch: "chain_inv L c"
    using inv by (auto simp: coo_inv_def)
  have m: "Milestone (deliverState c) = Some ms"
    "com_t (coCommittee c) \<le> map_len (SignaturesByIssuer (deliverState c))"
    using ms by (auto simp: completes_def T_def)
  have minv: "carries L (State (deliverState c)) ms'" "parents_ok L ms'"
    using ok m(1) by (auto simp: state_ok_def milestone_inv_def carries_def parents_ok_def ms')
  have sg: "signed L (coCommittee c') ms'"
    unfolding ms' c'(2) by (rule sortedSignatures_signed [OF L ok m(1) ks m(2)])
  have f: "follows L ms' (State (deliverState c'))"
    using i c'(3) minv(1) by (simp add: follows_def carries_def)
  have "successively (chained L) (submitted c @ [ms'])"
    using ch minv(1) by (auto simp: chain_inv_def successively_append_iff chained_def)
  with ch f sg minv show ?thesis by (auto simp: chain_inv_def c'(1,2))
qed

section \<open>Preservation by the steps\<close>

lemma chain_inv_cong:
  assumes "submitted c' = submitted c" and "coCommittee c' = coCommittee c"
    and "State (deliverState c') = State (deliverState c)"
  shows "chain_inv L c' = chain_inv L c"
  using assms by (simp add: chain_inv_def)

lemma abci_step_inv:
  assumes L: "lib_ok L" and inv: "coo_inv L c" and step: "abci_step L flag ver c k c'"
  shows "coo_inv L c'"
  using step
proof cases
  case (beginb h u)
  then have "c' = c\<lparr>deliverState := (deliverState c)\<lparr>blockHeader := h\<rparr>\<rparr>"
    by (auto simp: BeginBlock_def go_simps split: option.splits)
  then show ?thesis
    using inv chain_inv_cong [of c' c L] by (simp add: coo_inv_def)
next
  case (deliver tx r)
  then obtain s where s: "handleTx L (coCommittee c) tx (deliverState c) = Ret (r, s)"
    "c' = c\<lparr>deliverState := s\<rparr>"
    using deliver_tx.handler_Val by blast
  have "state_ok L (coCommittee c) s \<and> State s = State (deliverState c)"
    using handleTx_state_ok [OF s(1)] inv by (simp add: coo_inv_def)
  then show ?thesis
    using inv s(2) chain_inv_cong [of c' c L] by (simp add: coo_inv_def)
next
  case (endb env bs ps u)
  have fr: "frame c c'" using EndBlock_Val(1) [OF endb(2)] .
  then have b: "coCommittee c' = coCommittee c" "checkState c' = checkState c"
    "submitted c' = submitted c"
    by (auto simp: frame_def base_def)
  have "state_ok L (coCommittee c) (deliverState c') \<and> State (deliverState c') = State (deliverState c)"
    using EndBlock_state_ok [OF L inv endb(2,4)] .
  then show ?thesis
    using inv b chain_inv_cong [of c' c L] by (simp add: coo_inv_def)
next
  case (commit ks r)
  have j: "json_ok L" using L by (simp add: lib_ok_def)
  note v = Commit_Val [OF j commit(2)]
  have com: "coCommittee c' = coCommittee c" using v(1) by (simp add: base_def)
  have d: "state_ok L (coCommittee c) (deliverState c') \<and> chain_inv L c'"
  proof (cases "\<exists>ms. completes c ms")
    case True
    then obtain ms i b where m: "completes c ms"
      "ms_MustID L (ms\<lparr>msSignatures := sortedSignatures L ks (deliverState c)\<rparr>) = Ret i"
      "MilestoneBlockID L (ms\<lparr>msSignatures := sortedSignatures L ks (deliverState c)\<rparr>) = Ret b"
      "deliverState c' = Reset \<lparr>MilestoneHeight = hdrHeight (blockHeader (deliverState c)),
        MilestoneIndex = MilestoneIndex (State (deliverState c)) + 1, LastMilestoneID = i,
        LastMilestoneBlockID = b\<rparr> (deliverState c)"
      "submitted c' = submitted c @ [ms\<lparr>msSignatures := sortedSignatures L ks (deliverState c)\<rparr>]"
      using v(4) by (auto simp: Let_def)
    then show ?thesis
      using completes_chain [OF L inv m(1) commit(3) refl m(2,3,5) com] by simp
  next
    case False
    then show ?thesis
      using v(4) inv com chain_inv_cong [of c' c L] by (simp add: coo_inv_def)
  qed
  then show ?thesis
    using v(2) inv com state_ok_truncate by (metis coo_inv_def)
qed

lemma local_step_inv:
  assumes inv: "coo_inv L c" and step: "local_step L c c'"
  shows "coo_inv L c'"
proof -
  have r: "coCommittee c' = coCommittee c" "deliverState c' = deliverState c"
    "submitted c' = submitted c"
    using local_step_replicated [OF step] by (auto simp: replicated_def)
  have "state_ok L (coCommittee c) (checkState c')"
    using local_step_checkState [OF step]
  proof
    assume "\<exists>tx r. CheckTx L tx c = Val r c'"
    then show ?thesis
      using check_tx.handler_Val handleTx_state_ok inv by (fastforce simp: coo_inv_def)
  qed (use inv in \<open>simp add: coo_inv_def\<close>)
  then show ?thesis using inv r chain_inv_cong [of c' c L] by (simp add: coo_inv_def)
qed

lemma run_inv:
  assumes "lib_ok L" and "run L flag ver c ks c'" and "coo_inv L c"
  shows "coo_inv L c'"
  using assms(2,3)
  by (induction rule: run.induct) (auto intro: local_step_inv abci_step_inv [OF assms(1)])

lemma run_committee:
  assumes "run L flag ver c ks c'" and "json_ok L"
  shows "coCommittee c' = coCommittee c"
  using assms
proof (induction rule: run.induct)
  case (loc c ks c' c'')
  then show ?case using local_step_replicated by (fastforce simp: replicated_def)
next
  case (call c ks c' k c'')
  from call.hyps(2) have "coCommittee c'' = coCommittee c'"
  proof cases
    case (beginb h u)
    then show ?thesis by (auto simp: BeginBlock_def go_simps split: option.splits)
  next
    case (deliver tx r)
    then show ?thesis using deliver_tx.handler_Val by fastforce
  next
    case (endb env bs ps u)
    then show ?thesis using EndBlock_Val(1) by (fastforce simp: frame_def base_def)
  next
    case (commit ks r)
    then show ?thesis using Commit_Val(1) [OF call.prems] by (fastforce simp: base_def)
  qed
  with call show ?case by simp
qed simp

text \<open>A coordinator that is ready satisfies the invariant and has submitted nothing.\<close>

lemma init_inv:
  assumes "New L com m = Inr c" and "initState L h st c = Val u c'"
  shows "coo_inv L c' \<and> submitted c' = []"
proof -
  have n: "coCommittee c = com" "submitted c = []" "com_f com + 1 \<le> int (BlockMaxParents L) - 1"
    using assms(1) by (auto simp: New_Inr_iff submitted_def)
  note i = initState_Val [OF assms(2)]
  have "coCommittee c' = com" using i(5) n(1) by (simp add: base_def)
  then show ?thesis using i n by (simp add: coo_inv_def chain_inv_def)
qed

lemma ready_inv: "ready L c \<Longrightarrow> coo_inv L c \<and> submitted c = []"
  by (auto elim!: ready.cases dest!: Bootstrap_None InitState_None intro: init_inv [THEN conjunct1]
      init_inv [THEN conjunct2])

lemma ready_not_stopped: "ready L c \<Longrightarrow> \<not> stopped c"
  by (auto elim!: ready.cases dest!: Bootstrap_None InitState_None initState_Val(5)
      simp: New_Inr_iff base_def)

end
