(* ===== verification/Agreement.thy ===== *)
theory Agreement
  imports Invariants
begin

text \<open>
  Replicas agree: two coordinators of one committee that start from the same replicated state and
  process the same consensus calls have the same replicated state again, whatever their keys, the
  orders in which their runtimes visit maps, their local steps and the errors of their nodes.
\<close>

definition same_committee :: "committee \<Rightarrow> committee \<Rightarrow> bool" where
  "same_committee a b \<longleftrightarrow>
     com_n a = com_n b \<and> com_f a = com_f b \<and> com_t a = com_t b \<and> manager a = manager b"

definition agree :: "coordinator \<Rightarrow> coordinator \<Rightarrow> bool" where
  "agree c d \<longleftrightarrow>
     same_committee (coCommittee c) (coCommittee d) \<and> deliverState c = deliverState d \<and>
     cms c = cms d \<and> submitted c = submitted d"

lemma agree_replicated:
  "agree c d \<Longrightarrow> replicated c' = replicated c \<Longrightarrow> replicated d' = replicated d \<Longrightarrow> agree c' d'"
  by (simp add: agree_def replicated_def)

lemma VerifySingle_cong:
  assumes "manager a = manager b"
  shows "VerifySingle L a i m pk sig = VerifySingle L b i m pk sig"
  unfolding VerifySingle_def assms ..

lemma UnmarshalTx_cong:
  assumes "manager a = manager b"
  shows "UnmarshalTx L a i tx = UnmarshalTx L b i tx"
  unfolding UnmarshalTx_def VerifySingle_cong [OF assms] ..

lemma handleTx_cong:
  assumes "same_committee a b"
  shows "handleTx L a tx s = handleTx L b tx s"
proof -
  have m: "manager a = manager b" using assms by (simp add: same_committee_def)
  show ?thesis unfolding handleTx_def UnmarshalTx_cong [OF m] ..
qed

text \<open>The order of a map does not show in what \<open>EndBlock\<close> and \<open>Commit\<close> compute from it.\<close>

lemma weight_order:
  assumes "enumerates bs m" and "enumerates bs' m"
  shows "weight f s bs = weight f s bs'"
proof -
  have "mset (filter (confirmed f s) bs) = mset (filter (confirmed f s) bs')"
    using enumerates_mset [OF assms] by simp
  then show ?thesis
    unfolding weight_def by (metis mset_map sum_mset_sum_list)
qed

lemma selectParents_order:
  assumes "dedup_ok L" and "enumerates bs m" and "enumerates bs' m"
  shows "selectParents L s (candidates f s bs) = selectParents L s (candidates f s bs')"
proof (rule selectParents_cong [OF assms(1)])
  show "distinct (candidates f s bs)" using assms(2) by (simp add: candidates_def enumerates_def)
  show "mset (candidates f s bs) = mset (candidates f s bs')"
    using enumerates_mset [OF assms(2,3)] by (simp add: candidates_def)
qed

lemma sortedSignatures_order:
  assumes L: "lib_ok L" and inv: "sigs_inv L s" and m: "Milestone s \<noteq> None"
    and ks: "enumerates ks (SignaturesByIssuer s)" and ks': "enumerates ks' (SignaturesByIssuer s)"
  shows "sortedSignatures L ks s = sortedSignatures L ks' s"
proof -
  let ?sig = "\<lambda>k. the (fmlookup (SignaturesByIssuer s) k)"
  have "sigPublicKey (?sig k) = k" if "k \<in> set ks" for k
    using enumerates_lookup [OF ks that] inv m by (auto simp: sigs_inv_def)
  then have "map (sigPublicKey \<circ> ?sig) ks = ks" by (intro map_idI) simp
  then have dist: "distinct (map sigPublicKey (map ?sig ks))"
    using ks by (simp add: enumerates_def)
  have perm: "mset (map ?sig ks) = mset (map ?sig ks')"
    using enumerates_mset [OF ks ks'] by simp
  have "keyed_less (sig_less L) sigPublicKey" using L by (simp add: lib_ok_def sig_order_ok_def)
  from keyed_less.sort_by_cong [OF this dist perm] show ?thesis
    by (simp add: sortedSignatures_def)
qed

lemma EndBlock_agree:
  assumes L: "lib_ok L" and ag: "agree c d"
    and c: "EndBlock L env bs ps c = Val u c'" "answers flag ver env"
      "enumerates bs (ProofIssuersByBlockID (deliverState c))"
    and d: "EndBlock L env' bs' ps' d = Val u' d'" "answers flag ver env'"
      "enumerates bs' (ProofIssuersByBlockID (deliverState d))"
  shows "agree c' d'"
proof -
  let ?s = "deliverState c"
  have s: "deliverState d = ?s" "F d = F c"
    using ag by (auto simp: agree_def same_committee_def F_def)
  have dd: "dedup_ok L" using L by (simp add: lib_ok_def)
  have w: "weight (F c) ?s bs' = weight (F c) ?s bs"
    using weight_order d(3) c(3) s by metis
  have sel: "selectParents L ?s (candidates (F c) ?s bs') = selectParents L ?s (candidates (F c) ?s bs)"
    using selectParents_order [OF dd] d(3) c(3) s by metis
  note ec = EndBlock_Val [OF c(1)] and ed = EndBlock_Val [OF d(1)]
  have "deliverState c' = deliverState d'"
  proof (cases "Milestone ?s = None \<and> F c < weight (F c) ?s bs")
    case False
    then show ?thesis using ec(2) ed(2) s w by auto
  next
    case True
    let ?sel = "selectParents L ?s (candidates (F c) ?s bs)"
    let ?args = "\<lambda>f. f (MilestoneIndex (State ?s)) (ucast (hdrTime (blockHeader ?s))) ?sel (LastMilestoneID (State ?s))"
    obtain i a where 1: "?args (computeWhiteFlag env) = Some (bytes_of i, bytes_of a)"
      "deliverState c' = ?s\<lparr>Milestone := Some (newMilestone L (protoVersion env) ?s ?sel i a)\<rparr>"
      using ec(2) True by (auto simp: Let_def)
    obtain i' a' where 2: "?args (computeWhiteFlag env') = Some (bytes_of i', bytes_of a')"
      "deliverState d' = ?s\<lparr>Milestone := Some (newMilestone L (protoVersion env') ?s ?sel i' a')\<rparr>"
      using ed(2) True s w sel by (auto simp: Let_def)
    have "(bytes_of i, bytes_of a) = ?args flag" "(bytes_of i', bytes_of a') = ?args flag"
      using 1(1) 2(1) c(2) d(2) unfolding answers_def by blast+
    then have "i = i'" "a = a'" by (metis bytes_of_inject prod.inject)+
    then show ?thesis using 1(2) 2(2) c(2) d(2) by (simp add: answers_def)
  qed
  then show ?thesis
    using ag ec(1) ed(1) by (simp add: agree_def frame_def base_def)
qed

lemma Commit_agree:
  assumes L: "lib_ok L" and inv: "coo_inv L c" and ag: "agree c d"
    and c: "Commit L ks c = Val r c'" "enumerates ks (SignaturesByIssuer (deliverState c))"
    and d: "Commit L ks' d = Val r' d'" "enumerates ks' (SignaturesByIssuer (deliverState d))"
  shows "agree c' d' \<and> CommitData r = CommitData r'"
proof -
  have j: "json_ok L" using L by (simp add: lib_ok_def)
  let ?s = "deliverState c"
  have s: "deliverState d = ?s" "completes d = completes c"
    using ag by (auto simp: agree_def same_committee_def completes_def T_def fun_eq_iff)
  note vc = Commit_Val [OF j c(1)] and vd = Commit_Val [OF j d(1)]
  have *: "deliverState c' = deliverState d' \<and> submitted c' = submitted d'"
  proof (cases "\<exists>ms. completes c ms")
    case False
    then show ?thesis using vc(4) vd(4) s ag by (simp add: agree_def)
  next
    case True
    then have "sigs_inv L ?s" "Milestone ?s \<noteq> None"
      using inv by (auto simp: coo_inv_def state_ok_def app_inv_def completes_def)
    then have sg: "sortedSignatures L ks' ?s = sortedSignatures L ks ?s"
      using sortedSignatures_order [OF L _ _ d(2)[unfolded s] c(2)] by blast
    obtain ms where ms: "completes c ms" using True by blast
    then have u: "completes c ms' \<longleftrightarrow> ms' = ms" for ms' by (auto simp: completes_def)
    let ?ms = "ms\<lparr>msSignatures := sortedSignatures L ks ?s\<rparr>"
    obtain i b where 1: "ms_MustID L ?ms = Ret i" "MilestoneBlockID L ?ms = Ret b"
      "deliverState c' = Reset \<lparr>MilestoneHeight = hdrHeight (blockHeader ?s),
         MilestoneIndex = MilestoneIndex (State ?s) + 1, LastMilestoneID = i, LastMilestoneBlockID = b\<rparr> ?s"
      "submitted c' = submitted c @ [?ms]"
      using vc(4) True by (auto simp: Let_def u)
    obtain i' b' where 2: "ms_MustID L ?ms = Ret i'" "MilestoneBlockID L ?ms = Ret b'"
      "deliverState d' = Reset \<lparr>MilestoneHeight = hdrHeight (blockHeader ?s),
         MilestoneIndex = MilestoneIndex (State ?s) + 1, LastMilestoneID = i', LastMilestoneBlockID = b'\<rparr> ?s"
      "submitted d' = submitted d @ [?ms]"
      using vd(4) True s sg by (auto simp: Let_def u)
    show ?thesis using 1 2 ag by (simp add: agree_def)
  qed
  obtain h where h: "Hash L (deliverState c') = Ret h"
    "cms c' = \<lparr>Height = hdrHeight (blockHeader ?s), CommitHash = h\<rparr>" "CommitData r = h"
    using vc(3) by auto
  obtain h' where h': "Hash L (deliverState d') = Ret h'"
    "cms d' = \<lparr>Height = hdrHeight (blockHeader ?s), CommitHash = h'\<rparr>" "CommitData r' = h'"
    using vd(3) s by auto
  have "coCommittee c' = coCommittee c" "coCommittee d' = coCommittee d"
    using vc(1) vd(1) by (auto simp: base_def)
  with * h h' ag show ?thesis by (simp add: agree_def)
qed

lemma abci_step_agree:
  assumes L: "lib_ok L" and inv: "coo_inv L c" and ag: "agree c d"
    and c: "abci_step L flag ver c k c'" and d: "abci_step L flag ver d k d'"
  shows "agree c' d'"
proof (cases k)
  case (BeginBlockC h)
  then have "c' = c\<lparr>deliverState := (deliverState c)\<lparr>blockHeader := h\<rparr>\<rparr>"
    "d' = d\<lparr>deliverState := (deliverState d)\<lparr>blockHeader := h\<rparr>\<rparr>"
    using c d by (auto simp: BeginBlock_def go_simps elim!: abci_step_BeginE split: option.splits)
  then show ?thesis using ag by (simp add: agree_def)
next
  case (DeliverTxC tx)
  obtain r s where 1: "handleTx L (coCommittee c) tx (deliverState c) = Ret (r, s)"
      "c' = c\<lparr>deliverState := s\<rparr>"
    using c DeliverTxC deliver_tx.handler_Val by (blast elim: abci_step_DeliverE)
  obtain r' s' where 2: "handleTx L (coCommittee d) tx (deliverState d) = Ret (r', s')"
      "d' = d\<lparr>deliverState := s'\<rparr>"
    using d DeliverTxC deliver_tx.handler_Val by (blast elim: abci_step_DeliverE)
  have "s = s'"
    using 1(1) 2(1) ag handleTx_cong [of "coCommittee c" "coCommittee d" L tx "deliverState d"] by (simp add: agree_def)
  then show ?thesis using ag by (simp add: agree_def 1(2) 2(2))
next
  case EndBlockC
  then show ?thesis
    using c d EndBlock_agree [OF L ag] by (blast elim!: abci_step_EndE)
next
  case CommitC
  then show ?thesis
    using c d Commit_agree [OF L inv ag] by (blast elim!: abci_step_CommitE)
qed

section \<open>Runs\<close>

lemma run_Nil:
  assumes "run L flag ver c ks c'" and "ks = []"
  shows "replicated c' = replicated c"
  using assms by (induction rule: run.induct) (auto dest: local_step_replicated)

lemma run_snoc:
  assumes "run L flag ver c kk c'" and "kk = ks @ [k]"
  shows "\<exists>d d'. run L flag ver c ks d \<and> abci_step L flag ver d k d' \<and> replicated c' = replicated d'"
  using assms
proof (induction rule: run.induct)
  case (loc c kk c' c'')
  then show ?case using local_step_replicated by fastforce
qed auto

lemma run_agree:
  assumes L: "lib_ok L" and c: "run L flag ver c ks c'" and d: "run L flag ver d ks d'"
    and inv: "coo_inv L c" and ag: "agree c d"
  shows "agree c' d'"
  using c d
proof (induction ks arbitrary: c' d' rule: rev_induct)
  case Nil
  then show ?case using run_Nil [OF Nil(1)] run_Nil [OF Nil(2)] agree_replicated [OF ag] by simp
next
  case (snoc k ks)
  obtain c1 c2 where 1: "run L flag ver c ks c1" "abci_step L flag ver c1 k c2" "replicated c' = replicated c2"
    using run_snoc [OF snoc.prems(1)] by blast
  obtain d1 d2 where 2: "run L flag ver d ks d1" "abci_step L flag ver d1 k d2" "replicated d' = replicated d2"
    using run_snoc [OF snoc.prems(2)] by blast
  have "agree c2 d2"
    using abci_step_agree [OF L run_inv [OF L 1(1) inv] snoc.IH [OF 1(1) 2(1)] 1(2) 2(2)] .
  then show ?case using agree_replicated 1(3) 2(3) by blast
qed

lemma ready_agree:
  assumes "ready L c" and "ready L d" and "same_committee (coCommittee c) (coCommittee d)"
    and "deliverState c = deliverState d" and "cms c = cms d"
  shows "agree c d"
  using assms ready_inv [OF assms(1)] ready_inv [OF assms(2)] by (simp add: agree_def)

text \<open>Without a commit, no milestone is handed over.\<close>

lemma run_without_commit:
  assumes "run L flag ver c ks c'" and "CommitC \<notin> set ks"
  shows "submitted c' = submitted c"
  using assms
proof (induction rule: run.induct)
  case (loc c ks c' c'')
  then show ?case using local_step_replicated by (fastforce simp: replicated_def)
next
  case (call c ks c' k c'')
  from call.hyps(2) have "submitted c'' = submitted c'"
  proof cases
    case (beginb h u)
    then show ?thesis by (auto simp: BeginBlock_def go_simps split: option.splits)
  next
    case (deliver tx r)
    then show ?thesis using deliver_tx.handler_Val by fastforce
  next
    case (endb env bs ps u)
    then show ?thesis using EndBlock_Val(1) by (fastforce simp: frame_def)
  next
    case (commit ks r)
    then show ?thesis using call.prems by simp
  qed
  with call show ?case by simp
qed simp

end
