(* ===== verification/Progress.thy ===== *)
theory Progress
  imports Agreement
begin

text \<open>
  When the calls return: \<open>EndBlock\<close> as long as the node answers, and \<open>Commit\<close> exactly if the library
  can serialize the milestone under construction as far as it is asked to.
\<close>

section \<open>What is assumed of the node\<close>

definition node_ok :: "inx \<Rightarrow> bool" where
  "node_ok env \<longleftrightarrow>
     (\<forall>i ts ps m. \<exists>a b. computeWhiteFlag env i ts ps m = Some (bytes_of a, bytes_of b)) \<and>
     (\<forall>b. registerSolid env b \<noteq> RegisterFailed)"

section \<open>EndBlock\<close>

lemma registerProcessParent_total:
  "node_ok env \<Longrightarrow> \<exists>c'. registerProcessParentOnSolid env b i p c = Val () c'"
  by (cases "registerSolid env b") (auto simp: registerProcessParentOnSolid_def node_ok_def)

lemma awaitParents_total:
  assumes "node_ok env"
  shows "\<exists>c'. awaitParents env ps processed c = Val () c'"
proof (induction ps arbitrary: processed c)
  case (Cons p ps)
  let ?b = "map_get zero32 (ParentByIssuer (deliverState c)) p"
  obtain c1 where "registerProcessParentOnSolid env ?b (MilestoneIndex (State (deliverState c))) p c = Val () c1"
    using registerProcessParent_total [OF assms] by blast
  then show ?case using Cons.IH by (simp add: Let_def)
qed simp

lemma createMilestoneEssence_total:
  assumes "node_ok env"
  shows "\<exists>c'. createMilestoneEssence L env ps c = Val () c'"
proof -
  let ?s = "deliverState c"
  obtain i a where "computeWhiteFlag env (MilestoneIndex (State ?s)) (ucast (hdrTime (blockHeader ?s)))
      (selectParents L ?s ps) (LastMilestoneID (State ?s)) = Some (bytes_of i, bytes_of a)"
    using assms unfolding node_ok_def by blast
  then show ?thesis by (simp add: createMilestoneEssence_def Let_def)
qed

lemma EndBlock_total:
  assumes "node_ok env"
  shows "\<exists>c'. EndBlock L env bs ps c = Val () c'"
proof -
  obtain w qs where cp: "collectParents (F c) (deliverState c) bs (0, []) = (w, qs)"
    by (metis surj_pair)
  obtain c1 where 1: "(if Milestone (deliverState c) = None
      then if F c < w then createMilestoneEssence L env qs (emit ClearCallbacks c) else Val () c
      else Val () c) = Val () c1"
    using createMilestoneEssence_total [OF assms] by (metis (full_types))
  obtain c2 where 2: "(if Milestone (deliverState c1) = None then awaitParents env ps {} c1 else Val () c1) = Val () c2"
    using awaitParents_total [OF assms] by (metis (full_types))
  show ?thesis
    unfolding EndBlock_def cp prod.case 1 exec_bind.simps 2 by (simp add: stopOnPanic_def)
qed

text \<open>One block that more than \<open>F\<close> members proposed and proved is enough for the weight.\<close>

lemma weight_of_block:
  assumes inv: "tally_inv s" and bs: "enumerates bs (ProofIssuersByBlockID s)" and f: "0 \<le> f"
    and b: "f < int (card (proposers s b))" "f < int (card (provers s b))"
  shows "f < weight f s bs"
proof -
  have "provers s b \<noteq> {}" using b(2) f by auto
  then have "b \<in> set bs"
    using bs by (auto simp: enumerates_def provers_def map_get_def fmlookup_dom'_iff split: option.splits)
  moreover have "confirmed f s b"
    using inv b f by (simp add: confirmed_def tally_inv_def)
  ultimately have "proposers s b \<subseteq> (\<Union>b \<in> set (filter (confirmed f s) bs). proposers s b)"
    by auto
  then have "card (proposers s b) \<le> card (\<Union>b \<in> set (filter (confirmed f s) bs). proposers s b)"
    by (intro card_mono) auto
  then show ?thesis using b(1) weight_card [OF inv bs, of f] by linarith
qed

section \<open>Commit\<close>

text \<open>
  What \<open>Commit\<close> has the library compute: the essence of the milestone when the local member still
  has to sign it, and both IDs of the signed milestone when there are enough signatures.
\<close>

definition commit_serializes :: "'z iota_lib_scheme \<Rightarrow> peer_id list \<Rightarrow> coordinator \<Rightarrow> milestone \<Rightarrow> bool" where
  "commit_serializes L ks c ms \<longleftrightarrow>
     (let sigs = SignaturesByIssuer (deliverState c);
          signed = ms\<lparr>msSignatures := sortedSignatures L ks (deliverState c)\<rparr> in
      if map_len sigs < T c
      then fmlookup sigs (pubkey (privateKey (coCommittee c))) = None \<longrightarrow> essence_of L ms \<noteq> None
      else milestone_id_of L signed \<noteq> None \<and>
           (\<exists>b. buildMilestoneBlock L signed = Some b \<and> block_id_of L b \<noteq> None))"

lemma broadcastPartial_returns:
  assumes "proto_ok L"
  shows "(\<exists>c'. broadcastPartial L ms c = Val () c') \<longleftrightarrow> essence_of L ms \<noteq> None"
proof (cases "essence_of L ms")
  case None
  then show ?thesis by (simp add: broadcastPartial_def tx_essence_def)
next
  case (Some es)
  obtain tx where "MarshalTx L (coCommittee c) (PartialSignature (sigSignature (Sign L (coCommittee c) es))) = Inr tx"
    using MarshalTx_Inr [OF assms] by metis
  then show ?thesis using Some by (simp add: broadcastPartial_def tx_essence_def)
qed

lemma completeMilestone_returns:
  "(\<exists>c'. completeMilestone L ks ms c = Val () c') \<longleftrightarrow>
     (let ms' = ms\<lparr>msSignatures := sortedSignatures L ks (deliverState c)\<rparr> in
      milestone_id_of L ms' \<noteq> None \<and> (\<exists>b. buildMilestoneBlock L ms' = Some b \<and> block_id_of L b \<noteq> None))"
  by (auto simp: completeMilestone_def sortedSignatures_def Let_def ms_MustID_def MilestoneBlockID_def
      block_MustID_def split: option.splits)

text \<open>The last two stages of a commit return.\<close>

lemma commit_tail_returns:
  assumes "json_ok L"
  shows "\<exists>c3 c4. copyState L c2 = Val () c3 \<and> commitState L c3 = Val () c4"
proof -
  obtain s3 where "Copy L (checkState c2) (deliverState c2) = Val () s3"
    using Copy_Val [OF assms] by blast
  then have "copyState L c2 = Val () (c2\<lparr>checkState := s3\<rparr>)" by (simp add: copyState_def)
  moreover obtain h where "Hash L (deliverState c2) = Ret h" using Hash_Ret [OF assms] by blast
  then have "\<exists>c4. commitState L (c2\<lparr>checkState := s3\<rparr>) = Val () c4"
    by (simp add: commitState_def CommitStore_Commit_def)
  ultimately show ?thesis by blast
qed

lemma Commit_returns:
  assumes j: "json_ok L" and p: "proto_ok L"
  shows "(\<exists>r c'. Commit L ks c = Val r c') \<longleftrightarrow>
    (\<forall>ms. Milestone (deliverState c) = Some ms \<longrightarrow> commit_serializes L ks c ms)"
proof -
  have tail: "\<exists>r c'. stopOnPanic (exec_bind (copyState L c2) (\<lambda>_ c. exec_bind (commitState L c) (\<lambda>_ c.
      Val \<lparr>CommitData = CommitHash (LastCommitInfo (cms c)), RetainHeight = n\<rparr> c))) = Val r c'" for c2 n
    using commit_tail_returns [OF j, of c2] by (auto simp: stopOnPanic_def)
  show ?thesis
  proof (cases "Milestone (deliverState c)")
    case None
    then show ?thesis using tail by (simp add: Commit_def Let_def)
  next
    case (Some ms)
    let ?few = "map_len (SignaturesByIssuer (deliverState c)) < T c"
      and ?own = "fmlookup (SignaturesByIssuer (deliverState c)) (pubkey (privateKey (coCommittee c)))"
    consider (sign) "?few" "?own = None" | (wait) "?few" "?own \<noteq> None" | (complete) "\<not> ?few" by blast
    then show ?thesis
    proof cases
      case sign
      have "(\<exists>r c'. Commit L ks c = Val r c') \<longleftrightarrow> (\<exists>c1. broadcastPartial L ms c = Val () c1)"
      proof (cases "broadcastPartial L ms c")
        case (Val u c1)
        have "deliverState c1 = deliverState c" "T c1 = T c"
          using broadcastPartial_Val [OF Val] by (auto simp: T_def)
        then show ?thesis using Val Some sign tail by (simp add: Commit_def Let_def)
      qed (use Some sign in \<open>simp add: Commit_def Let_def stopOnPanic_Val_iff\<close>)
      then show ?thesis using broadcastPartial_returns [OF p] Some sign by (simp add: commit_serializes_def)
    next
      case wait
      then show ?thesis using Some tail by (auto simp: Commit_def Let_def commit_serializes_def)
    next
      case complete
      have "(\<exists>r c'. Commit L ks c = Val r c') \<longleftrightarrow> (\<exists>c1. completeMilestone L ks ms c = Val () c1)"
        using Some complete tail
        by (cases "completeMilestone L ks ms c") (auto simp: Commit_def Let_def stopOnPanic_Val_iff)
      then show ?thesis using completeMilestone_returns Some complete by (simp add: commit_serializes_def Let_def)
    qed
  qed
qed

section \<open>Runs\<close>

lemma run_trans:
  assumes "run L flag ver d ls e" and "run L flag ver c ks d"
  shows "run L flag ver c (ks @ ls) e"
  using assms
proof (induction rule: run.induct)
  case (call c' ls d' k e')
  then have "run L flag ver c ((ks @ ls) @ [k]) e'" by (blast intro: run.call)
  then show ?case by simp
qed (auto intro: run.loc)

lemma run_one: "abci_step L flag ver c k c' \<Longrightarrow> run L flag ver c [k] c'"
  using run.call [OF run.nocall, of L flag ver c k c'] by simp

lemma run_Cons: "abci_step L flag ver c k d \<Longrightarrow> run L flag ver d ks e \<Longrightarrow> run L flag ver c (k # ks) e"
  using run_trans [OF _ run_one] by fastforce

text \<open>A transaction of a committee member that can be applied is applied.\<close>

lemma DeliverTx_applies:
  assumes "proto_ok L" and "ed25519_ok L" and "keypair L (privateKey v)"
    and "pubkey (privateKey v) = p" and "MarshalTx L v t = Inr tx" and "length tx \<le> MaxTxBytes"
    and "p \<in> Members (coCommittee c) (MilestoneIndex (State (deliverState c)))"
    and "Apply L t (bytes_of p) (deliverState c) = Ret (None, s)"
  shows "DeliverTx L tx c = Val \<lparr>Code = CodeTypeOK, Log = None\<rparr> (c\<lparr>deliverState := s\<rparr>)"
proof -
  have "UnmarshalTx L (coCommittee c) (MilestoneIndex (State (deliverState c))) tx = Ret (Inr (PublicKey v, t))"
    using UnmarshalTx_of_MarshalTx [OF assms(1,2,3,5)] assms(4,7) by simp
  then show ?thesis
    using assms(4,6,8) by (simp add: DeliverTx_eq handleTx_def PublicKey_def)
qed

end
