(* ===== verification/Demo.thy ===== *)
theory Demo
  imports Progress
begin

text \<open>
  A concrete system on which the theorems about runs are applied: a committee with one member,
  the instance \<open>toy_tx\<close> of the libraries, and two blocks per milestone. The first block holds the
  member's parent and proof, the second its partial signature. The local key of a replica is a
  parameter; a replica whose key does not belong to the member only follows.
\<close>

abbreviation "TL \<equiv> toy_tx ()"

definition demo_com :: "8 word \<Rightarrow> committee" where
  "demo_com k =
     \<lparr>privateKey = \<lparr>seed = b32 k, pubkey = b32 k\<rparr>, com_n = 1, com_f = 0, com_t = 1,
      manager = singleKeyRange {b32 1}\<rparr>"

definition demo_flag :: "32 word \<Rightarrow> 32 word \<Rightarrow> block_id list \<Rightarrow> milestone_id \<Rightarrow> bytes \<times> bytes" where
  "demo_flag i ts ps m = (bytes_of m, bytes_of m)"

definition demo_node :: inx where
  "demo_node =
     \<lparr>protoVersion = 2, latestMilestone = Some None, latestMilestoneIndex = 0,
      blockMetadata = (\<lambda>b. None), submitBlock = (\<lambda>b. None),
      computeWhiteFlag = (\<lambda>i ts ps m. Some (demo_flag i ts ps m)),
      registerSolid = (\<lambda>b. Registered), waitForIndex = (\<lambda>i. True), broadcastTxSync = (\<lambda>tx. Some 0)\<rparr>"

definition demo_tx :: "tx \<Rightarrow> bytes" where
  "demo_tx t =
     (let es = wire_essence (Some (essence_of_tx t))
      in wire_raw \<lparr>rawEssence = es, rawPublicKey = bytes_of (b32 1), rawSignature = toy_sig (b32 1) es\<rparr>)"

definition demo_round :: "state \<Rightarrow> 64 word \<Rightarrow> call list" where
  "demo_round st h =
     [BeginBlockC \<lparr>hdrHeight = h + 1, hdrTime = 1000\<rparr>,
      DeliverTxC (demo_tx (Parent (MilestoneIndex st) (b32 50))),
      DeliverTxC (demo_tx (Proof (MilestoneIndex st) (b32 50))),
      EndBlockC, CommitC,
      BeginBlockC \<lparr>hdrHeight = h + 2, hdrTime = 1010\<rparr>,
      DeliverTxC (demo_tx (PartialSignature
        (toy_sig (b32 1) (le64 (ucast (MilestoneIndex st)) @ Metadata TL st)))),
      EndBlockC, CommitC]"

lemma demo_node_ok: "node_ok demo_node" "answers demo_flag 2 demo_node"
  by (auto simp: node_ok_def answers_def demo_node_def demo_flag_def bytes_of_inject)

lemma demo_keypair: "keypair TL (privateKey (demo_com k))"
  by (simp add: keypair_def demo_com_def toy_tx_fields)

lemma length_toy_sig [simp]: "length (toy_sig p m) = 64"
  by (simp add: toy_sig_def)

lemma demo_marshal: "MarshalTx TL (demo_com 1) t = Inr (demo_tx t)"
  by (simp add: MarshalTx_def demo_tx_def toy_tx_fields PublicKey_def Sign_def demo_com_def copy64_id Let_def)

lemma demo_deliver:
  assumes "coCommittee c = demo_com k" and "Apply TL t (bytes_of (b32 1)) (deliverState c) = Ret (None, s)"
    and "case t of PartialSignature g \<Rightarrow> length g = 64 | _ \<Rightarrow> True"
  shows "abci_step TL demo_flag 2 c (DeliverTxC (demo_tx t)) (c\<lparr>deliverState := s\<rparr>)"
proof -
  have "DeliverTx TL (demo_tx t) c = Val \<lparr>Code = CodeTypeOK, Log = None\<rparr> (c\<lparr>deliverState := s\<rparr>)"
  proof (rule DeliverTx_applies [OF toy_proto toy_tx_ok(2) demo_keypair _ demo_marshal _ _ assms(2)])
    show "length (demo_tx t) \<le> MaxTxBytes"
      using MarshalTx_length [OF toy_proto demo_marshal assms(3)] by blast
  qed (simp_all add: demo_com_def Members_def assms(1) singleKeyRange_def)
  then show ?thesis by (rule abci_step.deliver)
qed

lemma demo_begin:
  "hdrHeight h = Height (cms c) + 1 \<Longrightarrow>
     abci_step L flag ver c (BeginBlockC h) (c\<lparr>deliverState := (deliverState c)\<lparr>blockHeader := h\<rparr>\<rparr>)"
  by (rule abci_step.beginb)
    (simp add: BeginBlock_def ValidateHeight_def LastCommitInfo_def Let_def stopOnPanic_def)

lemma demo_end: "\<exists>c' bs ps. EndBlock TL demo_node bs ps c = Val () c' \<and>
    enumerates bs (ProofIssuersByBlockID (deliverState c)) \<and> abci_step TL demo_flag 2 c EndBlockC c'"
proof -
  obtain bs where bs: "enumerates bs (ProofIssuersByBlockID (deliverState c))"
    using enumerates_exists by blast
  obtain ps where ps: "enumerates ps (ParentByIssuer (deliverState c))"
    using enumerates_exists by blast
  obtain c' where "EndBlock TL demo_node bs ps c = Val () c'"
    using EndBlock_total [OF demo_node_ok(1)] by blast
  with bs ps abci_step.endb [OF _ demo_node_ok(2)] show ?thesis by blast
qed

lemma demo_returns: "\<exists>r c'. Commit TL ks c = Val r c'"
  by (simp add: Commit_returns [OF toy_tx_ok(1) toy_proto] commit_serializes_def buildMilestoneBlock_def
      toy_tx_fields Let_def)

lemma demo_commit: "\<exists>ks r c'. Commit TL ks c = Val r c' \<and> abci_step TL demo_flag 2 c CommitC c'"
proof -
  obtain ks where ks: "enumerates ks (SignaturesByIssuer (deliverState c))"
    using enumerates_exists by blast
  then show ?thesis using demo_returns abci_step.commit by blast
qed

text \<open>The first block of a round creates the milestone.\<close>

definition demo_voted :: "header \<Rightarrow> app_state \<Rightarrow> app_state" where
  "demo_voted x s = s\<lparr>blockHeader := x, ParentByIssuer := fmupd (b32 1) (b32 50) fmempty,
     IssuerCountByParent := fmupd (b32 50) 1 fmempty,
     ProofIssuersByBlockID := fmupd (b32 50) (fmupd (b32 1) () fmempty) fmempty\<rparr>"

lemma demo_votes:
  assumes com: "coCommittee c = demo_com k" and s: "deliverState c = Reset st s0" and h: "Height (cms c) = h"
  shows "run TL demo_flag 2 c (take 3 (demo_round st h))
    (c\<lparr>deliverState := demo_voted \<lparr>hdrHeight = h + 1, hdrTime = 1000\<rparr> (deliverState c)\<rparr>)"
proof -
  let ?hd = "\<lparr>hdrHeight = h + 1, hdrTime = 1000\<rparr> :: header"
  let ?s1 = "(deliverState c)\<lparr>blockHeader := ?hd\<rparr>"
  let ?s2 = "?s1\<lparr>ParentByIssuer := fmupd (b32 1) (b32 50) fmempty,
    IssuerCountByParent := fmupd (b32 50) 1 fmempty\<rparr>"
  let ?s3 = "?s2\<lparr>ProofIssuersByBlockID := fmupd (b32 50) (fmupd (b32 1) () fmempty) fmempty\<rparr>"
  let ?c1 = "c\<lparr>deliverState := ?s1\<rparr>"
  let ?c2 = "c\<lparr>deliverState := ?s2\<rparr>"
  let ?c3 = "c\<lparr>deliverState := ?s3\<rparr>"
  have 1: "abci_step TL demo_flag 2 c (BeginBlockC ?hd) ?c1"
    using demo_begin [of ?hd c] h by simp
  have "Apply TL (Parent (MilestoneIndex st) (b32 50)) (bytes_of (b32 1)) (deliverState ?c1) = Ret (None, ?s2)"
    by (simp add: s Parent_Apply_def)
  from demo_deliver [OF _ this, of k] com
  have 2: "abci_step TL demo_flag 2 ?c1 (DeliverTxC (demo_tx (Parent (MilestoneIndex st) (b32 50)))) ?c2"
    by simp
  have "Apply TL (Proof (MilestoneIndex st) (b32 50)) (bytes_of (b32 1)) (deliverState ?c2) = Ret (None, ?s3)"
    by (simp add: s Proof_Apply_def)
  from demo_deliver [OF _ this, of k] com
  have 3: "abci_step TL demo_flag 2 ?c2 (DeliverTxC (demo_tx (Proof (MilestoneIndex st) (b32 50)))) ?c3"
    by simp
  show ?thesis using run_Cons [OF 1 run_Cons [OF 2 run_one [OF 3]]] by (simp add: demo_round_def demo_voted_def)
qed

lemma demo_block1:
  assumes com: "coCommittee c = demo_com k" and inv: "coo_inv TL c"
    and s: "deliverState c = Reset st s0" and h: "Height (cms c) = h"
  shows "\<exists>c' ms. run TL demo_flag 2 c (take 5 (demo_round st h)) c' \<and> coCommittee c' = demo_com k \<and>
    Milestone (deliverState c') = Some ms \<and> State (deliverState c') = st \<and>
    SignaturesByIssuer (deliverState c') = fmempty \<and> Height (cms c') = h + 1 \<and> submitted c' = submitted c"
proof -
  let ?s3 = "demo_voted \<lparr>hdrHeight = h + 1, hdrTime = 1000\<rparr> (deliverState c)"
  let ?c3 = "c\<lparr>deliverState := ?s3\<rparr>"
  have r3: "run TL demo_flag 2 c (take 3 (demo_round st h)) ?c3" by (rule demo_votes [OF com s h])
  have s3: "Milestone ?s3 = None" "State ?s3 = st" "SignaturesByIssuer ?s3 = fmempty"
    "proposers ?s3 (b32 50) = {b32 1}" "provers ?s3 (b32 50) = {b32 1}"
    by (simp_all add: demo_voted_def s proposers_def provers_def)
  have inv3: "coo_inv TL ?c3" using run_inv [OF toy_lib_ok r3 inv] .
  obtain c4 bs ps where e: "EndBlock TL demo_node bs ps ?c3 = Val () c4"
    "enumerates bs (ProofIssuersByBlockID (deliverState ?c3))" and 4: "abci_step TL demo_flag 2 ?c3 EndBlockC c4"
    using demo_end [of ?c3] by blast
  have e2: "enumerates bs (ProofIssuersByBlockID ?s3)" using e(2) by simp
  have F0: "F ?c3 = 0" using com by (simp add: F_def demo_com_def)
  have w: "0 < weight 0 ?s3 bs"
  proof (rule weight_of_block [OF _ e2])
    show "tally_inv ?s3" using inv3 by (simp add: coo_inv_def state_ok_def app_inv_def)
    show "0 < int (card (proposers ?s3 (b32 50)))" "0 < int (card (provers ?s3 (b32 50)))"
      by (simp_all add: s3)
  qed simp
  have cond: "Milestone (deliverState ?c3) = None \<and> F ?c3 < weight (F ?c3) (deliverState ?c3) bs"
    using w F0 by (simp add: s3)
  obtain ms where "deliverState c4 = (deliverState ?c3)\<lparr>Milestone := Some ms\<rparr>"
    using EndBlock_Val(2) [OF e(1)] unfolding if_P [OF cond] Let_def by blast
  then have ms: "deliverState c4 = ?s3\<lparr>Milestone := Some ms\<rparr>" by simp
  have f4: "coCommittee c4 = demo_com k" "submitted c4 = submitted c"
    using EndBlock_Val(1) [OF e(1)] com by (auto simp: frame_def base_def)
  have inv4: "coo_inv TL c4" using abci_step_inv [OF toy_lib_ok inv3 4] .
  obtain ks r c5 where co: "Commit TL ks c4 = Val r c5" and 5: "abci_step TL demo_flag 2 c4 CommitC c5"
    using demo_commit by blast
  note v = Commit_Val [OF toy_tx_ok(1) co]
  have "\<not> completes c4 m" for m
    by (simp add: completes_def ms s3 f4(1) T_def demo_com_def)
  then have d5: "deliverState c5 = deliverState c4" "submitted c5 = submitted c"
    using v(4) f4(2) by auto
  have h5: "Height (cms c5) = h + 1" using v(3) ms by (auto simp: demo_voted_def)
  have "coCommittee c5 = demo_com k" using v(1) f4(1) by (simp add: base_def)
  moreover have "run TL demo_flag 2 c (take 5 (demo_round st h)) c5"
    using run_trans [OF run_Cons [OF 4 run_one [OF 5]] r3] by (simp add: demo_round_def)
  moreover have "Milestone (deliverState c5) = Some ms" "State (deliverState c5) = st"
      "SignaturesByIssuer (deliverState c5) = fmempty"
    using d5(1) ms s3 by simp_all
  ultimately show ?thesis using d5(2) h5 by blast
qed

text \<open>The second block completes it.\<close>

lemma demo_block2:
  assumes com: "coCommittee c = demo_com k" and inv: "coo_inv TL c"
    and ms: "Milestone (deliverState c) = Some ms" and st: "State (deliverState c) = st"
    and sg: "SignaturesByIssuer (deliverState c) = fmempty" and h: "Height (cms c) = h + 1"
  shows "\<exists>c' st' s'. run TL demo_flag 2 c (drop 5 (demo_round st h)) c' \<and> coCommittee c' = demo_com k \<and>
    deliverState c' = Reset st' s' \<and> Height (cms c') = h + 2 \<and>
    length (submitted c') = Suc (length (submitted c))"
proof -
  let ?hd = "\<lparr>hdrHeight = h + 2, hdrTime = 1010\<rparr> :: header"
  let ?es = "le64 (ucast (MilestoneIndex st)) @ Metadata TL st"
  let ?s1 = "(deliverState c)\<lparr>blockHeader := ?hd\<rparr>"
  let ?s2 = "?s1\<lparr>SignaturesByIssuer :=
    fmupd (b32 1) \<lparr>sigPublicKey = b32 1, sigSignature = toy_sig (b32 1) ?es\<rparr> fmempty\<rparr>"
  let ?c1 = "c\<lparr>deliverState := ?s1\<rparr>"
  let ?c2 = "c\<lparr>deliverState := ?s2\<rparr>"
  let ?t = "PartialSignature (toy_sig (b32 1) ?es)"
  have 1: "abci_step TL demo_flag 2 c (BeginBlockC ?hd) ?c1"
    using demo_begin [of ?hd c] h by (simp add: add.assoc)
  have "carries TL st ms"
    using inv ms st by (simp add: coo_inv_def state_ok_def milestone_inv_def)
  then have "toy_essence ms = ?es" by (simp add: toy_essence_def carries_def)
  then have "PartialSignature_Apply TL (toy_sig (b32 1) ?es) (bytes_of (b32 1)) ?s1 = Ret (None, ?s2)"
    unfolding PartialSignature_Apply_Ret_None using ms sg by (simp add: toy_tx_fields)
  then have "Apply TL ?t (bytes_of (b32 1)) (deliverState ?c1) = Ret (None, ?s2)" by simp
  from demo_deliver [OF _ this, of k] com
  have 2: "abci_step TL demo_flag 2 ?c1 (DeliverTxC (demo_tx ?t)) ?c2"
    by simp
  obtain c3 bs ps where e: "EndBlock TL demo_node bs ps ?c2 = Val () c3"
    and 3: "abci_step TL demo_flag 2 ?c2 EndBlockC c3"
    using demo_end [of ?c2] by blast
  have d3: "deliverState c3 = ?s2"
    using EndBlock_Val(2) [OF e(1)] by (simp add: ms)
  have f3: "coCommittee c3 = demo_com k" "submitted c3 = submitted c"
    using EndBlock_Val(1) [OF e(1)] com by (auto simp: frame_def base_def)
  have r3: "run TL demo_flag 2 c (take 3 (drop 5 (demo_round st h))) c3"
    using run_Cons [OF 1 run_Cons [OF 2 run_one [OF 3]]] by (simp add: demo_round_def)
  have inv3: "coo_inv TL c3" using run_inv [OF toy_lib_ok r3 inv] .
  obtain ks r c4 where co: "Commit TL ks c3 = Val r c4" and 4: "abci_step TL demo_flag 2 c3 CommitC c4"
    using demo_commit by blast
  note v = Commit_Val [OF toy_tx_ok(1) co]
  have "completes c3 ms"
    by (simp add: completes_def d3 ms f3(1) T_def demo_com_def map_len_fmupd)
  then have ex: "\<exists>m. completes c3 m" by blast
  obtain st' x where "deliverState c4 = Reset st' (deliverState c3)" "submitted c4 = submitted c3 @ [x]"
    using v(4) unfolding if_P [OF ex] Let_def by blast
  moreover have "Height (cms c4) = h + 2" using v(3) d3 by auto
  moreover have "coCommittee c4 = demo_com k" using v(1) f3(1) by (simp add: base_def)
  moreover have "run TL demo_flag 2 c (drop 5 (demo_round st h)) c4"
    using run_trans [OF run_one [OF 4] r3] by (simp add: demo_round_def)
  moreover have "length (submitted c4) = Suc (length (submitted c))"
    using \<open>submitted c4 = submitted c3 @ [x]\<close> f3(2) by simp
  ultimately show ?thesis by blast
qed

lemma demo_round_run:
  assumes "coCommittee c = demo_com k" and inv: "coo_inv TL c"
    and "deliverState c = Reset st s0" and "Height (cms c) = h"
  shows "\<exists>c' st' s'. run TL demo_flag 2 c (demo_round st h) c' \<and> coCommittee c' = demo_com k \<and>
    deliverState c' = Reset st' s' \<and> Height (cms c') = h + 2 \<and>
    length (submitted c') = Suc (length (submitted c))"
proof -
  obtain d ms where d: "run TL demo_flag 2 c (take 5 (demo_round st h)) d" "coCommittee d = demo_com k"
    "Milestone (deliverState d) = Some ms" "State (deliverState d) = st"
    "SignaturesByIssuer (deliverState d) = fmempty" "Height (cms d) = h + 1" "submitted d = submitted c"
    using demo_block1 [OF assms] by blast
  have "coo_inv TL d" using run_inv [OF toy_lib_ok d(1) inv] .
  from demo_block2 [OF d(2) this d(3,4,5,6)]
  show ?thesis using run_trans [OF _ d(1)] d(7) by (metis append_take_drop_id)
qed

definition state_at7 :: state where
  "state_at7 =
     \<lparr>MilestoneHeight = 0, MilestoneIndex = 7, LastMilestoneID = b32 6, LastMilestoneBlockID = b32 106\<rparr>"

lemma demo_start:
  "\<exists>c. ready TL c \<and> coCommittee c = demo_com k \<and> deliverState c = Reset state_at7 zero_state \<and>
     Height (cms c) = 0 \<and> Hash TL (Reset state_at7 zero_state) = Ret (CommitHash (cms c)) \<and> submitted c = []"
proof -
  obtain c0 where c0: "New TL (demo_com k) 0 = Inr c0"
    by (simp add: New_def demo_com_def toy_tx_fields)
  obtain c where c: "initState TL 0 state_at7 c0 = Val () c"
    using initState_total [OF toy_tx_ok(1) [of "()"]] by blast
  then have "Bootstrap TL demo_node True 7 (b32 6) (b32 106) c0 = Val None c"
    by (simp add: Bootstrap_def state_at7_def)
  with c0 have "ready TL c" by (rule ready.bootstrapped)
  moreover have "coCommittee c0 = demo_com k" "deliverState c0 = zero_state" "submitted c0 = []"
    using c0 by (auto simp: New_Inr_iff submitted_def)
  ultimately show ?thesis using initState_Val [OF c] by (auto simp: base_def)
qed

lemma demo_two_rounds:
  "\<exists>c ks c'. ready TL c \<and> coCommittee c = demo_com 1 \<and> run TL demo_flag 2 c ks c' \<and> length (submitted c') = 2"
proof -
  obtain c where c: "ready TL c" "coCommittee c = demo_com 1" "deliverState c = Reset state_at7 zero_state"
    "Height (cms c) = 0" "submitted c = []"
    using demo_start by blast
  then have "coo_inv TL c" using ready_inv by blast
  from demo_round_run [OF c(2) this c(3,4)]
  obtain d st s where d: "run TL demo_flag 2 c (demo_round state_at7 0) d" "coCommittee d = demo_com 1"
    "deliverState d = Reset st s" "Height (cms d) = 0 + 2" "length (submitted d) = Suc (length (submitted c))"
    by blast
  have "coo_inv TL d" using run_inv [OF toy_lib_ok d(1)] ready_inv c(1) by blast
  from demo_round_run [OF d(2) this d(3,4)]
  obtain e where "run TL demo_flag 2 d (demo_round st (0 + 2)) e" "length (submitted e) = Suc (length (submitted d))"
    by blast
  then show ?thesis using run_trans [OF _ d(1)] c d(5) by (metis length_0_conv numeral_2_eq_2)
qed

end
