(* ===== verification/Liveness.thy ===== *)
theory Liveness
  imports Demo
begin

text \<open>
  What a committee achieves in a round, whatever its other members send: enough members that vote
  for one block and prove it get a milestone, and enough members that sign it complete it. The
  transactions of a block are an arbitrary list that contains theirs, and replicas make any local
  steps in between.
\<close>

section \<open>Delivered transactions\<close>

text \<open>A transaction that the members accept as \<open>t\<close> of the issuer \<open>p\<close>.\<close>

definition sent_by :: "'z tx_lib_scheme \<Rightarrow> committee \<Rightarrow> 32 word \<Rightarrow> bytes \<Rightarrow> peer_id \<Rightarrow> tx \<Rightarrow> bool" where
  "sent_by L com i tx p t \<longleftrightarrow> length tx \<le> MaxTxBytes \<and> UnmarshalTx L com i tx = Ret (Inr (bytes_of p, t))"

text \<open>The effect of delivering a list of transactions, none of which panics.\<close>

fun delivers :: "'z tx_lib_scheme \<Rightarrow> committee \<Rightarrow> bytes list \<Rightarrow> app_state \<Rightarrow> app_state \<Rightarrow> bool" where
  "delivers L com [] s s' = (s' = s)"
| "delivers L com (tx # txs) s s' = (\<exists>r s1. handleTx L com tx s = Ret (r, s1) \<and> delivers L com txs s1 s')"

lemma delivers_append:
  "delivers L com (txs @ txs') s s' \<longleftrightarrow> (\<exists>s1. delivers L com txs s s1 \<and> delivers L com txs' s1 s')"
  by (induction txs arbitrary: s) auto

lemma run_delivers:
  assumes "run L flag ver c (map DeliverTxC txs) c'"
  shows "delivers L (coCommittee c) txs (deliverState c) (deliverState c') \<and>
    coCommittee c' = coCommittee c \<and> submitted c' = submitted c"
  using assms
proof (induction txs arbitrary: c' rule: rev_induct)
  case Nil
  have "replicated c' = replicated c" if "run L flag ver c kk c'" "kk = []" for kk
    using that by (induction rule: run.induct) (use local_step_replicated in fastforce)+
  then show ?case using Nil by (simp add: replicated_def)
next
  case (snoc tx txs)
  then obtain d d' where d: "run L flag ver c (map DeliverTxC txs) d" "abci_step L flag ver d (DeliverTxC tx) d'"
    "replicated c' = replicated d'"
    using run_snoc [of L flag ver c _ c' "map DeliverTxC txs" "DeliverTxC tx"] by auto
  obtain r where "DeliverTx L tx d = Val r d'" using d(2) by (rule abci_step_DeliverE)
  then obtain s where s: "handleTx L (coCommittee d) tx (deliverState d) = Ret (r, s)" "d' = d\<lparr>deliverState := s\<rparr>"
    using deliver_tx.handler_Val by blast
  then show ?case using snoc.IH [OF d(1)] d(3) by (auto simp: delivers_append replicated_def)
qed

text \<open>A property that every delivery keeps.\<close>

lemma delivers_keeps:
  assumes "delivers L com txs s s'" and "P s"
    and "\<And>tx r s s'. tx \<in> set txs \<Longrightarrow> handleTx L com tx s = Ret (r, s') \<Longrightarrow> P s \<Longrightarrow> P s'"
  shows "P s'"
  using assms by (induction txs arbitrary: s) (auto, metis)

text \<open>A property that one of the deliveries establishes and the others keep.\<close>

lemma delivers_reaches:
  assumes "delivers L com txs s s'" and "tx \<in> set txs" and "P s"
    and "\<And>tx r s s'. tx \<in> set txs \<Longrightarrow> handleTx L com tx s = Ret (r, s') \<Longrightarrow> P s \<Longrightarrow> P s' \<and> (Q s \<longrightarrow> Q s')"
    and "\<And>r s s'. handleTx L com tx s = Ret (r, s') \<Longrightarrow> P s \<Longrightarrow> Q s'"
  shows "Q s'"
proof -
  obtain xs ys where txs: "txs = xs @ tx # ys" using assms(2) by (meson split_list)
  then obtain s1 r s2 where s: "delivers L com xs s s1" "handleTx L com tx s1 = Ret (r, s2)" "delivers L com ys s2 s'"
    using assms(1) by (auto simp: delivers_append)
  have "P s1" using delivers_keeps [of L com xs s s1 P] s(1) assms(3,4) txs by (metis Un_iff set_append)
  then have "P s2 \<and> Q s2" using assms(4) [OF assms(2) s(2)] assms(5) [OF s(2)] by blast
  then show ?thesis
    using delivers_keeps [of L com ys s2 s' "\<lambda>s. P s \<and> Q s"] s(3) assms(4) txs
    by (metis Un_iff list.set_intros(2) set_append)
qed

section \<open>One delivery\<close>

lemma handleTx_grows:
  assumes "handleTx L com tx s = Ret (r, s')"
  shows "State s' = State s" and "Milestone s' = Milestone s"
    and "fmlookup (ParentByIssuer s) p = Some b \<Longrightarrow> fmlookup (ParentByIssuer s') p = Some b"
    and "provers s b \<subseteq> provers s' b"
    and "fmlookup (SignaturesByIssuer s) p \<noteq> None \<Longrightarrow> fmlookup (SignaturesByIssuer s') p \<noteq> None"
proof -
  have "State s' = State s \<and> Milestone s' = Milestone s \<and>
    (fmlookup (ParentByIssuer s) p = Some b \<longrightarrow> fmlookup (ParentByIssuer s') p = Some b) \<and>
    provers s b \<subseteq> provers s' b \<and>
    (fmlookup (SignaturesByIssuer s) p \<noteq> None \<longrightarrow> fmlookup (SignaturesByIssuer s') p \<noteq> None)"
    using handleTx_Ret [OF assms]
  proof (elim disjE exE conjE)
    fix t q
    assume a: "Apply L t (bytes_of q) s = Ret (None, s')"
    show ?thesis
      using a by (cases t) (auto simp: Apply_Ret_None provers_def map_get_def split: if_splits option.splits)
  qed simp
  then show "State s' = State s" "Milestone s' = Milestone s" "provers s b \<subseteq> provers s' b"
    "fmlookup (ParentByIssuer s) p = Some b \<Longrightarrow> fmlookup (ParentByIssuer s') p = Some b"
    "fmlookup (SignaturesByIssuer s) p \<noteq> None \<Longrightarrow> fmlookup (SignaturesByIssuer s') p \<noteq> None"
    by blast+
qed

lemma handleTx_sent:
  assumes "handleTx L com tx s = Ret (r, s')" and "sent_by L com (MilestoneIndex (State s)) tx p t"
  shows "\<exists>err. Apply L t (bytes_of p) s = Ret (err, s')"
proof -
  obtain err s2 where a: "Apply L t (bytes_of p) s = Ret (err, s2)"
    using assms by (auto simp: handleTx_def sent_by_def go_simps)
  then have "s2 = s'" using assms by (auto simp: handleTx_def sent_by_def split: option.splits)
  then show ?thesis using a by blast
qed

lemma handleTx_changes:
  assumes "handleTx L com tx s = Ret (r, s')" and "s' \<noteq> s"
  shows "\<exists>p t. sent_by L com (MilestoneIndex (State s)) tx p t \<and> Apply L t (bytes_of p) s = Ret (None, s')"
proof -
  have "length tx \<le> MaxTxBytes" using assms by (auto simp: handleTx_def split: if_splits)
  then show ?thesis using handleTx_Ret [OF assms(1)] assms(2) by (auto simp: sent_by_def)
qed

text \<open>
  The members of \<open>A\<close> vote for \<open>b\<close> only: no transaction of the list carries another vote of theirs,
  and none has been applied.
\<close>

definition votes_only ::
    "'z tx_lib_scheme \<Rightarrow> committee \<Rightarrow> 32 word \<Rightarrow> peer_id set \<Rightarrow> block_id \<Rightarrow> bytes list \<Rightarrow> app_state \<Rightarrow> bool" where
  "votes_only L com i A b txs s \<longleftrightarrow>
     (\<forall>tx \<in> set txs. \<forall>p \<in> A. \<forall>b'. sent_by L com i tx p (Parent i b') \<longrightarrow> b' = b) \<and>
     (\<forall>p \<in> A. \<forall>b'. fmlookup (ParentByIssuer s) p = Some b' \<longrightarrow> b' = b)"

definition voting :: "'z tx_lib_scheme \<Rightarrow> committee \<Rightarrow> 32 word \<Rightarrow> app_state \<Rightarrow> bool" where
  "voting L com i s \<longleftrightarrow> state_ok L com s \<and> MilestoneIndex (State s) = i \<and> Milestone s = None"

lemma handleTx_voting: "handleTx L com tx s = Ret (r, s') \<Longrightarrow> voting L com i s \<Longrightarrow> voting L com i s'"
  using handleTx_state_ok handleTx_grows(1,2) by (metis voting_def)

lemma handleTx_votes_only:
  assumes h: "handleTx L com tx s = Ret (r, s')" and "tx \<in> set txs" and "voting L com i s"
    and v: "votes_only L com i A b txs s"
  shows "votes_only L com i A b txs s'"
proof (cases "s' = s")
  case False
  then obtain q t where t: "sent_by L com i tx q t" "Apply L t (bytes_of q) s = Ret (None, s')"
    using handleTx_changes [OF h] assms(3) by (auto simp: voting_def)
  show ?thesis
  proof (cases t)
    case (Parent j b')
    then have j: "j = i" using t(2) assms(3) by (simp add: Apply_Ret_None voting_def)
    then have "q \<in> A \<longrightarrow> b' = b" using v t(1) assms(2) Parent by (auto simp: votes_only_def)
    then show ?thesis using v t(2) Parent by (auto simp: votes_only_def Apply_Ret_None split: if_splits)
  qed (use v t(2) in \<open>auto simp: votes_only_def Apply_Ret_None\<close>)
qed (use v in simp)

text \<open>A vote of a loyal member counts, then also a proof of the block, and a valid signature does.\<close>

lemma handleTx_vote:
  assumes "handleTx L com tx s = Ret (r, s')" and "sent_by L com i tx p (Parent i b)" and "voting L com i s"
    and "\<forall>b'. fmlookup (ParentByIssuer s) p = Some b' \<longrightarrow> b' = b"
  shows "fmlookup (ParentByIssuer s') p = Some b"
proof (cases "fmlookup (ParentByIssuer s) p")
  case None
  obtain err where "Apply L (Parent i b) (bytes_of p) s = Ret (err, s')"
    using handleTx_sent [OF assms(1), of p "Parent i b"] assms(2,3) unfolding voting_def by blast
  then show ?thesis using None assms(3) by (auto simp: Parent_Apply_def voting_def)
next
  case (Some b')
  then show ?thesis using handleTx_grows(3) [OF assms(1)] assms(4) by blast
qed

lemma handleTx_proof:
  assumes "handleTx L com tx s = Ret (r, s')" and "sent_by L com i tx p (Proof i b)" and "voting L com i s"
    and "proposers s b \<noteq> {}"
  shows "p \<in> provers s' b"
proof -
  have "1 \<le> map_get 0 (IssuerCountByParent s) b"
    using assms(3,4) by (simp add: voting_def state_ok_def app_inv_def tally_inv_def Suc_le_eq card_gt_0_iff)
  moreover obtain err where "Apply L (Proof i b) (bytes_of p) s = Ret (err, s')"
    using handleTx_sent [OF assms(1), of p "Proof i b"] assms(2,3) unfolding voting_def by blast
  ultimately show ?thesis
    using assms(3)
    by (auto simp: Proof_Apply_def voting_def provers_def map_get_def fmlookup_dom'_iff split: option.splits if_splits)
qed

lemma handleTx_signature:
  assumes "handleTx L com tx s = Ret (r, s')" and "sent_by L com (MilestoneIndex (State s)) tx p (PartialSignature sig)"
    and "Milestone s = Some ms" and "essence_of L ms = Some es" and "length sig = 64" and "verify_raw L p es sig"
  shows "fmlookup (SignaturesByIssuer s') p \<noteq> None"
proof -
  obtain err where "Apply L (PartialSignature sig) (bytes_of p) s = Ret (err, s')"
    using handleTx_sent [OF assms(1,2)] by blast
  then show ?thesis using assms(3-) by (auto simp: PartialSignature_Apply_def split: if_splits)
qed

section \<open>A round\<close>

lemma delivers_voting: "delivers L com txs s s' \<Longrightarrow> voting L com i s \<Longrightarrow> voting L com i s'"
  by (rule delivers_keeps [where P = "voting L com i"]) (auto dest: handleTx_voting)

lemma delivers_vote:
  assumes d: "delivers L com txs s s'" and v: "voting L com i s" "votes_only L com i A b all s"
    and "set txs \<subseteq> set all" and "p \<in> A"
    and "fmlookup (ParentByIssuer s) p = Some b \<or> (\<exists>tx \<in> set txs. sent_by L com i tx p (Parent i b))"
  shows "fmlookup (ParentByIssuer s') p = Some b"
  using assms(6)
proof (elim disjE bexE)
  assume "fmlookup (ParentByIssuer s) p = Some b"
  then show ?thesis
    using delivers_keeps [OF d, of "\<lambda>s. fmlookup (ParentByIssuer s) p = Some b"] handleTx_grows(3) by blast
next
  fix tx
  assume tx: "tx \<in> set txs" "sent_by L com i tx p (Parent i b)"
  let ?P = "\<lambda>s. voting L com i s \<and> votes_only L com i A b all s"
  show ?thesis
  proof (rule delivers_reaches [OF d tx(1), of ?P])
    show "?P s' \<and> (fmlookup (ParentByIssuer s) p = Some b \<longrightarrow> fmlookup (ParentByIssuer s') p = Some b)"
      if "tx \<in> set txs" "handleTx L com tx s = Ret (r, s')" "?P s" for tx r s s'
      using handleTx_voting [OF that(2)] handleTx_votes_only [OF that(2)] handleTx_grows(3) [OF that(2)] that assms(4)
      by blast
    show "fmlookup (ParentByIssuer s') p = Some b" if "handleTx L com tx s = Ret (r, s')" "?P s" for r s s'
      using handleTx_vote [OF that(1) tx(2)] that(2) \<open>p \<in> A\<close> by (auto simp: votes_only_def)
  qed (use v in simp)
qed

lemma delivers_proof:
  assumes d: "delivers L com txs s s'" and v: "voting L com i s" and "fmlookup (ParentByIssuer s) p = Some b"
    and "q \<in> provers s b \<or> (\<exists>tx \<in> set txs. sent_by L com i tx q (Proof i b))"
  shows "q \<in> provers s' b"
  using assms(4)
proof (elim disjE bexE)
  assume "q \<in> provers s b"
  then show ?thesis using delivers_keeps [OF d, of "\<lambda>s. q \<in> provers s b"] handleTx_grows(4) by blast
next
  fix tx
  assume tx: "tx \<in> set txs" "sent_by L com i tx q (Proof i b)"
  let ?P = "\<lambda>s. voting L com i s \<and> fmlookup (ParentByIssuer s) p = Some b"
  show ?thesis
  proof (rule delivers_reaches [OF d tx(1), of ?P])
    show "?P s' \<and> (q \<in> provers s b \<longrightarrow> q \<in> provers s' b)"
      if "tx \<in> set txs" "handleTx L com tx s = Ret (r, s')" "?P s" for tx r s s'
      using handleTx_voting [OF that(2)] handleTx_grows(3,4) [OF that(2)] that(3) by blast
    show "q \<in> provers s' b" if "handleTx L com tx s = Ret (r, s')" "?P s" for r s s'
    proof (rule handleTx_proof [OF that(1) tx(2)])
      have "p \<in> proposers s b" using that(2) by (auto simp: proposers_def fmlookup_dom'_iff)
      then show "proposers s b \<noteq> {}" by blast
    qed (use that(2) in blast)
  qed (use v assms(3) in simp)
qed

lemma delivers_signature:
  assumes d: "delivers L com txs s s'" and "Milestone s = Some ms" and "MilestoneIndex (State s) = i"
    and "essence_of L ms = Some es"
    and "fmlookup (SignaturesByIssuer s) p \<noteq> None \<or> (\<exists>tx \<in> set txs. \<exists>sig.
      sent_by L com i tx p (PartialSignature sig) \<and> length sig = 64 \<and> verify_raw L p es sig)"
  shows "fmlookup (SignaturesByIssuer s') p \<noteq> None"
  using assms(5)
proof (elim disjE bexE exE conjE)
  assume "fmlookup (SignaturesByIssuer s) p \<noteq> None"
  then show ?thesis
    using delivers_keeps [OF d, of "\<lambda>s. fmlookup (SignaturesByIssuer s) p \<noteq> None"] handleTx_grows(5) by blast
next
  fix tx sig
  assume tx: "tx \<in> set txs" "sent_by L com i tx p (PartialSignature sig)"
    and sig: "length sig = 64" "verify_raw L p es sig"
  let ?P = "\<lambda>s. Milestone s = Some ms \<and> MilestoneIndex (State s) = i"
  show ?thesis
  proof (rule delivers_reaches [OF d tx(1), of ?P])
    show "?P s' \<and> (fmlookup (SignaturesByIssuer s) p \<noteq> None \<longrightarrow> fmlookup (SignaturesByIssuer s') p \<noteq> None)"
      if "tx \<in> set txs" "handleTx L com tx s = Ret (r, s')" "?P s" for tx r s s'
      using handleTx_grows(1,2,5) [OF that(2)] that(3) by simp
    show "fmlookup (SignaturesByIssuer s') p \<noteq> None" if "handleTx L com tx s = Ret (r, s')" "?P s" for r s s'
      using handleTx_signature [OF that(1) _ _ assms(4) sig] tx(2) that(2) by simp
  qed (use assms in simp)
qed

lemma delivers_frame: "delivers L com txs s s' \<Longrightarrow> State s' = State s \<and> Milestone s' = Milestone s"
  by (induction txs arbitrary: s) (auto dest: handleTx_grows(1,2))

text \<open>Votes of \<open>A\<close> and then proofs of \<open>B\<close> count at the end.\<close>

lemma delivers_votes_and_proofs:
  assumes d: "delivers L com txs s s1" "delivers L com txs' s1 s2" and v: "voting L com i s"
    and only: "votes_only L com i A b (txs @ txs') s" and "A \<noteq> {}"
    and A: "\<And>p. p \<in> A \<Longrightarrow> fmlookup (ParentByIssuer s) p = Some b \<or> (\<exists>tx \<in> set txs. sent_by L com i tx p (Parent i b))"
    and B: "\<And>q. q \<in> B \<Longrightarrow> q \<in> provers s b \<or> (\<exists>tx \<in> set txs'. sent_by L com i tx q (Proof i b))"
  shows "voting L com i s2" and "A \<subseteq> proposers s2 b" and "B \<subseteq> provers s2 b"
proof -
  have v1: "voting L com i s1" and "voting L com i s2" using delivers_voting d v by blast+
  then show "voting L com i s2" by blast
  have A1: "fmlookup (ParentByIssuer s1) p = Some b" if "p \<in> A" for p
    using delivers_vote [OF d(1) v only _ that A [OF that]] by simp
  then show "A \<subseteq> proposers s2 b"
    using delivers_keeps [OF d(2), of "\<lambda>s. fmlookup (ParentByIssuer s) p = Some b" for p] handleTx_grows(3)
    by (fastforce simp: proposers_def fmlookup_dom'_iff)
  obtain p where "fmlookup (ParentByIssuer s1) p = Some b" using A1 \<open>A \<noteq> {}\<close> by blast
  moreover have "provers s b \<subseteq> provers s1 b"
    using delivers_keeps [OF d(1), of "\<lambda>s'. provers s b \<subseteq> provers s' b"] handleTx_grows(4) by blast
  ultimately show "B \<subseteq> provers s2 b" using delivers_proof [OF d(2) v1] B by blast
qed

text \<open>Runs can be split, and the first call of a block sets its header.\<close>

lemma run_split: "run L flag ver c kk e \<Longrightarrow> kk = ks @ ls \<Longrightarrow> \<exists>d. run L flag ver c ks d \<and> run L flag ver d ls e"
proof (induction arbitrary: ls rule: run.induct)
  case (loc c kk c' c'')
  then obtain d where "run L flag ver c ks d" "run L flag ver d ls c'" by blast
  then show ?case using run.loc [OF _ loc.hyps(2)] by blast
next
  case (call c kk c' k c'')
  show ?case
  proof (cases ls rule: rev_cases)
    case Nil
    then show ?thesis using call.hyps call.prems by (metis append_Nil2 run.call run.nocall)
  next
    case (snoc ls' k')
    then obtain d where "run L flag ver c ks d" "run L flag ver d ls' c'" "k' = k"
      using call.IH [of ls'] call.prems by auto
    then show ?thesis using snoc call.hyps(2) run.call by blast
  qed
qed (auto intro: run.nocall)

lemma run_BeginBlock:
  assumes "run L flag ver c [BeginBlockC h] c'"
  shows "deliverState c' = (deliverState c)\<lparr>blockHeader := h\<rparr> \<and> coCommittee c' = coCommittee c"
proof -
  obtain d d' where d: "run L flag ver c [] d" "abci_step L flag ver d (BeginBlockC h) d'" "replicated c' = replicated d'"
    using run_snoc [OF assms, of "[]" "BeginBlockC h"] by auto
  have "deliverState d = deliverState c \<and> coCommittee d = coCommittee c"
    using run_delivers [of L flag ver c "[]" d] d(1) by simp
  moreover have "d' = d\<lparr>deliverState := (deliverState d)\<lparr>blockHeader := h\<rparr>\<rparr>"
    using d(2) by (auto elim!: abci_step_BeginE simp: BeginBlock_def go_simps split: option.splits)
  ultimately show ?thesis using d(3) by (simp add: replicated_def)
qed

lemma demo_sent:
  assumes "coCommittee c = demo_com k" and "case t of PartialSignature g \<Rightarrow> length g = 64 | _ \<Rightarrow> True"
  shows "sent_by TL (coCommittee c) i (demo_tx t) p t' \<longleftrightarrow> p = b32 1 \<and> t' = t"
proof -
  have "UnmarshalTx TL (coCommittee c) i (demo_tx t) = Ret (Inr (PublicKey (demo_com 1), t))"
    using UnmarshalTx_of_MarshalTx [OF toy_proto toy_tx_ok(2) demo_keypair demo_marshal, of "coCommittee c" i t] assms(1)
    by (simp add: demo_com_def Members_def singleKeyRange_def)
  moreover have "length (demo_tx t) \<le> MaxTxBytes"
    using MarshalTx_length [OF toy_proto demo_marshal assms(2)] by blast
  ultimately show ?thesis by (auto simp: sent_by_def PublicKey_def demo_com_def bytes_of_inject)
qed

text \<open>In a committee of the usual size, the agreed block is among the parents that are selected.\<close>

lemma agreed_parent_selected:
  assumes "lib_ok L" and v: "voting L com i s" and bs: "enumerates bs (ProofIssuersByBlockID s)"
    and "f < int (card (proposers s b))" and "f < int (card (provers s b))" and "0 \<le> f"
    and "finite (Members com i)" and "int (card (Members com i)) \<le> (f + 1) * (int (BlockMaxParents L) - 1)"
  shows "b \<in> set (selectParents L s (candidates f s bs))"
proof (cases "b = LastMilestoneBlockID (State s)")
  case True
  then show ?thesis using selectParents_facts(3) assms(1) by (auto simp: lib_ok_def)
next
  case False
  have t: "tally_inv s" "members_inv (Members com i) s"
    using v by (auto simp: voting_def state_ok_def app_inv_def)
  have "provers s b \<noteq> {}" using assms(5,6) by force
  then have "b \<in> set bs"
    using bs by (auto simp: enumerates_def provers_def map_get_def fmlookup_dom'_iff split: option.splits)
  moreover have "0 < map_get 0 (IssuerCountByParent s) b" using t(1) assms(4,6) by (simp add: tally_inv_def)
  ultimately have "b \<in> set (candidates f s bs)"
    using False assms(5) by (simp add: candidates_def confirmed_def)
  moreover have "distinct (candidates f s bs)" using bs by (simp add: candidates_def enumerates_def)
  moreover have "card (fmdom' (ParentByIssuer s)) \<le> card (Members com i)"
    using t(2) assms(7) by (intro card_mono) (auto simp: members_inv_def)
  ultimately show ?thesis
    using selectParents_keeps [of L s _ b f] t(1) assms(1,4,6,8) by (auto simp: lib_ok_def)
qed

lemma votes_create_milestone:
  assumes "lib_ok L" and "ready L c0" and "run L flag ver c0 ks c"
    and "Milestone (deliverState c) = None" and "i = MilestoneIndex (State (deliverState c))" and "0 \<le> F c"
    and "run L flag ver c (map DeliverTxC (txs @ txs') @ [EndBlockC]) c'"
    and "votes_only L (coCommittee c) i A b (txs @ txs') (deliverState c)"
    and "F c < int (card A)" and "\<And>p. p \<in> A \<Longrightarrow> fmlookup (ParentByIssuer (deliverState c)) p = Some b \<or>
      (\<exists>tx \<in> set txs. sent_by L (coCommittee c) i tx p (Parent i b))"
    and "F c < int (card B)" and "\<And>q. q \<in> B \<Longrightarrow> q \<in> provers (deliverState c) b \<or>
      (\<exists>tx \<in> set txs'. sent_by L (coCommittee c) i tx q (Proof i b))"
  shows "\<exists>ms. Milestone (deliverState c') = Some ms \<and> msIndex ms = i \<and>
    (finite (Members (coCommittee c) i) \<and>
       int (card (Members (coCommittee c) i)) \<le> (F c + 1) * (int (BlockMaxParents L) - 1) \<longrightarrow>
     b \<in> set (msParents ms))"
proof -
  let ?com = "coCommittee c"
  have "coo_inv L c" using run_inv [OF assms(1,3)] ready_inv assms(2) by blast
  then have v: "voting L ?com i (deliverState c)" using assms(4,5) by (simp add: voting_def coo_inv_def)
  obtain d d' where d: "run L flag ver c (map DeliverTxC (txs @ txs')) d" "abci_step L flag ver d EndBlockC d'"
    "replicated c' = replicated d'"
    using run_snoc [OF assms(7) refl] by blast
  note rd = run_delivers [OF d(1)]
  obtain s1 where s1: "delivers L ?com txs (deliverState c) s1" "delivers L ?com txs' s1 (deliverState d)"
    using rd by (auto simp: delivers_append)
  have "A \<noteq> {}" using assms(6,9) by auto
  note counted = delivers_votes_and_proofs [OF s1 v assms(8) this assms(10,12)]
  then have vd: "voting L ?com i (deliverState d)" by blast
  have Ad: "A \<subseteq> proposers (deliverState d) b" and Bd: "B \<subseteq> provers (deliverState d) b" using counted by blast+
  obtain env bs ps u where e: "EndBlock L env bs ps d = Val u d'"
    "enumerates bs (ProofIssuersByBlockID (deliverState d))"
    using d(2) by (auto elim: abci_step_EndE)
  have F: "F d = F c" using rd by (simp add: F_def)
  have "F d < weight (F d) (deliverState d) bs"
  proof (rule weight_of_block [OF _ e(2)])
    show "tally_inv (deliverState d)" using vd by (simp add: voting_def state_ok_def app_inv_def)
    show "F d < int (card (proposers (deliverState d) b))" "F d < int (card (provers (deliverState d) b))"
      using card_mono [OF _ Ad] card_mono [OF _ Bd] assms(9,11) F by force+
  qed (use assms(6) F in simp)
  then have "Milestone (deliverState d) = None \<and> F d < weight (F d) (deliverState d) bs"
    using vd by (simp add: voting_def)
  from EndBlock_Val(2) [OF e(1), unfolded if_P [OF this]] obtain incl appl where
    m: "Milestone (deliverState d') = Some (newMilestone L (protoVersion env) (deliverState d)
      (selectParents L (deliverState d) (candidates (F d) (deliverState d) bs)) incl appl)"
    by (auto simp: Let_def)
  have "b \<in> set (selectParents L (deliverState d) (candidates (F d) (deliverState d) bs))"
    if "finite (Members ?com i)" "int (card (Members ?com i)) \<le> (F d + 1) * (int (BlockMaxParents L) - 1)"
  proof (rule agreed_parent_selected [OF assms(1) vd e(2)])
    show "F d < int (card (proposers (deliverState d) b))" "F d < int (card (provers (deliverState d) b))"
      using card_mono [OF _ Ad] card_mono [OF _ Bd] assms(9,11) F by force+
  qed (use that assms(6) F in simp_all)
  then show ?thesis
    using m d(3) vd F by (simp add: replicated_def newMilestone_def NewMilestone_def voting_def)
qed

text \<open>
  C7. A committee that agrees gets its milestone, whatever the other members send. At any point of a
  run at which no milestone is under construction, take a block that contains, in any order with
  any other transactions, the votes of more than \<open>F\<close> members for \<open>b\<close> (or some that have been counted
  before), then the proofs of \<open>b\<close> of more than \<open>F\<close> members. If the voters vote for nothing else, there is a
  milestone of the current index at the end of the block, and in a committee that is not too large
  for the parents a block may have, \<open>b\<close> is one of its parents.
\<close>
theorem agreeing_members_create_milestone:
  assumes "lib_ok L" and "ready L c0" and "run L flag ver c0 ks c"
    and "Milestone (deliverState c) = None" and "i = MilestoneIndex (State (deliverState c))" and "0 \<le> F c"
    and "run L flag ver c (map DeliverTxC (txs @ txs') @ [EndBlockC]) c'"
    and "votes_only L (coCommittee c) i A b (txs @ txs') (deliverState c)"
    and "F c < int (card A)" and "\<And>p. p \<in> A \<Longrightarrow> fmlookup (ParentByIssuer (deliverState c)) p = Some b \<or>
      (\<exists>tx \<in> set txs. sent_by L (coCommittee c) i tx p (Parent i b))"
    and "F c < int (card B)" and "\<And>q. q \<in> B \<Longrightarrow> q \<in> provers (deliverState c) b \<or>
      (\<exists>tx \<in> set txs'. sent_by L (coCommittee c) i tx q (Proof i b))"
  shows "\<exists>ms. Milestone (deliverState c') = Some ms \<and> msIndex ms = i \<and>
    (finite (Members (coCommittee c) i) \<and>
       int (card (Members (coCommittee c) i)) \<le> (F c + 1) * (int (BlockMaxParents L) - 1) \<longrightarrow>
     b \<in> set (msParents ms))"
  using assms by (rule votes_create_milestone)

theorem agreeing_members_create_milestone_witness:
  "\<exists>c c' ms. run TL demo_flag 2 c (map DeliverTxC
       ([demo_tx (Parent 7 (b32 50))] @ [demo_tx (Proof 7 (b32 50))]) @ [EndBlockC]) c' \<and>
     Milestone (deliverState c) = None \<and> Milestone (deliverState c') = Some ms \<and> msIndex ms = 7"
proof -
  let ?v = "[demo_tx (Parent 7 (b32 50))]" and ?p = "[demo_tx (Proof 7 (b32 50))]"
  let ?h = "\<lparr>hdrHeight = 1, hdrTime = 1000\<rparr> :: header"
  obtain c0 where c0: "ready TL c0" "coCommittee c0 = demo_com 1" "deliverState c0 = Reset state_at7 zero_state"
    "Height (cms c0) = 0"
    using demo_start [of 1] by metis
  have "coo_inv TL c0" using ready_inv c0(1) by blast
  from demo_block1 [OF c0(2) this c0(3,4)] obtain e where
    "run TL demo_flag 2 c0 (take 5 (demo_round state_at7 0)) e" by blast
  moreover have "take 5 (demo_round state_at7 0) = [BeginBlockC ?h] @ (map DeliverTxC (?v @ ?p) @ [EndBlockC]) @ [CommitC]"
    by (simp add: demo_round_def state_at7_def)
  ultimately obtain c c' where c: "run TL demo_flag 2 c0 [BeginBlockC ?h] c"
    "run TL demo_flag 2 c (map DeliverTxC (?v @ ?p) @ [EndBlockC]) c'"
    using run_split by metis
  note b = run_BeginBlock [OF c(1)]
  have com: "coCommittee c = demo_com 1" using b c0(2) by simp
  have st: "Milestone (deliverState c) = None" "7 = MilestoneIndex (State (deliverState c))"
    "ParentByIssuer (deliverState c) = fmempty"
    using b c0(3) by (simp_all add: state_at7_def)
  have F: "F c = 0" by (simp add: F_def com demo_com_def)
  have "votes_only TL (coCommittee c) 7 {b32 1} (b32 50) (?v @ ?p) (deliverState c)"
    using demo_sent [OF com] by (auto simp: votes_only_def st(3))
  from agreeing_members_create_milestone [OF toy_lib_ok c0(1) c(1) st(1,2) _ c(2) this, of "{b32 1}"] F
  show ?thesis using c(2) st(1) demo_sent [OF com] by fastforce
qed

lemma signatures_complete_milestone:
  assumes "lib_ok L" and "ready L c0" and "run L flag ver c0 ks c"
    and "Milestone (deliverState c) = Some ms" and "essence_of L ms = Some es"
    and "run L flag ver c (map DeliverTxC txs @ [EndBlockC, CommitC]) c'"
    and "T c \<le> int (card S)" and "\<And>p. p \<in> S \<Longrightarrow> fmlookup (SignaturesByIssuer (deliverState c)) p \<noteq> None \<or>
      (\<exists>tx \<in> set txs. \<exists>sig. sent_by L (coCommittee c) (msIndex ms) tx p (PartialSignature sig) \<and>
         length sig = 64 \<and> verify_raw L p es sig)"
  shows "\<exists>sg. submitted c' = submitted c @ [ms\<lparr>msSignatures := sg\<rparr>] \<and>
    essence_of L (ms\<lparr>msSignatures := sg\<rparr>) = Some es \<and>
    MilestoneIndex (State (deliverState c')) = msIndex ms + 1 \<and> Milestone (deliverState c') = None"
proof -
  let ?com = "coCommittee c" and ?i = "MilestoneIndex (State (deliverState c))"
  have L: "json_ok L" "essence_ok L" using assms(1) by (auto simp: lib_ok_def)
  have "coo_inv L c" using run_inv [OF assms(1,3)] ready_inv assms(2) by blast
  then have i: "msIndex ms = ?i"
    using assms(4) by (simp add: coo_inv_def state_ok_def milestone_inv_def carries_def)
  obtain e e' where e: "run L flag ver c (map DeliverTxC txs @ [EndBlockC]) e" "abci_step L flag ver e CommitC e'"
    "replicated c' = replicated e'"
    using run_snoc [OF assms(6), of "map DeliverTxC txs @ [EndBlockC]" CommitC] by auto
  obtain d d' where d: "run L flag ver c (map DeliverTxC txs) d" "abci_step L flag ver d EndBlockC d'"
    "replicated e = replicated d'"
    using run_snoc [OF e(1) refl] by blast
  note rd = run_delivers [OF d(1)]
  then have dl: "delivers L ?com txs (deliverState c) (deliverState d)" by blast
  then have P: "State (deliverState d) = State (deliverState c) \<and> Milestone (deliverState d) = Some ms"
    using delivers_frame assms(4) by metis
  have S: "fmlookup (SignaturesByIssuer (deliverState d)) p \<noteq> None" if "p \<in> S" for p
    using delivers_signature [OF dl assms(4) i [symmetric] assms(5) assms(8) [OF that]] .
  obtain env bs ps u where "EndBlock L env bs ps d = Val u d'" using d(2) by (auto elim: abci_step_EndE)
  note eb = EndBlock_Val [OF this]
  have d': "deliverState d' = deliverState d" "coCommittee d' = ?com" "submitted d' = submitted c"
    using eb P rd by (auto simp: frame_def base_def)
  have e': "deliverState e = deliverState d" "T e = T c" "submitted e = submitted c"
    using d(3) d' by (auto simp: replicated_def T_def)
  have "S \<subseteq> fmdom' (SignaturesByIssuer (deliverState d))" using S by (auto simp: fmlookup_dom'_iff)
  then have "card S \<le> card (fmdom' (SignaturesByIssuer (deliverState d)))" by (intro card_mono) auto
  then have "completes e ms" using e' P assms(7) by (simp add: completes_def map_len_def)
  then have ex: "\<exists>ms. completes e ms" by blast
  obtain kk r where "Commit L kk e = Val r e'" using e(2) by (auto elim: abci_step_CommitE)
  from Commit_Val(4) [OF L(1) this, unfolded if_P [OF ex]] obtain x sg st where
    x: "completes e x" "submitted e' = submitted e @ [x\<lparr>msSignatures := sg\<rparr>]"
    "deliverState e' = Reset st (deliverState e)" "MilestoneIndex st = MilestoneIndex (State (deliverState e)) + 1"
    by (auto simp: Let_def)
  have x_ms: "x = ms" using x(1) e' P by (simp add: completes_def)
  have "essence_of L (ms\<lparr>msSignatures := sg\<rparr>) = Some es" using L(2) assms(5) by (simp add: essence_ok_def)
  then show ?thesis using x e' e(3) P i unfolding x_ms by (intro exI [of _ sg]) (simp add: replicated_def)
qed

text \<open>
  C8. A committee that signs completes its milestone, whatever the other members send: if a block
  contains valid signatures of the milestone under construction by at least \<open>T\<close> members (or they
  have been counted before), the milestone is handed over at the end of the block, with the
  essence the members signed, and the voting for the next index begins.
\<close>
theorem signing_members_complete_milestone:
  assumes "lib_ok L" and "ready L c0" and "run L flag ver c0 ks c"
    and "Milestone (deliverState c) = Some ms" and "essence_of L ms = Some es"
    and "run L flag ver c (map DeliverTxC txs @ [EndBlockC, CommitC]) c'"
    and "T c \<le> int (card S)" and "\<And>p. p \<in> S \<Longrightarrow> fmlookup (SignaturesByIssuer (deliverState c)) p \<noteq> None \<or>
      (\<exists>tx \<in> set txs. \<exists>sig. sent_by L (coCommittee c) (msIndex ms) tx p (PartialSignature sig) \<and>
         length sig = 64 \<and> verify_raw L p es sig)"
  shows "\<exists>ms'. submitted c' = submitted c @ [ms'] \<and> essence_of L ms' = Some es \<and>
    MilestoneIndex (State (deliverState c')) = msIndex ms + 1 \<and> Milestone (deliverState c') = None"
  using signatures_complete_milestone [OF assms] by blast

theorem signing_members_complete_milestone_witness:
  "\<exists>c c' ms ms'. Milestone (deliverState c) = Some ms \<and>
     run TL demo_flag 2 c (map DeliverTxC [demo_tx (PartialSignature (toy_sig (b32 1) (toy_essence ms)))] @
       [EndBlockC, CommitC]) c' \<and>
     submitted c' = submitted c @ [ms'] \<and> essence_of TL ms' = essence_of TL ms"
proof -
  let ?h = "\<lparr>hdrHeight = 2, hdrTime = 1010\<rparr> :: header"
  let ?es = "le64 (ucast (MilestoneIndex state_at7)) @ Metadata TL state_at7"
  let ?t = "PartialSignature (toy_sig (b32 1) ?es)"
  obtain c0 where c0: "ready TL c0" "coCommittee c0 = demo_com 1" "deliverState c0 = Reset state_at7 zero_state"
    "Height (cms c0) = 0"
    using demo_start [of 1] by metis
  have i0: "coo_inv TL c0" using ready_inv c0(1) by blast
  from demo_block1 [OF c0(2) this c0(3,4)] obtain d ms where
    d: "run TL demo_flag 2 c0 (take 5 (demo_round state_at7 0)) d" "coCommittee d = demo_com 1"
    "Milestone (deliverState d) = Some ms" "State (deliverState d) = state_at7"
    "SignaturesByIssuer (deliverState d) = fmempty" "Height (cms d) = 0 + 1"
    by blast
  have i: "coo_inv TL d" using run_inv [OF toy_lib_ok d(1) i0] .
  then have es: "toy_essence ms = ?es"
    using d(3,4) by (simp add: coo_inv_def state_ok_def milestone_inv_def carries_def toy_essence_def)
  from demo_block2 [OF d(2) i d(3,4,5,6)] obtain e where
    "run TL demo_flag 2 d (drop 5 (demo_round state_at7 0)) e" by blast
  moreover have "drop 5 (demo_round state_at7 0) = [BeginBlockC ?h] @ (map DeliverTxC [demo_tx ?t] @ [EndBlockC, CommitC])"
    by (simp add: demo_round_def)
  ultimately obtain c where c: "run TL demo_flag 2 d [BeginBlockC ?h] c"
    "run TL demo_flag 2 c (map DeliverTxC [demo_tx ?t] @ [EndBlockC, CommitC]) e"
    using run_split by metis
  note b = run_BeginBlock [OF c(1)]
  have com: "coCommittee c = demo_com 1" using b d(2) by simp
  have ms: "Milestone (deliverState c) = Some ms" using b d(3) by simp
  have T: "T c = 1" by (simp add: T_def com demo_com_def)
  have "sent_by TL (coCommittee c) (msIndex ms) (demo_tx ?t) (b32 1) ?t" using demo_sent [OF com] by simp
  then have "\<exists>tx \<in> set [demo_tx ?t]. \<exists>sig. sent_by TL (coCommittee c) (msIndex ms) tx p (PartialSignature sig) \<and>
      length sig = 64 \<and> verify_raw TL p ?es sig" if "p \<in> {b32 1}" for p
    using that by (force simp: toy_tx_fields)
  then have "\<exists>ms'. submitted e = submitted c @ [ms'] \<and> essence_of TL ms' = Some ?es"
    using signing_members_complete_milestone [OF toy_lib_ok c0(1) run_trans [OF c(1) d(1)] ms _ c(2), of ?es "{b32 1}"]
      T es by (auto simp: toy_tx_fields)
  then show ?thesis using ms c(2) es by (fastforce simp: toy_tx_fields)
qed

end
