(* ===== verification/AppProperties.thy ===== *)
theory AppProperties
  imports Demo
begin

text \<open>
  Properties of the single operations of the ABCI application and of the coordinator: what each
  of them returns, when it panics, and what it leaves behind.
\<close>

section \<open>Transactions\<close>

text \<open>
  C35. A transaction that \<open>CheckTx\<close> or \<open>DeliverTx\<close> answers with a code other than OK changes
  nothing in the coordinator.
\<close>
theorem rejected_tx_changes_nothing:
  assumes "CheckTx L tx c = Val r c' \<or> DeliverTx L tx c = Val r c'" and "Code r \<noteq> CodeTypeOK"
  shows "c' = c"
  using assms check_tx.handler_rejects deliver_tx.handler_rejects by blast

theorem rejected_tx_changes_nothing_witness:
  "\<exists>c r c'. DeliverTx TL (replicate 171 0) c = Val r c' \<and> Code r = CodeTypeSizeError \<and> c' = c"
proof -
  obtain c where "ready TL c" using demo_start [of 1] by metis
  have d: "DeliverTx TL (replicate 171 0) c = Val \<lparr>Code = CodeTypeSizeError, Log = None\<rparr> c"
    by (simp add: DeliverTx_def MaxTxBytes_def)
  then have "c = c"
    by (intro rejected_tx_changes_nothing [of TL "replicate 171 0" c]) (auto simp: code_defs)
  with d show ?thesis by fastforce
qed

text \<open>
  C36. The empty transaction makes \<open>CheckTx\<close> and \<open>DeliverTx\<close> panic on every coordinator: it is a
  well-formed message without a public key. As neither defers \<open>stopOnPanic\<close>, the coordinator is
  not stopped.
\<close>
theorem empty_tx_panics:
  assumes "proto_ok L"
  shows "\<exists>e e'. CheckTx L [] c = Raise e c \<and> DeliverTx L [] c = Raise e' c"
proof -
  obtain e e' d d' where "CheckTx L [] c = Raise e d" "DeliverTx L [] c = Raise e' d'"
    using check_tx.handler_empty_panics [OF assms] deliver_tx.handler_empty_panics [OF assms] by blast
  then show ?thesis
    using check_tx.handler_panics deliver_tx.handler_panics by blast
qed

theorem empty_tx_panics_witness:
  "\<exists>c e e'. ready TL c \<and> CheckTx TL [] c = Raise e c \<and> DeliverTx TL [] c = Raise e' c"
proof -
  obtain c where "ready TL c" using demo_start [of 1] by metis
  then show ?thesis using empty_tx_panics [OF toy_proto, of "()" c] by blast
qed

section \<open>Blocks\<close>

text \<open>
  \<open>BeginBlock\<close> returns exactly for the block after the last committed one; it then has
  recorded the header and changed nothing else. On any other height it does not return.
\<close>
theorem BeginBlock_checks_height:
  "BeginBlock h c = Val u c' \<longleftrightarrow>
     hdrHeight h = Height (cms c) + 1 \<and>
     c' = c\<lparr>deliverState := (deliverState c)\<lparr>blockHeader := h\<rparr>\<rparr>"
  by (auto simp: BeginBlock_def go_simps ValidateHeight_def LastCommitInfo_def Let_def split: if_splits)

text \<open>What only \<open>Start\<close> and \<open>Stop\<close> change; the operations leave it alone, also when they panic.\<close>

definition life :: "coordinator \<Rightarrow> bool \<times> bool \<times> bool" where
  "life c = (started c, stopped c, cancelled c)"

lemma life_upd [simp]:
  "life (emit e c) = life c" "life (c\<lparr>deliverState := s\<rparr>) = life c" "life (c\<lparr>checkState := s\<rparr>) = life c"
  "life (c\<lparr>cms := i\<rparr>) = life c" "life (c\<lparr>broadcastQueue := q\<rparr>) = life c"
  by (simp_all add: life_def)

lemma life_bind:
  assumes "life (exec_state r) = x" and "\<And>a c. life c = x \<Longrightarrow> life (exec_state (k a c)) = x"
  shows "life (exec_state (exec_bind r k)) = x"
  using assms by (cases r) auto

lemma life_createMilestoneEssence: "life (exec_state (createMilestoneEssence L env ps c)) = life c"
  unfolding createMilestoneEssence_def Let_def
  by (auto split: option.split intro!: life_bind)

lemma life_awaitParents: "life (exec_state (awaitParents env ps pr c)) = life c"
proof (induction ps arbitrary: pr c)
  case (Cons p ps)
  then show ?case
    by (auto simp: Let_def registerProcessParentOnSolid_def intro!: life_bind split: register_result.split)
qed simp

lemma life_completeMilestone: "life (exec_state (completeMilestone L ks ms c)) = life c"
  unfolding completeMilestone_def Let_def by (auto intro!: life_bind)

lemma life_broadcastPartial: "life (exec_state (broadcastPartial L ms c)) = life c"
  unfolding broadcastPartial_def by (auto intro!: life_bind split: sum.split)

lemma life_copyState: "life (exec_state (copyState L c)) = life c"
  by (simp add: copyState_def split: exec.split)

lemma life_commitState: "life (exec_state (commitState L c)) = life c"
  unfolding commitState_def by (auto intro!: life_bind)

lemma life_submitMilestoneBlock: "life (exec_state (submitMilestoneBlock L env ms c)) = life c"
  unfolding submitMilestoneBlock_def Let_def by (auto intro!: life_bind split: option.split)

lemmas life_ops =
  life_createMilestoneEssence life_awaitParents life_completeMilestone life_broadcastPartial
  life_copyState life_commitState life_submitMilestoneBlock

lemma stopOnPanic_stops:
  assumes "stopOnPanic r = Raise e c'" and "life (exec_state r) = life c"
  shows "stopped c' \<and> (\<not> stopped c \<longrightarrow> \<not> started c' \<and> Coordinator_Wait c' = Some (Val () c'))"
proof (cases r)
  case (Raise e0 d)
  then have d: "c' = exec_state (Stop d)"
    using assms(1) by (cases "Stop d") (auto simp: stopOnPanic_def)
  have "stopped c' \<and> (\<not> stopped d \<longrightarrow> \<not> started c' \<and> cancelled c')"
    using d by (auto simp: Stop_def Let_def split: go.splits)
  then show ?thesis using assms(2) Raise by (auto simp: life_def Coordinator_Wait_def Stop_def)
qed (use assms in \<open>simp add: stopOnPanic_def\<close>)

text \<open>
  C37. A panic of \<open>BeginBlock\<close>, \<open>EndBlock\<close>, \<open>Commit\<close> or of the submission of a milestone leaves
  a stopped coordinator: \<open>stopOnce\<close> has run before the panic is raised again. If it was not stopped
  before, it is no longer started and \<open>Wait\<close> returns, so whoever waits for it notices.
\<close>
theorem panics_stop_coordinator:
  assumes "BeginBlock h c = Raise e c' \<or> EndBlock L env bs ps c = Raise e c' \<or>
    Commit L ks c = Raise e c' \<or> submitRoutine L env ms c = Raise e c'"
  shows "stopped c' \<and> (\<not> stopped c \<longrightarrow> \<not> started c' \<and> Coordinator_Wait c' = Some (Val () c'))"
  using assms
proof (elim disjE)
  assume "BeginBlock h c = Raise e c'"
  then show ?thesis
    unfolding BeginBlock_def by (rule stopOnPanic_stops) (simp split: option.split)
next
  assume "EndBlock L env bs ps c = Raise e c'"
  then show ?thesis
    unfolding EndBlock_def by (rule stopOnPanic_stops) (auto simp: life_ops intro!: life_bind split: prod.split)
next
  assume "Commit L ks c = Raise e c'"
  then show ?thesis
    unfolding Commit_def Let_def
    by (rule stopOnPanic_stops) (auto simp: life_ops intro!: life_bind split: option.split)
next
  assume "submitRoutine L env ms c = Raise e c'"
  then show ?thesis
    unfolding submitRoutine_def
    by (rule stopOnPanic_stops) (auto simp: life_ops intro!: life_bind split: option.split)
qed

theorem panics_stop_coordinator_witness:
  "\<exists>c e c'. ready TL c \<and> \<not> stopped c \<and> BeginBlock \<lparr>hdrHeight = 5, hdrTime = 0\<rparr> c = Raise e c' \<and> stopped c' \<and>
     Coordinator_Wait c' = Some (Val () c')"
proof -
  obtain c where c: "ready TL c" "Height (cms c) = 0" using demo_start [of 1] by metis
  let ?h = "\<lparr>hdrHeight = 5, hdrTime = 0\<rparr> :: header"
  obtain e c' where r: "BeginBlock ?h c = Raise e c'"
  proof (cases "BeginBlock ?h c")
    case (Val u d)
    then have "hdrHeight ?h = Height (cms c) + 1"
      by (auto simp: BeginBlock_def go_simps ValidateHeight_def LastCommitInfo_def Let_def split: if_splits)
    then show ?thesis using c(2) by simp
  qed (use that in blast)
  have n: "\<not> stopped c" using c(1) by (simp add: ready_not_stopped)
  have "stopped c' \<and> (\<not> stopped c \<longrightarrow> \<not> started c' \<and> Coordinator_Wait c' = Some (Val () c'))"
    by (rule panics_stop_coordinator [where h = ?h and L = TL and env = demo_node and e = e]) (simp add: r)
  then show ?thesis using c(1) r n by blast
qed

text \<open>The weight that \<open>collectParents\<close> finds is the number of members that proposed a proven parent.\<close>

lemma weight_eq_card:
  assumes t: "tally_inv s" and bs: "enumerates bs (ProofIssuersByBlockID s)" and f: "0 \<le> f"
  shows "weight f s bs = int (card (\<Union>b \<in> {b. f < int (card (provers s b))}. proposers s b))"
proof -
  have "(\<Union>b \<in> set (filter (confirmed f s) bs). proposers s b) =
      (\<Union>b \<in> {b. f < int (card (provers s b))}. proposers s b)"
  proof (intro equalityI UN_least)
    fix b assume b: "b \<in> {b. f < int (card (provers s b))}"
    then have "provers s b \<noteq> {}" using f by auto
    then have "b \<in> set bs"
      using bs by (auto simp: enumerates_def provers_def map_get_def fmlookup_dom'_iff split: option.splits)
    moreover have "confirmed f s b" if "proposers s b \<noteq> {}"
      using t b that by (simp add: confirmed_def tally_inv_def card_gt_0_iff)
    ultimately show "proposers s b \<subseteq> (\<Union>b \<in> set (filter (confirmed f s) bs). proposers s b)"
      by fastforce
  qed (auto simp: confirmed_def)
  then show ?thesis using weight_card [OF t bs, of f] by simp
qed

text \<open>
  C17. What \<open>EndBlock\<close> does to the state: as long as the node answers it returns. If there is no
  milestone yet and more than \<open>F\<close> members proposed a parent that more than \<open>F\<close> members proved, it
  adds exactly a milestone without signatures: with the index, predecessor and metadata of the state,
  the block's time, distinct sorted parents backed by the votes and the last milestone block among
  them, and the roots the node computed for just these. Otherwise the state stays as it is; in
  particular a milestone that exists is never replaced.
\<close>
theorem EndBlock_creates_milestone:
  assumes "lib_ok L" and "node_ok env" and "coo_inv L c" and "0 \<le> F c"
    and "enumerates bs (ProofIssuersByBlockID (deliverState c))"
  shows "\<exists>c'. EndBlock L env bs ps c = Val () c' \<and>
    (let s = deliverState c in
     if Milestone s = None \<and> F c < int (card (\<Union>b \<in> {b. F c < int (card (provers s b))}. proposers s b))
     then \<exists>ms. deliverState c' = s\<lparr>Milestone := Some ms\<rparr> \<and>
       carries L (State s) ms \<and> parents_ok L ms \<and> backed (F c) s ms \<and> msSignatures ms = [] \<and>
       msTimestamp ms = ucast (hdrTime (blockHeader s)) \<and>
       computeWhiteFlag env (msIndex ms) (msTimestamp ms) (msParents ms) (msPreviousMilestoneID ms) =
         Some (bytes_of (msInclusionMerkleRoot ms), bytes_of (msAppliedMerkleRoot ms))
     else deliverState c' = s)"
proof -
  let ?s = "deliverState c"
  obtain c' where e: "EndBlock L env bs ps c = Val () c'"
    using EndBlock_total [OF assms(2)] by blast
  have t: "tally_inv ?s" and room: "F c + 1 \<le> int (BlockMaxParents L) - 1"
    using assms(3) by (auto simp: coo_inv_def state_ok_def app_inv_def F_def)
  note w = weight_eq_card [OF t assms(5,4)] and v = EndBlock_Val(2) [OF e]
  show ?thesis
  proof (cases "Milestone ?s = None \<and> F c < weight (F c) ?s bs")
    case True
    let ?sel = "selectParents L ?s (candidates (F c) ?s bs)"
    obtain i a where ms: "computeWhiteFlag env (MilestoneIndex (State ?s)) (ucast (hdrTime (blockHeader ?s))) ?sel
        (LastMilestoneID (State ?s)) = Some (bytes_of i, bytes_of a)"
      "deliverState c' = ?s\<lparr>Milestone := Some (newMilestone L (protoVersion env) ?s ?sel i a)\<rparr>"
      using v True by (auto simp: Let_def)
    let ?ms = "newMilestone L (protoVersion env) ?s ?sel i a"
    have "milestone_inv L (F c) (?s\<lparr>Milestone := Some ?ms\<rparr>)"
      using newMilestone_inv [OF assms(1) room t _ assms(5)] True by simp
    then have "carries L (State ?s) ?ms \<and> parents_ok L ?ms \<and> backed (F c) ?s ?ms \<and> msSignatures ?ms = []"
      by (simp add: milestone_inv_def backed_def)
    moreover have "msTimestamp ?ms = ucast (hdrTime (blockHeader ?s)) \<and>
        computeWhiteFlag env (msIndex ?ms) (msTimestamp ?ms) (msParents ?ms) (msPreviousMilestoneID ?ms) =
          Some (bytes_of (msInclusionMerkleRoot ?ms), bytes_of (msAppliedMerkleRoot ?ms))"
      using ms(1) by (simp add: newMilestone_def NewMilestone_def)
    ultimately show ?thesis using True ms(2) e w unfolding Let_def by (intro exI [of _ c']) auto
  next
    case False
    then show ?thesis using v e w by (auto simp: Let_def)
  qed
qed

theorem EndBlock_creates_milestone_witness:
  "\<exists>c bs c' ms. coo_inv TL c \<and> Milestone (deliverState c) = None \<and> EndBlock TL demo_node bs [] c = Val () c' \<and>
    deliverState c' = (deliverState c)\<lparr>Milestone := Some ms\<rparr> \<and> msIndex ms = 7 \<and> msTimestamp ms = 1000"
proof -
  obtain c where c: "ready TL c" "coCommittee c = demo_com 1" "deliverState c = Reset state_at7 zero_state"
    "Height (cms c) = 0"
    using demo_start [of 1] by metis
  define s where "s = demo_voted \<lparr>hdrHeight = 0 + 1, hdrTime = 1000\<rparr> (deliverState c)"
  let ?d = "c\<lparr>deliverState := s\<rparr>"
  have inv: "coo_inv TL ?d"
    using run_inv [OF toy_lib_ok demo_votes [OF c(2-4)]] ready_inv [OF c(1)] by (simp add: s_def)
  obtain bs where bs: "enumerates bs (ProofIssuersByBlockID (deliverState ?d))"
    using enumerates_exists by blast
  have F: "F ?d = 0" using c(2) by (simp add: F_def demo_com_def)
  have "provers s x = (if x = b32 50 then {b32 1} else {})" "proposers s (b32 50) = {b32 1}" for x
    by (simp_all add: s_def demo_voted_def c(3) provers_def proposers_def map_get_def)
  then have "{b. 0 < card (provers s b)} = {b32 50}" "proposers s (b32 50) = {b32 1}" by auto
  then have "0 < card (\<Union>b \<in> {b. 0 < card (provers s b)}. proposers s b)" by simp
  moreover have s: "Milestone s = None" "MilestoneIndex (State s) = 7" "hdrTime (blockHeader s) = 1000"
    by (simp_all add: s_def demo_voted_def c(3) state_at7_def)
  ultimately show ?thesis
    using EndBlock_creates_milestone [OF toy_lib_ok demo_node_ok(1) inv _ bs, of "[]"] F inv
    by (fastforce simp: Let_def carries_def)
qed

text \<open>
  C18. When the two calls at the end of a block return. \<open>EndBlock\<close> returns whenever the node answers.
  \<open>Commit\<close> returns exactly if the library computes what it is asked for: with fewer than \<open>T\<close> signatures
  the essence of the milestone, if the local member has not signed it, and with enough of them the ID
  of the signed milestone and its block with an ID; without a milestone nothing is asked. So there
  is no other panic, whatever the state and the order in which the runtime visits the maps.
\<close>
theorem EndBlock_and_Commit_return:
  assumes "json_ok L" and "proto_ok L" and "node_ok env"
  shows "(\<exists>c'. EndBlock L env bs ps c = Val () c') \<and>
    ((\<exists>r c'. Commit L ks c = Val r c') \<longleftrightarrow>
     (\<forall>ms. Milestone (deliverState c) = Some ms \<longrightarrow>
        (let sigs = SignaturesByIssuer (deliverState c);
             full = ms\<lparr>msSignatures := sort_by (sig_less L) (map (\<lambda>k. the (fmlookup sigs k)) ks)\<rparr> in
         if map_len sigs < T c
         then fmlookup sigs (pubkey (privateKey (coCommittee c))) = None \<longrightarrow> essence_of L ms \<noteq> None
         else milestone_id_of L full \<noteq> None \<and>
              (\<exists>b. buildMilestoneBlock L full = Some b \<and> block_id_of L b \<noteq> None))))"
  using EndBlock_total [OF assms(3)] Commit_returns [OF assms(1,2), of ks c]
  by (simp add: commit_serializes_def sortedSignatures_def Let_def)

text \<open>
  In the example the block with the member's votes creates a milestone, and its commit returns. With a
  library that fails to compute the essence, the same commit panics.
\<close>

lemma demo_awaiting:
  "\<exists>d ms. coo_inv TL d \<and> Milestone (deliverState d) = Some ms \<and> SignaturesByIssuer (deliverState d) = fmempty \<and>
     coCommittee d = demo_com 1"
proof -
  obtain c where c: "ready TL c" "coCommittee c = demo_com 1" "deliverState c = Reset state_at7 zero_state"
    "Height (cms c) = 0"
    using demo_start [of 1] by metis
  have inv: "coo_inv TL c" using ready_inv [OF c(1)] by blast
  obtain d ms where d: "run TL demo_flag 2 c (take 5 (demo_round state_at7 0)) d" "coCommittee d = demo_com 1"
    "Milestone (deliverState d) = Some ms" "SignaturesByIssuer (deliverState d) = fmempty"
    using demo_block1 [OF c(2) inv c(3,4)] by metis
  then show ?thesis using run_inv [OF toy_lib_ok d(1) inv] by blast
qed

theorem EndBlock_and_Commit_return_witness:
  "\<exists>c ms. Milestone (deliverState c) = Some ms \<and> (\<exists>c'. EndBlock TL demo_node [] [] c = Val () c') \<and>
     (\<exists>r c'. Commit TL [] c = Val r c') \<and>
     \<not> (\<exists>r c'. Commit (TL\<lparr>essence_of := \<lambda>ms. None\<rparr>) [] c = Val r c')"
proof -
  let ?L = "TL\<lparr>essence_of := \<lambda>ms. None\<rparr>"
  obtain d ms where d: "coo_inv TL d" "Milestone (deliverState d) = Some ms"
    "SignaturesByIssuer (deliverState d) = fmempty" "coCommittee d = demo_com 1"
    using demo_awaiting by blast
  then have T: "T d = 1" by (simp add: T_def demo_com_def)
  have "json_ok ?L" using toy_tx_ok(1) [of "()"] by (simp add: json_ok_def)
  moreover have "proto_ok ?L" using toy_proto [of "()"] by (simp add: proto_ok_def)
  ultimately have "\<not> (\<exists>r c'. Commit ?L [] d = Val r c')"
    using EndBlock_and_Commit_return [where L = ?L and ks = "[]" and c = d] demo_node_ok(1) d T by (simp add: Let_def)
  moreover have "(\<exists>c'. EndBlock TL demo_node [] [] d = Val () c') \<and> (\<exists>r c'. Commit TL [] d = Val r c')"
    using EndBlock_and_Commit_return [OF toy_tx_ok(1) [of "()"] toy_proto demo_node_ok(1), where bs = "[]" and ps = "[]" and ks = "[]" and c = d] d T
    by (simp add: toy_tx_fields Let_def)
  ultimately show ?thesis using d(2) by blast
qed

section \<open>Commit\<close>

lemma Commit_incomplete:
  assumes j: "json_ok L" and ms: "Milestone (deliverState c) = Some ms"
    and few: "map_len (SignaturesByIssuer (deliverState c)) < T c"
    and own: "fmlookup (SignaturesByIssuer (deliverState c)) (pubkey (privateKey (coCommittee c))) = None"
    and es: "essence_of L ms = Some es"
    and tx: "MarshalTx L (coCommittee c) (PartialSignature (sigSignature (Sign L (coCommittee c) es))) = Inr tx"
  shows "\<exists>r s i. app_data.truncate s = app_data.truncate (deliverState c) \<and>
    Commit L ks c = Val r (c\<lparr>broadcastQueue := Queue_Submit KPartial tx (broadcastQueue c), checkState := s, cms := i\<rparr>)"
proof -
  let ?c1 = "c\<lparr>broadcastQueue := Queue_Submit KPartial tx (broadcastQueue c)\<rparr>"
  have b: "broadcastPartial L ms c = Val () ?c1"
    using es tx by (simp add: broadcastPartial_def tx_essence_def)
  obtain s where s: "Copy L (checkState c) (deliverState c) = Val () s"
    "app_data.truncate s = app_data.truncate (deliverState c)"
    using Copy_Val [OF j, of "checkState c" "deliverState c"] by blast
  then have cp: "copyState L ?c1 = Val () (?c1\<lparr>checkState := s\<rparr>)" by (simp add: copyState_def)
  obtain h where "Hash L (deliverState c) = Ret h" using Hash_Ret [OF j] by blast
  then have co: "commitState L (?c1\<lparr>checkState := s\<rparr>) =
      Val () (?c1\<lparr>checkState := s, cms := \<lparr>Height = hdrHeight (blockHeader (deliverState c)), CommitHash = h\<rparr>\<rparr>)"
    by (simp add: commitState_def CommitStore_Commit_def)
  have "\<not> T ?c1 \<le> map_len (SignaturesByIssuer (deliverState ?c1))" using few by simp
  then show ?thesis
    using ms few own b s cp co by (simp add: Commit_def Let_def stopOnPanic_def) blast
qed

text \<open>
  A member's signature reaches the mempool: if there is a milestone without enough signatures
  and the local member has not signed yet, \<open>Commit\<close> returns, the transaction it queues under
  \<open>KPartial\<close> fits the size limit, and \<open>CheckTx\<close> of the same coordinator accepts it afterwards.
\<close>
theorem Commit_broadcasts_own_signature:
  assumes L: "json_ok L" "proto_ok L" "ed25519_ok L"
    and key: "keypair L (privateKey (coCommittee c))"
      "pubkey (privateKey (coCommittee c)) \<in> Members (coCommittee c) (MilestoneIndex (State (deliverState c)))"
    and ms: "Milestone (deliverState c) = Some ms"
    and es: "essence_of L ms = Some es"
    and few: "map_len (SignaturesByIssuer (deliverState c)) < T c"
    and own: "fmlookup (SignaturesByIssuer (deliverState c)) (pubkey (privateKey (coCommittee c))) = None"
  shows "\<exists>r c' tx c''. Commit L ks c = Val r c' \<and>
    broadcastQueue c' = Queue_Submit KPartial tx (broadcastQueue c) \<and>
    CheckTx L tx c' = Val \<lparr>Code = CodeTypeOK, Log = None\<rparr> c''"
proof -
  let ?com = "coCommittee c" and ?s = "deliverState c"
  let ?sig = "sigSignature (Sign L ?com es)"
  obtain tx where tx: "MarshalTx L ?com (PartialSignature ?sig) = Inr tx"
    using MarshalTx_Inr [OF L(2)] by metis
  obtain r s i where s: "app_data.truncate s = app_data.truncate ?s" and
    co: "Commit L ks c = Val r (c\<lparr>broadcastQueue := Queue_Submit KPartial tx (broadcastQueue c), checkState := s, cms := i\<rparr>)"
    using Commit_incomplete [OF L(1) ms few own es tx] by blast
  let ?c' = "c\<lparr>broadcastQueue := Queue_Submit KPartial tx (broadcastQueue c), checkState := s, cms := i\<rparr>"
  have st: "State s = State ?s" "Milestone s = Some ms" "SignaturesByIssuer s = SignaturesByIssuer ?s"
    using s ms by (simp_all add: truncate_eq_iff)
  note sg = ed25519_ok_sign [OF L(3) key(1), of es]
  have sig: "?sig = sign_raw L (privateKey ?com) es"
    using sg(1) by (simp add: Sign_def copy64_id)
  have un: "UnmarshalTx L ?com (MilestoneIndex (State s)) tx = Ret (Inr (PublicKey ?com, PartialSignature ?sig))"
    using UnmarshalTx_of_MarshalTx [OF L(2,3) key(1) tx] key(2) st(1) by simp
  obtain s' where ap: "PartialSignature_Apply L ?sig (PublicKey ?com) s = Ret (None, s')"
    using PartialSignature_Apply_Ret_None [of L ?sig "pubkey (privateKey ?com)" s] st own es sg sig
    by (fastforce simp: PublicKey_def)
  have len: "length tx \<le> MaxTxBytes"
    using MarshalTx_length [OF L(2) tx] sg(1) sig by simp
  have "CheckTx L tx ?c' = Val \<lparr>Code = CodeTypeOK, Log = None\<rparr> (?c'\<lparr>checkState := s'\<rparr>)"
    using un ap len by (simp add: CheckTx_eq handleTx_def)
  with co show ?thesis by fastforce
qed

theorem Commit_broadcasts_own_signature_witness:
  "\<exists>c r c' tx c''. Commit TL [] c = Val r c' \<and>
    broadcastQueue c' = Queue_Submit KPartial tx (broadcastQueue c) \<and>
    CheckTx TL tx c' = Val \<lparr>Code = CodeTypeOK, Log = None\<rparr> c''"
proof -
  obtain d ms where d: "coCommittee d = demo_com 1" "Milestone (deliverState d) = Some ms" "coo_inv TL d"
    "SignaturesByIssuer (deliverState d) = fmempty"
    using demo_awaiting by blast
  have "\<exists>r c' tx c''. Commit TL [] d = Val r c' \<and>
    broadcastQueue c' = Queue_Submit KPartial tx (broadcastQueue d) \<and>
    CheckTx TL tx c' = Val \<lparr>Code = CodeTypeOK, Log = None\<rparr> c''"
  proof (rule Commit_broadcasts_own_signature [OF toy_tx_ok(1) toy_proto toy_tx_ok(2) _ _ d(2)])
    show "keypair TL (privateKey (coCommittee d))" using demo_keypair d(1) by simp
  qed (simp_all add: d demo_com_def Members_def singleKeyRange_def T_def toy_tx_fields)
  then show ?thesis by blast
qed

text \<open>
  After \<open>Commit\<close> the two states agree: \<open>CheckTx\<close> works on the committed fields, and the
  response and the commit info carry their hash and the height of the block.
\<close>
theorem Commit_synchronizes_states:
  assumes "json_ok L" and "Commit L ks c = Val r c'"
  shows "app_data.truncate (checkState c') = app_data.truncate (deliverState c') \<and>
    Hash L (checkState c') = Ret (CommitData r) \<and> CommitHash (cms c') = CommitData r \<and>
    Height (cms c') = hdrHeight (blockHeader (deliverState c))"
proof -
  note v = Commit_Val [OF assms]
  have "Hash L (checkState c') = Hash L (deliverState c')" using Hash_cong [OF v(2)] .
  then show ?thesis using v(2,3) by auto
qed

theorem Commit_synchronizes_states_witness:
  "\<exists>c r c'. ready TL c \<and> Commit TL [] c = Val r c' \<and>
    app_data.truncate (checkState c') = app_data.truncate (deliverState c')"
proof -
  obtain c where c: "ready TL c" using demo_start [of 1] by metis
  obtain r c' where "Commit TL [] c = Val r c'" using demo_returns by metis
  then show ?thesis using Commit_synchronizes_states [OF toy_tx_ok(1) [of "()"]] c by blast
qed

lemma sint_minus:
  assumes "- (2 ^ 63) \<le> sint h - sint m" and "sint h - sint m < 2 ^ 63"
  shows "sint (h - m :: 64 word) = sint h - sint m"
  using assms by (simp add: sint_word_ariths signed_take_bit_int_eq_self)

lemma sint_small:
  assumes "uint m < 2 ^ 63"
  shows "sint (m :: 64 word) = uint m"
proof -
  have "- (2 ^ 63) \<le> uint m" by (rule order_trans [OF _ uint_nonnegative]) simp
  then show ?thesis using assms signed_take_bit_int_eq_self [of 63 "uint m"] by (simp add: sint_uint)
qed

text \<open>
  For a committed height that is not negative and a retention that fits an \<open>int64\<close>,
  \<open>retainHeight\<close> is the height minus the retention, at least 0 and not above the height; a
  retention of 0 disables pruning.
\<close>
theorem retainHeight_bounds:
  assumes "0 \<le> sint h" and "uint m < 2 ^ 63"
  shows "sint (retainHeight m h) = (if m = 0 then 0 else max 0 (sint h - uint m))"
proof -
  have h: "sint h < 2 ^ 63" using sint_lt [of h] by simp
  have "sint (h - m) = sint h - uint m"
    using sint_minus [of h m] sint_small [OF assms(2)] assms(1) h uint_nonnegative [of m] assms(2) by linarith
  then show ?thesis by (simp add: retainHeight_def Let_def)
qed

theorem retainHeight_bounds_witness:
  "sint (retainHeight 100 250) = (if (100 :: 64 word) = 0 then 0 else max 0 (sint (250 :: 64 word) - uint (100 :: 64 word)))"
  by (rule retainHeight_bounds) simp_all

text \<open>A retention of 2^63 or more becomes negative, and the height to retain lies above the block.\<close>

lemma retainHeight_above_height: "retainHeight (2 ^ 64 - 1) 5 = 6"
  by (simp add: retainHeight_def Let_def)

section \<open>Copies\<close>

text \<open>
  \<open>Copy\<close> makes a deep copy of everything that is encoded, whatever the receiver held before:
  the fields are those of the source, the receiver keeps its own block header, and \<open>Hash\<close> cannot
  tell the two apart.
\<close>
theorem Copy_is_deep_copy:
  assumes "json_ok L"
  shows "Copy L a src = Val () ((src :: app_state)\<lparr>blockHeader := blockHeader a\<rparr>) \<and>
    Hash L (src\<lparr>blockHeader := blockHeader a\<rparr>) = Hash L src"
proof -
  obtain a' where a': "Copy L a src = Val () a'" "app_data.truncate a' = app_data.truncate src"
    "blockHeader a' = blockHeader a"
    using Copy_Val [OF assms] by blast
  have "a' = src\<lparr>blockHeader := blockHeader a\<rparr>"
  proof (rule app_state_eqI)
    show "app_data.truncate a' = app_data.truncate (src\<lparr>blockHeader := blockHeader a\<rparr>)"
      unfolding truncate_header by (rule a'(2))
    show "blockHeader a' = blockHeader (src\<lparr>blockHeader := blockHeader a\<rparr>)" using a'(3) by simp
  qed
  with a'(1) Hash_cong [OF truncate_header] show ?thesis by blast
qed

theorem Copy_is_deep_copy_witness:
  "Copy TL voted7 fresh7 = Val () (fresh7\<lparr>blockHeader := blockHeader voted7\<rparr>) \<and>
    Hash TL (fresh7\<lparr>blockHeader := blockHeader voted7\<rparr>) = Hash TL fresh7"
  by (rule Copy_is_deep_copy [OF toy_tx_ok(1)])

section \<open>Parents\<close>

text \<open>
  The callback of a solid block queues a proof, under the key of the peer that proposed it,
  exactly for a valid parent that the milestone of the index does not reference yet; otherwise
  nothing happens. Every committee that has the local member accepts the proof as its own.
\<close>
theorem processParent_broadcasts_proof:
  assumes "proto_ok L" and "ed25519_ok L" and "keypair L (privateKey (coCommittee c))"
    and "pubkey (privateKey (coCommittee c)) \<in> Members com j"
  shows "\<exists>tx. UnmarshalTx L com j tx = Ret (Inr (PublicKey (coCommittee c), Proof i (metaBlockID meta))) \<and>
    processParent L i p meta c = Val ()
      (if metaReferencedByMilestoneIndex meta \<noteq> i \<and> ValidParent meta
       then c\<lparr>broadcastQueue := Queue_Submit (KPeer p) tx (broadcastQueue c)\<rparr> else c)"
proof -
  obtain tx where tx: "MarshalTx L (coCommittee c) (Proof i (metaBlockID meta)) = Inr tx"
    using MarshalTx_Inr [OF assms(1)] by metis
  have "UnmarshalTx L com j tx = Ret (Inr (PublicKey (coCommittee c), Proof i (metaBlockID meta)))"
    using UnmarshalTx_of_MarshalTx [OF assms(1-3) tx] assms(4) by simp
  then show ?thesis using tx by (intro exI [of _ tx]) (simp add: processParent_def)
qed

theorem processParent_broadcasts_proof_witness:
  "\<exists>c tx. ready TL c \<and>
    UnmarshalTx TL (demo_com 1) 7 tx = Ret (Inr (PublicKey (coCommittee c), Proof 7 (b32 50))) \<and>
    processParent TL 7 (b32 1) \<lparr>metaBlockID = b32 50, metaParents = [b32 49], metaSolid = True,
      metaReferencedByMilestoneIndex = 0, metaShouldReattach = False\<rparr> c =
      Val () (c\<lparr>broadcastQueue := Queue_Submit (KPeer (b32 1)) tx (broadcastQueue c)\<rparr>)"
proof -
  obtain c where c: "ready TL c" "coCommittee c = demo_com 1" using demo_start [of 1] by metis
  let ?meta = "\<lparr>metaBlockID = b32 50, metaParents = [b32 49], metaSolid = True, metaReferencedByMilestoneIndex = 0,
    metaShouldReattach = False\<rparr>"
  have "\<exists>tx. UnmarshalTx TL (demo_com 1) 7 tx = Ret (Inr (PublicKey (coCommittee c), Proof 7 (metaBlockID ?meta))) \<and>
    processParent TL 7 (b32 1) ?meta c = Val ()
      (if metaReferencedByMilestoneIndex ?meta \<noteq> 7 \<and> ValidParent ?meta
       then c\<lparr>broadcastQueue := Queue_Submit (KPeer (b32 1)) tx (broadcastQueue c)\<rparr> else c)"
    by (rule processParent_broadcasts_proof [OF toy_proto toy_tx_ok(2)])
      (simp_all add: c(2) demo_keypair, simp add: demo_com_def Members_def singleKeyRange_def)
  then show ?thesis using c(1) by (auto simp: ValidParent_def)
qed

text \<open>
  \<open>ProposeParent\<close> succeeds exactly for a started coordinator whose wait for the index ended,
  with a valid parent, and a client that answered OK to the marshalled \<open>Parent\<close>. The two states
  are not touched.
\<close>
theorem ProposeParent_succeeds_iff:
  "(\<exists>c'. ProposeParent L env i b c = Val None c') \<longleftrightarrow>
     started c \<and> waitForIndex env i \<and>
     (\<exists>tx meta. MarshalTx L (coCommittee c) (Parent i b) = Inr tx \<and> blockMetadata env b = Some meta \<and>
        ValidParent meta \<and> broadcastTxSync env tx = Some CodeTypeOK)"
  by (auto simp: ProposeParent_def Let_def split: sum.splits option.splits)

section \<open>Construction, bootstrapping\<close>

text \<open>
  \<open>New\<close> accepts a committee exactly if \<open>F + 1\<close> parents beside the last milestone block fit into
  a milestone, and one signature per member does.
\<close>
theorem New_accepts_iff:
  "(\<exists>c. New L com m = Inr c) \<longleftrightarrow>
     com_f com + 2 \<le> int (BlockMaxParents L) \<and> com_n com \<le> MaxSignaturesInAMilestone L"
  by (auto simp: New_def)

text \<open>
  \<open>Bootstrap\<close> succeeds exactly if it is forced, or the node has no milestone, or its latest
  milestone is the one before \<open>index\<close> with the given milestone ID and block ID; both states are
  then reset to the genesis state of these parameters, at height 0 with its hash.
\<close>
theorem Bootstrap_succeeds_iff:
  "Bootstrap L env force index mid bid c = Val None c' \<longleftrightarrow>
     (force \<or> latestMilestone env = Some None \<or>
      (\<exists>ms. latestMilestone env = Some (Some ms) \<and> msIndex ms + 1 = index \<and>
         ms_MustID L ms = Ret mid \<and> MilestoneBlockID L ms = Ret bid)) \<and>
     (\<exists>h. let st = \<lparr>MilestoneHeight = 0, MilestoneIndex = index, LastMilestoneID = mid, LastMilestoneBlockID = bid\<rparr>
          in Hash L (Reset st (deliverState c)) = Ret h \<and>
             c' = c\<lparr>checkState := Reset st (checkState c), deliverState := Reset st (deliverState c),
                   cms := \<lparr>Height = 0, CommitHash = h\<rparr>\<rparr>)"
  (is "_ \<longleftrightarrow> ?valid \<and> ?init")
proof -
  have v: "validateLatest L env index mid bid = Ret None \<longleftrightarrow> latestMilestone env = Some None \<or>
      (\<exists>ms. latestMilestone env = Some (Some ms) \<and> msIndex ms + 1 = index \<and>
         ms_MustID L ms = Ret mid \<and> MilestoneBlockID L ms = Ret bid)"
    by (auto simp: validateLatest_def go_simps split: option.splits if_splits)
  have i: "(\<exists>u. initState L 0 \<lparr>MilestoneHeight = 0, MilestoneIndex = index, LastMilestoneID = mid,
        LastMilestoneBlockID = bid\<rparr> c = Val u c') \<longleftrightarrow> ?init"
    by (auto simp: initState_def Let_def go_simps)
  have "Bootstrap L env force index mid bid c = Val None c' \<longleftrightarrow>
      (force \<or> validateLatest L env index mid bid = Ret None) \<and>
      (\<exists>u. initState L 0 \<lparr>MilestoneHeight = 0, MilestoneIndex = index, LastMilestoneID = mid,
        LastMilestoneBlockID = bid\<rparr> c = Val u c')"
    by (cases force) (auto simp: Bootstrap_def go_simps split: option.splits)
  then show ?thesis unfolding v i .
qed

end
