(* ===== verification/Round.thy ===== *)
theory Round
  imports Liveness AppProperties
begin

text \<open>
  A whole round of the committee, from the programs of its members. The other theories show what a
  coordinator makes of the transactions it is delivered; here the transactions are those that the
  coordinators of the members themselves hand to Tendermint: the vote of \<open>ProposeParent\<close>, the proof of
  \<open>processParent\<close> and the signature of \<open>Commit\<close>.
\<close>

section \<open>Transactions that coordinators make\<close>

definition own_key :: "coordinator \<Rightarrow> peer_id" where
  "own_key d = pubkey (privateKey (coCommittee d))"

text \<open>\<open>ProposeParent\<close> has handed \<open>tx\<close> to the Tendermint client, without an error.\<close>

definition proposed :: "'z tx_lib_scheme \<Rightarrow> 32 word \<Rightarrow> block_id \<Rightarrow> bytes \<Rightarrow> coordinator \<Rightarrow> bool" where
  "proposed L i b tx d \<longleftrightarrow>
     (\<exists>env d'. ProposeParent L env i b d = Val None d' \<and> last (effects d') = BroadcastTxSync tx)"

text \<open>The callback of the solid block \<open>b\<close>, or \<open>Commit\<close>, has put \<open>tx\<close> into the broadcast queue.\<close>

definition proved :: "'z tx_lib_scheme \<Rightarrow> 32 word \<Rightarrow> block_id \<Rightarrow> bytes \<Rightarrow> coordinator \<Rightarrow> bool" where
  "proved L i b tx d \<longleftrightarrow>
     (\<exists>p meta d'. metaBlockID meta = b \<and> processParent L i p meta d = Val () d' \<and>
        broadcastQueue d' = Queue_Submit (KPeer p) tx (broadcastQueue d))"

definition signs :: "'z tx_lib_scheme \<Rightarrow> bytes \<Rightarrow> coordinator \<Rightarrow> bool" where
  "signs L tx d \<longleftrightarrow>
     (\<exists>ks r d'. Commit L ks d = Val r d' \<and> broadcastQueue d' = Queue_Submit KPartial tx (broadcastQueue d))"

lemma Submit_elems: "\<exists>es. elems (Queue_Submit k v q) = es @ [(nextElem q, k, v)]"
  by (auto simp: Queue_Submit_def push_back_def cancel_running_def Let_def split: option.splits)

lemma Submit_fresh: "nextElem (Queue_Submit k v q) = Suc (nextElem q)"
  by (auto simp: Queue_Submit_def push_back_def cancel_running_def Let_def split: option.splits)

lemma Submit_inject: "Queue_Submit k v q = Queue_Submit k v' q \<longleftrightarrow> v = v'"
proof
  assume e: "Queue_Submit k v q = Queue_Submit k v' q"
  have "last (elems (Queue_Submit k v q)) = (nextElem q, k, v)" for v
    using Submit_elems [of k v q] by auto
  then show "v = v'" using e by (metis prod.inject)
qed simp

lemma Submit_changes: "q \<noteq> Queue_Submit k v q"
  by (metis Submit_fresh n_not_Suc_n)

text \<open>What a commit does to the queue.\<close>

lemma Commit_queue:
  assumes "json_ok L" and "Commit L ks d = Val r d'"
    and "broadcastQueue d' = Queue_Submit KPartial tx (broadcastQueue d)"
  shows "\<exists>ms es. Milestone (deliverState d) = Some ms \<and> essence_of L ms = Some es \<and>
    map_len (SignaturesByIssuer (deliverState d)) < T d \<and>
    MarshalTx L (coCommittee d) (PartialSignature (sigSignature (Sign L (coCommittee d) es))) = Inr tx"
proof -
  obtain d1 d2 d3 where
    1: "(case Milestone (deliverState d) of None \<Rightarrow> Val () d
       | Some ms \<Rightarrow> if map_len (SignaturesByIssuer (deliverState d)) < T d
           then if fmlookup (SignaturesByIssuer (deliverState d)) (pubkey (privateKey (coCommittee d))) = None
             then broadcastPartial L ms d else Val () d
           else Val () d) = Val () d1" and
    2: "(case Milestone (deliverState d1) of None \<Rightarrow> Val () d1
       | Some ms \<Rightarrow> if T d1 \<le> map_len (SignaturesByIssuer (deliverState d1))
           then completeMilestone L ks ms d1 else Val () d1) = Val () d2" and
    3: "copyState L d2 = Val () d3" and 4: "commitState L d3 = Val () d'"
    using assms(2) by (auto simp: Commit_def Let_def go_simps cong: option.case_cong if_cong)
  have "broadcastQueue d' = broadcastQueue d2"
    using copyState_Val [OF assms(1) 3] commitState_Val [OF 4] by auto
  moreover have "broadcastQueue d2 = broadcastQueue d1"
    using 2 completeMilestone_Val [of L ks _ d1 "()" d2] by (auto simp: Let_def split: option.splits if_splits)
  ultimately have q: "broadcastQueue d1 = Queue_Submit KPartial tx (broadcastQueue d)"
    using assms(3) by simp
  then have "d1 \<noteq> d" using Submit_changes by metis
  then obtain ms where ms: "Milestone (deliverState d) = Some ms"
    "map_len (SignaturesByIssuer (deliverState d)) < T d" "broadcastPartial L ms d = Val () d1"
    using 1 by (auto split: option.splits if_splits)
  obtain es tx' where "essence_of L ms = Some es"
    "MarshalTx L (coCommittee d) (PartialSignature (sigSignature (Sign L (coCommittee d) es))) = Inr tx'"
    "broadcastQueue d1 = Queue_Submit KPartial tx' (broadcastQueue d)"
    using ms(3) by (auto simp: broadcastPartial_def tx_essence_def go_simps split: option.splits sum.splits)
  then show ?thesis using ms q by (simp add: Submit_inject)
qed

section \<open>Members accept them\<close>

text \<open>A coordinator with the key of a member; Ed25519 and protobuf work as documented.\<close>

definition member_node :: "'z tx_lib_scheme \<Rightarrow> committee \<Rightarrow> 32 word \<Rightarrow> coordinator \<Rightarrow> bool" where
  "member_node L com i d \<longleftrightarrow>
     keypair L (privateKey (coCommittee d)) \<and> own_key d \<in> Members com i \<and> proto_ok L \<and> ed25519_ok L"

lemma own_marshal_sent:
  assumes "member_node L com i d" and "MarshalTx L (coCommittee d) t = Inr tx"
    and "case t of PartialSignature s \<Rightarrow> length s = 64 | _ \<Rightarrow> True"
  shows "sent_by L com i tx (own_key d) t"
  using UnmarshalTx_of_MarshalTx [of L "coCommittee d" t tx com i] MarshalTx_length [OF _ assms(2,3)] assms(1,2)
  by (simp add: member_node_def sent_by_def own_key_def PublicKey_def)

lemma proposed_sent:
  "member_node L com i d \<Longrightarrow> proposed L j b tx d \<Longrightarrow> sent_by L com i tx (own_key d) (Parent j b)"
  by (rule own_marshal_sent)
    (auto simp: proposed_def ProposeParent_def Let_def split: if_splits sum.splits option.splits)

lemma proved_sent:
  assumes "member_node L com i d" and "proved L j b tx d"
  shows "sent_by L com i tx (own_key d) (Proof j b)"
proof (rule own_marshal_sent [OF assms(1)])
  obtain p meta d' where p: "metaBlockID meta = b" "processParent L j p meta d = Val () d'"
    "broadcastQueue d' = Queue_Submit (KPeer p) tx (broadcastQueue d)"
    using assms(2) by (auto simp: proved_def)
  then have "d' \<noteq> d" using Submit_changes by metis
  then show "MarshalTx L (coCommittee d) (Proof j b) = Inr tx"
    using p by (auto simp: processParent_def Submit_inject split: if_splits sum.splits)
qed simp

lemma signs_sent:
  assumes "json_ok L" and "member_node L com i d" and "signs L tx d"
  shows "\<exists>ms es sg. Milestone (deliverState d) = Some ms \<and> essence_of L ms = Some es \<and>
    map_len (SignaturesByIssuer (deliverState d)) < T d \<and>
    sent_by L com i tx (own_key d) (PartialSignature sg) \<and> length sg = 64 \<and> verify_raw L (own_key d) es sg"
proof -
  obtain ms es where m: "Milestone (deliverState d) = Some ms" "essence_of L ms = Some es"
    "map_len (SignaturesByIssuer (deliverState d)) < T d"
    "MarshalTx L (coCommittee d) (PartialSignature (sigSignature (Sign L (coCommittee d) es))) = Inr tx"
    using Commit_queue [OF assms(1)] assms(3) unfolding signs_def by metis
  have "ed25519_ok L" "keypair L (privateKey (coCommittee d))" using assms(2) by (simp_all add: member_node_def)
  note s = ed25519_ok_sign [OF this, of es]
  have g: "sigSignature (Sign L (coCommittee d) es) = sign_raw L (privateKey (coCommittee d)) es"
    using s(1) by (simp add: Sign_def copy64_id)
  have "sent_by L com i tx (own_key d) (PartialSignature (sign_raw L (privateKey (coCommittee d)) es))"
    using own_marshal_sent [OF assms(2) m(4)] s(1) by (simp add: g)
  then show ?thesis using m s by (auto simp: own_key_def)
qed

section \<open>A round\<close>

text \<open>Another coordinator of the committee that started like \<open>c0\<close> and has received the calls \<open>ks\<close>.\<close>

definition replica where
  "replica L flag ver c0 ks d \<longleftrightarrow>
     (\<exists>d0. ready L d0 \<and> same_committee (coCommittee c0) (coCommittee d0) \<and>
        deliverState d0 = deliverState c0 \<and> cms d0 = cms c0 \<and> run L flag ver d0 ks d)"

lemma replica_agrees:
  assumes "lib_ok L" and "ready L c0" and "run L flag ver c0 ks c" and "replica L flag ver c0 ks d"
  shows "deliverState d = deliverState c \<and> T d = T c"
proof -
  obtain d0 where d: "ready L d0" "same_committee (coCommittee c0) (coCommittee d0)"
    "deliverState c0 = deliverState d0" "cms c0 = cms d0" "run L flag ver d0 ks d"
    using assms(4) by (auto simp: replica_def)
  have "agree c d"
    using run_agree [OF assms(1,3) d(5) _ ready_agree [OF assms(2) d(1-4)]] ready_inv assms(2) by blast
  then show ?thesis by (simp add: agree_def same_committee_def T_def)
qed

text \<open>A commit before the signatures are complete leaves the round as it is.\<close>

lemma run_incomplete_commit:
  assumes "json_ok L" and "run L flag ver c [CommitC] c'"
    and "map_len (SignaturesByIssuer (deliverState c)) < T c"
  shows "deliverState c' = deliverState c \<and> coCommittee c' = coCommittee c \<and> submitted c' = submitted c"
proof -
  obtain d d' where d: "run L flag ver c [] d" "abci_step L flag ver d CommitC d'" "replicated c' = replicated d'"
    using run_snoc [OF assms(2), of "[]" CommitC] by auto
  have r: "replicated d = replicated c" using run_Nil [OF d(1)] by simp
  obtain ks r where "Commit L ks d = Val r d'" using d(2) by (auto elim: abci_step_CommitE)
  note v = Commit_Val(1,4) [OF assms(1) this]
  have "\<not> (\<exists>ms. completes d ms)" using r assms(3) by (auto simp: completes_def replicated_def T_def)
  then show ?thesis using v r d(3) by (auto simp: replicated_def base_def)
qed

text \<open>The first block: votes and proofs of the members' coordinators create the milestone.\<close>

lemma members_create_milestone:
  assumes L: "lib_ok L" and c0: "ready L c0" and c: "run L flag ver c0 ks c"
    and idle: "Milestone (deliverState c) = None" and i: "i = MilestoneIndex (State (deliverState c))"
    and "0 \<le> F c" and "run L flag ver c (BeginBlockC h # map DeliverTxC (txs @ txs') @ [EndBlockC]) c1"
    and only: "votes_only L (coCommittee c) i A b (txs @ txs') (deliverState c)"
    and A: "F c < int (card A)" "\<And>p. p \<in> A \<Longrightarrow> fmlookup (ParentByIssuer (deliverState c)) p = Some b \<or>
      (\<exists>tx \<in> set txs. \<exists>d. member_node L (coCommittee c) i d \<and> own_key d = p \<and> proposed L i b tx d)"
    and B: "F c < int (card B)" "\<And>q. q \<in> B \<Longrightarrow> q \<in> provers (deliverState c) b \<or>
      (\<exists>tx \<in> set txs'. \<exists>d. member_node L (coCommittee c) i d \<and> own_key d = q \<and> proved L i b tx d)"
  shows "\<exists>ms. Milestone (deliverState c1) = Some ms \<and> msIndex ms = i \<and>
    (finite (Members (coCommittee c) i) \<and>
       int (card (Members (coCommittee c) i)) \<le> (F c + 1) * (int (BlockMaxParents L) - 1) \<longrightarrow>
     b \<in> set (msParents ms))"
proof -
  obtain cb where cb: "run L flag ver c [BeginBlockC h] cb"
    "run L flag ver cb (map DeliverTxC (txs @ txs') @ [EndBlockC]) c1"
    using run_split [OF assms(7), of "[BeginBlockC h]"] by auto
  note b = run_BeginBlock [OF cb(1)]
  have F: "F cb = F c" using b by (simp add: F_def)
  have "\<exists>ms. Milestone (deliverState c1) = Some ms \<and> msIndex ms = i \<and>
    (finite (Members (coCommittee cb) i) \<and>
       int (card (Members (coCommittee cb) i)) \<le> (F cb + 1) * (int (BlockMaxParents L) - 1) \<longrightarrow>
     b \<in> set (msParents ms))"
  proof (rule votes_create_milestone [OF L c0 run_trans [OF cb(1) c] _ _ _ cb(2)])
    show "votes_only L (coCommittee cb) i A b (txs @ txs') (deliverState cb)"
      using only b by (simp add: votes_only_def)
    show "fmlookup (ParentByIssuer (deliverState cb)) p = Some b \<or>
        (\<exists>tx \<in> set txs. sent_by L (coCommittee cb) i tx p (Parent i b))" if "p \<in> A" for p
      using A(2) [OF that] proposed_sent b by fastforce
    show "q \<in> provers (deliverState cb) b \<or>
        (\<exists>tx \<in> set txs'. sent_by L (coCommittee cb) i tx q (Proof i b))" if "q \<in> B" for q
      using B(2) [OF that] proved_sent b by (fastforce simp: provers_def)
  qed (use b idle i assms(6) A(1) B(1) F in simp_all)
  then show ?thesis using b F by simp
qed

text \<open>The next block: the signatures that replicas of the members queued in \<open>Commit\<close> complete it.\<close>

lemma members_complete_milestone:
  assumes L: "lib_ok L" and c0: "ready L c0" and c: "run L flag ver c0 ks c"
    and ms: "Milestone (deliverState c) = Some ms" "msIndex ms = i" and "0 < T c"
    and block: "run L flag ver c (CommitC # BeginBlockC h # map DeliverTxC sigs @ [EndBlockC, CommitC]) c'"
    and S: "T c \<le> int (card S)" "\<And>p. p \<in> S \<Longrightarrow>
      \<exists>tx \<in> set sigs. \<exists>d. member_node L (coCommittee c) i d \<and> own_key d = p \<and> replica L flag ver c0 ks d \<and> signs L tx d"
  shows "\<exists>sg. submitted c' = submitted c @ [ms\<lparr>msSignatures := sg\<rparr>] \<and>
    MilestoneIndex (State (deliverState c')) = i + 1 \<and> Milestone (deliverState c') = None"
proof -
  have j: "json_ok L" using L by (simp add: lib_ok_def)
  have sig: "\<exists>es sg. essence_of L ms = Some es \<and> map_len (SignaturesByIssuer (deliverState c)) < T c \<and>
      (\<exists>tx \<in> set sigs. sent_by L (coCommittee c) i tx p (PartialSignature sg)) \<and> length sg = 64 \<and> verify_raw L p es sg"
    if p: "p \<in> S" for p
  proof -
    obtain tx d where d: "tx \<in> set sigs" "member_node L (coCommittee c) i d" "own_key d = p"
      "replica L flag ver c0 ks d" "signs L tx d"
      using S(2) [OF p] by blast
    show ?thesis using signs_sent [OF j d(2,5)] replica_agrees [OF L c0 c d(4)] d(1,3) ms(1) by auto
  qed
  have "S \<noteq> {}" using S(1) assms(6) by auto
  then obtain es where es: "essence_of L ms = Some es" "map_len (SignaturesByIssuer (deliverState c)) < T c"
    using sig by auto
  obtain e f where e: "run L flag ver c [CommitC] e" "run L flag ver e [BeginBlockC h] f"
    "run L flag ver f (map DeliverTxC sigs @ [EndBlockC, CommitC]) c'"
    using run_split [OF block, of "[CommitC]"] run_split [of L flag ver _ _ c' "[BeginBlockC h]"] by (auto; metis)
  note e' = run_incomplete_commit [OF j e(1) es(2)] and f' = run_BeginBlock [OF e(2)]
  have f: "Milestone (deliverState f) = Some ms" "coCommittee f = coCommittee c" "T f = T c"
    "submitted f = submitted c"
    using e' f' ms(1) run_without_commit [OF e(2)] by (simp_all add: T_def)
  have "\<exists>sg. submitted c' = submitted f @ [ms\<lparr>msSignatures := sg\<rparr>] \<and>
    essence_of L (ms\<lparr>msSignatures := sg\<rparr>) = Some es \<and>
    MilestoneIndex (State (deliverState c')) = msIndex ms + 1 \<and> Milestone (deliverState c') = None"
  proof (rule signatures_complete_milestone [OF L c0 run_trans [OF e(2) run_trans [OF e(1) c]] f(1) es(1) e(3)])
    show "fmlookup (SignaturesByIssuer (deliverState f)) p \<noteq> None \<or>
        (\<exists>tx \<in> set sigs. \<exists>sg. sent_by L (coCommittee f) (msIndex ms) tx p (PartialSignature sg) \<and>
           length sg = 64 \<and> verify_raw L p es sg)" if "p \<in> S" for p
      using sig [OF that] es(1) f(2) ms(2) by auto
  qed (use f(3) S(1) in simp)
  then show ?thesis using f(4) ms(2) by auto
qed

text \<open>
  C6. The members issue a milestone. Let a committee agree on \<open>b\<close>: in one block, with any other
  transactions in between, are votes for \<open>b\<close> that the coordinators of more than \<open>F\<close> members made with
  \<open>ProposeParent\<close> (or they are in the state already), and then the proofs that those of more than \<open>F\<close>
  members queued in \<open>processParent\<close>; the next block contains what the \<open>Commit\<close> of at least \<open>T\<close>
  members has queued after the first one. Then at the end of the second block exactly one milestone
  has been handed over, it has the current index and \<open>b\<close> among its parents if the committee is not
  too large, and the voting for the next index has begun.
\<close>
theorem members_issue_milestone:
  assumes L: "lib_ok L" and c0: "ready L c0" and c: "run L flag ver c0 ks c"
    and idle: "Milestone (deliverState c) = None" and i: "i = MilestoneIndex (State (deliverState c))"
    and bounds: "0 \<le> F c" "0 < T c"
    and block1: "blk = BeginBlockC h # map DeliverTxC (txs @ txs') @ [EndBlockC]" "run L flag ver c blk c1"
    and block2: "run L flag ver c1 (CommitC # BeginBlockC h' # map DeliverTxC sigs @ [EndBlockC, CommitC]) c2"
    and only: "votes_only L (coCommittee c) i A b (txs @ txs') (deliverState c)"
    and A: "F c < int (card A)" "\<And>p. p \<in> A \<Longrightarrow> fmlookup (ParentByIssuer (deliverState c)) p = Some b \<or>
      (\<exists>tx \<in> set txs. \<exists>d. member_node L (coCommittee c) i d \<and> own_key d = p \<and> proposed L i b tx d)"
    and B: "F c < int (card B)" "\<And>q. q \<in> B \<Longrightarrow> q \<in> provers (deliverState c) b \<or>
      (\<exists>tx \<in> set txs'. \<exists>d. member_node L (coCommittee c) i d \<and> own_key d = q \<and> proved L i b tx d)"
    and S: "T c \<le> int (card S)" "\<And>p. p \<in> S \<Longrightarrow>
      \<exists>tx \<in> set sigs. \<exists>d. member_node L (coCommittee c) i d \<and> own_key d = p \<and>
        replica L flag ver c0 (ks @ blk) d \<and> signs L tx d"
  shows "\<exists>ms. submitted c2 = submitted c @ [ms] \<and> msIndex ms = i \<and>
    (finite (Members (coCommittee c) i) \<and>
       int (card (Members (coCommittee c) i)) \<le> (F c + 1) * (int (BlockMaxParents L) - 1) \<longrightarrow>
     b \<in> set (msParents ms)) \<and>
    MilestoneIndex (State (deliverState c2)) = i + 1 \<and> Milestone (deliverState c2) = None"
proof -
  have com: "coCommittee c1 = coCommittee c" using run_committee [OF block1(2)] L by (simp add: lib_ok_def)
  obtain ms where ms: "Milestone (deliverState c1) = Some ms" "msIndex ms = i"
    "finite (Members (coCommittee c) i) \<and>
       int (card (Members (coCommittee c) i)) \<le> (F c + 1) * (int (BlockMaxParents L) - 1) \<longrightarrow>
     b \<in> set (msParents ms)"
    using members_create_milestone
      [OF L c0 c idle i bounds(1) block1(2) [unfolded block1(1)] only A B] by blast
  have "\<exists>sg. submitted c2 = submitted c1 @ [ms\<lparr>msSignatures := sg\<rparr>] \<and>
      MilestoneIndex (State (deliverState c2)) = i + 1 \<and> Milestone (deliverState c2) = None"
    by (rule members_complete_milestone [OF L c0 run_trans [OF block1(2) c] ms(1,2) _ block2])
      (use bounds(2) S com in \<open>simp_all add: T_def\<close>)
  moreover have "submitted c1 = submitted c" using run_without_commit [OF block1(2)] block1(1) by auto
  ultimately show ?thesis using ms(2,3) by auto
qed

text \<open>The example round: its transactions are made by the coordinator of its only member.\<close>

lemma demo_member: "coCommittee d = demo_com 1 \<Longrightarrow> member_node TL (demo_com k) i d \<and> own_key d = b32 1"
  by (simp add: member_node_def own_key_def demo_keypair toy_proto toy_tx_ok)
    (simp add: demo_com_def Members_def singleKeyRange_def)

definition demo_meta :: inx_metadata where
  "demo_meta = \<lparr>metaBlockID = b32 50, metaParents = [], metaSolid = True,
     metaReferencedByMilestoneIndex = 0, metaShouldReattach = False\<rparr>"

lemma demo_proposed:
  "coCommittee d = demo_com 1 \<Longrightarrow> proposed TL 7 (b32 50) (demo_tx (Parent 7 (b32 50))) (d\<lparr>started := True\<rparr>)"
  unfolding proposed_def
  by (intro exI [of _ "demo_node\<lparr>blockMetadata := \<lambda>b. Some demo_meta\<rparr>"])
    (simp add: ProposeParent_def registerStateMilestoneIndexEvent_def Let_def demo_marshal demo_node_def
      demo_meta_def ValidParent_def CodeTypeOK_def)

lemma demo_proved:
  "coCommittee d = demo_com 1 \<Longrightarrow> proved TL 7 (b32 50) (demo_tx (Proof 7 (b32 50))) d"
  unfolding proved_def
  by (intro exI [of _ "b32 1"] exI [of _ demo_meta])
    (simp add: processParent_def demo_marshal demo_meta_def ValidParent_def)

lemma demo_signs:
  assumes "coCommittee d = demo_com 1" and "Milestone (deliverState d) = Some ms"
    and "SignaturesByIssuer (deliverState d) = fmempty"
  shows "signs TL (demo_tx (PartialSignature (toy_sig (b32 1) (toy_essence ms)))) d"
proof -
  have "MarshalTx TL (coCommittee d) (PartialSignature (sigSignature (Sign TL (coCommittee d) (toy_essence ms)))) =
      Inr (demo_tx (PartialSignature (toy_sig (b32 1) (toy_essence ms))))"
    by (simp add: assms(1) demo_marshal Sign_def) (simp add: demo_com_def toy_tx_fields copy64_id)
  from Commit_incomplete [OF toy_tx_ok(1) assms(2) _ _ _ this, of "[]"] assms show ?thesis
    by (fastforce simp: signs_def T_def demo_com_def toy_tx_fields)
qed

text \<open>Its first block up to the commit, which leaves the milestone as it is.\<close>

lemma demo_uncommitted:
  assumes "run TL demo_flag 2 c [CommitC] d" and "Milestone (deliverState d) = Some ms"
  shows "deliverState d = deliverState c"
proof -
  obtain e d' where d: "run TL demo_flag 2 c [] e" "abci_step TL demo_flag 2 e CommitC d'" "replicated d = replicated d'"
    using run_snoc [OF assms(1), of "[]" CommitC] by auto
  obtain ks r where "Commit TL ks e = Val r d'" using d(2) by (auto elim: abci_step_CommitE)
  from Commit_Val(4) [OF toy_tx_ok(1) this] show ?thesis
    using run_Nil [OF d(1)] d(3) assms(2) by (auto simp: replicated_def Let_def split: if_splits)
qed

lemma demo_blocks:
  defines "blk \<equiv> BeginBlockC \<lparr>hdrHeight = 1, hdrTime = 1000\<rparr> #
      map DeliverTxC ([demo_tx (Parent 7 (b32 50))] @ [demo_tx (Proof 7 (b32 50))]) @ [EndBlockC]"
  shows "\<exists>c c1 c2 ms. ready TL c \<and> coCommittee c = demo_com 1 \<and> deliverState c = Reset state_at7 zero_state \<and>
    run TL demo_flag 2 c blk c1 \<and> coCommittee c1 = demo_com 1 \<and>
    Milestone (deliverState c1) = Some ms \<and> SignaturesByIssuer (deliverState c1) = fmempty \<and>
    run TL demo_flag 2 c1 (CommitC # BeginBlockC \<lparr>hdrHeight = 2, hdrTime = 1010\<rparr> #
      map DeliverTxC [demo_tx (PartialSignature (toy_sig (b32 1) (toy_essence ms)))] @ [EndBlockC, CommitC]) c2"
proof -
  obtain c where c: "ready TL c" "coCommittee c = demo_com 1" "deliverState c = Reset state_at7 zero_state"
    "Height (cms c) = 0"
    using demo_start [of 1] by metis
  have inv: "coo_inv TL c" using ready_inv c(1) by blast
  obtain d ms where d: "run TL demo_flag 2 c (take 5 (demo_round state_at7 0)) d" "coCommittee d = demo_com 1"
    "Milestone (deliverState d) = Some ms" "State (deliverState d) = state_at7"
    "SignaturesByIssuer (deliverState d) = fmempty" "Height (cms d) = 0 + 1"
    using demo_block1 [OF c(2) inv c(3,4)] by blast
  have invd: "coo_inv TL d" using run_inv [OF toy_lib_ok d(1) inv] .
  then have es: "toy_essence ms = le64 (ucast (MilestoneIndex state_at7)) @ Metadata TL state_at7"
    using d(3,4) by (simp add: coo_inv_def state_ok_def milestone_inv_def carries_def toy_essence_def)
  have five: "take 5 (demo_round state_at7 0) = blk @ [CommitC]"
    by (simp add: demo_round_def state_at7_def blk_def)
  obtain c1 where c1: "run TL demo_flag 2 c blk c1" "run TL demo_flag 2 c1 [CommitC] d"
    using run_split [OF d(1) five] by blast
  have s1: "deliverState c1 = deliverState d" using demo_uncommitted [OF c1(2) d(3)] by simp
  have com1: "coCommittee c1 = demo_com 1" using run_committee [OF c1(1) toy_tx_ok(1)] c(2) by simp
  obtain e where e: "run TL demo_flag 2 d (drop 5 (demo_round state_at7 0)) e"
    using demo_block2 [OF d(2) invd d(3,4,5,6)] by blast
  have six: "drop 5 (demo_round state_at7 0) = BeginBlockC \<lparr>hdrHeight = 2, hdrTime = 1010\<rparr> #
      map DeliverTxC [demo_tx (PartialSignature (toy_sig (b32 1) (toy_essence ms)))] @ [EndBlockC, CommitC]"
    by (simp add: demo_round_def es)
  have block2: "run TL demo_flag 2 c1 (CommitC # BeginBlockC \<lparr>hdrHeight = 2, hdrTime = 1010\<rparr> #
      map DeliverTxC [demo_tx (PartialSignature (toy_sig (b32 1) (toy_essence ms)))] @ [EndBlockC, CommitC]) e"
    using run_trans [OF e [unfolded six] c1(2)] by simp
  have "Milestone (deliverState c1) = Some ms" "SignaturesByIssuer (deliverState c1) = fmempty"
    using s1 d(3,5) by simp_all
  then show ?thesis using c(1-3) c1(1) com1 block2 by blast
qed

theorem members_issue_milestone_witness:
  "\<exists>c c1 c2 h h' sig ms. ready TL c \<and> run TL demo_flag 2 c (BeginBlockC h # map DeliverTxC
       ([demo_tx (Parent 7 (b32 50))] @ [demo_tx (Proof 7 (b32 50))]) @ [EndBlockC]) c1 \<and>
     run TL demo_flag 2 c1 (CommitC # BeginBlockC h' # map DeliverTxC [sig] @ [EndBlockC, CommitC]) c2 \<and>
     submitted c2 = submitted c @ [ms] \<and> msIndex ms = 7 \<and> b32 50 \<in> set (msParents ms)"
proof -
  let ?v = "[demo_tx (Parent 7 (b32 50))]" and ?p = "[demo_tx (Proof 7 (b32 50))]"
  let ?blk = "BeginBlockC \<lparr>hdrHeight = 1, hdrTime = 1000\<rparr> # map DeliverTxC (?v @ ?p) @ [EndBlockC]"
  obtain c c1 e ms where c: "ready TL c" "coCommittee c = demo_com 1" "deliverState c = Reset state_at7 zero_state"
    and c1: "run TL demo_flag 2 c ?blk c1" "coCommittee c1 = demo_com 1"
    "Milestone (deliverState c1) = Some ms" "SignaturesByIssuer (deliverState c1) = fmempty"
    and block2: "run TL demo_flag 2 c1 (CommitC # BeginBlockC \<lparr>hdrHeight = 2, hdrTime = 1010\<rparr> #
      map DeliverTxC [demo_tx (PartialSignature (toy_sig (b32 1) (toy_essence ms)))] @ [EndBlockC, CommitC]) e"
    using demo_blocks by blast
  let ?s = "demo_tx (PartialSignature (toy_sig (b32 1) (toy_essence ms)))"
  have rep: "replica TL demo_flag 2 c ([] @ ?blk) c1"
    using c(1) c1(1) by (auto simp: replica_def same_committee_def)
  have mem: "Members (demo_com 1) 7 = {b32 1}" by (simp add: demo_com_def Members_def singleKeyRange_def)
  have FT: "F c = 0" "T c = 1" by (simp_all add: F_def T_def c(2) demo_com_def)
  have only: "votes_only TL (coCommittee c) 7 {b32 1} (b32 50) (?v @ ?p) (deliverState c)"
    using demo_sent [OF c(2)] by (auto simp: votes_only_def c(3))
  have "\<exists>ms. submitted e = submitted c @ [ms] \<and> msIndex ms = 7 \<and>
    (finite (Members (coCommittee c) 7) \<and>
       int (card (Members (coCommittee c) 7)) \<le> (F c + 1) * (int (BlockMaxParents TL) - 1) \<longrightarrow>
     b32 50 \<in> set (msParents ms)) \<and>
    MilestoneIndex (State (deliverState e)) = 7 + 1 \<and> Milestone (deliverState e) = None"
  proof (rule members_issue_milestone [OF toy_lib_ok c(1) run.nocall _ _ _ _ refl c1(1) block2 only])
    show "fmlookup (ParentByIssuer (deliverState c)) p = Some (b32 50) \<or> (\<exists>tx \<in> set ?v. \<exists>d.
        member_node TL (coCommittee c) 7 d \<and> own_key d = p \<and> proposed TL 7 (b32 50) tx d)" if "p \<in> {b32 1}" for p
      using that demo_proposed [OF c(2)] demo_member [of "c\<lparr>started := True\<rparr>"] c(2) by auto
    show "q \<in> provers (deliverState c) (b32 50) \<or> (\<exists>tx \<in> set ?p. \<exists>d.
        member_node TL (coCommittee c) 7 d \<and> own_key d = q \<and> proved TL 7 (b32 50) tx d)" if "q \<in> {b32 1}" for q
      using that demo_proved [OF c(2)] demo_member [OF c(2)] c(2) by auto
    show "\<exists>tx \<in> set [?s]. \<exists>d. member_node TL (coCommittee c) 7 d \<and> own_key d = p \<and>
        replica TL demo_flag 2 c ([] @ ?blk) d \<and> signs TL tx d" if "p \<in> {b32 1}" for p
      using that demo_signs [OF c1(2,3,4)] demo_member [OF c1(2)] rep c(2) by auto
  qed (simp_all add: c(3) FT, simp_all add: state_at7_def)
  then obtain m where "submitted e = submitted c @ [m]" "msIndex m = 7" "b32 50 \<in> set (msParents m)"
    using mem FT c(2) by (auto simp: toy_tx_fields)
  then show ?thesis using c(1) c1(1) block2 by blast
qed

end
