(* ===== verification/Loop.thy ===== *)
theory Loop
  imports KeyedQueue Iota
begin

text \<open>
  The loop of the plugin that proposes a parent for every milestone, \<open>components/decoo/loop.go\<close>, with
  \<open>queue.Single\<close> of \<open>pkg/decoo/queue/single.go\<close>, the queue it hands its proposals to. Durations and
  times are in nanoseconds; the indices fit 32 bits as in the code, and since the timestamps of
  milestones are 32-bit seconds the differences of times fit Go's 64-bit durations, so they are
  \<open>int\<close>s. Each case of a \<open>select\<close> is one definition, and \<open>loop_step\<close> interleaves them with the timer,
  with the events of the node and with the steps of the queue.
\<close>

section \<open>The queue of proposals\<close>

text \<open>\<open>queue.Single\<close>: a keyed queue whose only key is the empty struct.\<close>

type_synonym 'v single = "(unit, 'v) keyed_queue"

definition NewSingle :: "nat \<Rightarrow> 'v single" where
  "NewSingle d = Queue_New d"

definition Single_Submit :: "'v \<Rightarrow> 'v single \<Rightarrow> 'v single" where
  "Single_Submit v q = Queue_Submit () v q"

section \<open>State\<close>

record milestone_info =
  infoIndex :: "32 word"
  infoTimestamp :: int
  infoBlockID :: block_id

text \<open>The zero value; the zero \<open>time.Time\<close> is the first of January of the year 1.\<close>

definition second :: int where "second = 1000000000"

definition zero_info :: milestone_info where
  "zero_info = \<lparr>infoIndex = 0, infoTimestamp = - 62135596800 * second, infoBlockID = zero32\<rparr>"

text \<open>
  Where the loop is: in its first \<open>select\<close>, in its second one, blocked forever in the receive of
  \<open>resetRunningTimer\<close>, or returned.
\<close>

datatype loop_pos = FirstSelect | SecondSelect | Blocked | Returned

text \<open>
  The variables of \<open>coordinatorLoop\<close> and the globals: \<open>confirmedMilestone\<close>, which the mutex
  protects, and the two channels, each with room for one value.
\<close>

record loop_state =
  loopTimer :: timer
  loopPos :: loop_pos
  loopInfo :: milestone_info
  proposer :: "milestone_info single"
  triggerNextMilestone :: bool
  confirmedMilestoneSignal :: "milestone_info option"
  confirmedMilestone :: milestone_info

definition MaxInt64 :: nat where "MaxInt64 = 2 ^ 63 - 1"

definition SyncRetryInterval :: nat where "SyncRetryInterval = 2000000000"

text \<open>The state in which \<open>coordinatorLoop\<close> enters its loop, before any event.\<close>

definition loop_start :: "nat \<Rightarrow> loop_state" where
  "loop_start interval =
     \<lparr>loopTimer = \<lparr>armed = Some MaxInt64, tick = False\<rparr>, loopPos = FirstSelect, loopInfo = zero_info,
      proposer = NewSingle (interval div 2), triggerNextMilestone = False,
      confirmedMilestoneSignal = None, confirmedMilestone = zero_info\<rparr>"

section \<open>Confirmed milestones\<close>

text \<open>
  \<open>processConfirmedMilestone\<close> sends while it holds the mutex; \<open>None\<close> is a send that waits for the
  loop to receive. Nothing else sees the state before the send is done.
\<close>

definition processConfirmedMilestone ::
    "'z iota_lib_scheme \<Rightarrow> milestone \<Rightarrow> loop_state \<Rightarrow> loop_state go option" where
  "processConfirmedMilestone L ms s =
     (if msIndex ms \<le> infoIndex (confirmedMilestone s) then Some (Ret s)
      else (case MilestoneBlockID L ms of
              Panic e \<Rightarrow> Some (Panic e)
            | Ret b \<Rightarrow>
                let info = \<lparr>infoIndex = msIndex ms, infoTimestamp = uint (msTimestamp ms) * second,
                            infoBlockID = b\<rparr>
                in if confirmedMilestoneSignal s \<noteq> None then None
                   else Some (Ret (s\<lparr>confirmedMilestone := info, confirmedMilestoneSignal := Some info\<rparr>))))"

text \<open>
  \<open>initializeEvents\<close> when bootstrapping, at time \<open>now\<close>, and otherwise with the answer of the node
  for the latest milestone. The error is that of the query.
\<close>

definition initializeEvents ::
    "'z iota_lib_scheme \<Rightarrow> (32 word \<times> block_id) option \<Rightarrow> int \<Rightarrow> milestone option option \<Rightarrow> loop_state
     \<Rightarrow> (unit + loop_state) go option" where
  "initializeEvents L boot now latest s =
     (case boot of
        Some (start, startBlockID) \<Rightarrow>
          let info = \<lparr>infoIndex = start - 1, infoTimestamp = now, infoBlockID = startBlockID\<rparr>
          in if confirmedMilestoneSignal s \<noteq> None then None
             else Some (Ret (Inr (s\<lparr>confirmedMilestone := info, confirmedMilestoneSignal := Some info\<rparr>)))
      | None \<Rightarrow>
          (case latest of
             None \<Rightarrow> Some (Ret (Inl ()))
           | Some None \<Rightarrow> Some (Panic ''nil pointer dereference'')
           | Some (Some ms) \<Rightarrow>
               map_option (\<lambda>r. go_bind r (\<lambda>s. Ret (Inr s))) (processConfirmedMilestone L ms s)))"

section \<open>The cases of the loop\<close>

text \<open>
  \<open>Stop\<close> of a timer that has fired or is stopped returns false, and then the channel is read;
  \<open>None\<close> is a read that never returns.
\<close>

definition resetRunningTimer :: "nat \<Rightarrow> timer \<Rightarrow> timer option" where
  "resetRunningTimer d t =
     (let stopped = (armed t \<noteq> None); t1 = timer_Stop t
      in if \<not> stopped then (if tick t1 then Some (timer_Reset d (t1\<lparr>tick := False\<rparr>)) else None)
         else Some (timer_Reset d t1))"

definition remainingInterval :: "nat \<Rightarrow> int \<Rightarrow> int \<Rightarrow> nat" where
  "remainingInterval interval now t =
     (let d = int interval - (now - t) in nat (if d < 0 then 0 else d))"

definition reset_or_block :: "nat \<Rightarrow> loop_state \<Rightarrow> loop_state" where
  "reset_or_block d s =
     (case resetRunningTimer d (loopTimer s) of
        None \<Rightarrow> s\<lparr>loopPos := Blocked\<rparr>
      | Some t \<Rightarrow> s\<lparr>loopTimer := t\<rparr>)"

text \<open>The first \<open>select\<close>: the timer with the answer of \<open>MilestoneIndexFunc\<close>, and the two channels.\<close>

definition onTimer :: "32 word \<Rightarrow> 32 word \<Rightarrow> loop_state \<Rightarrow> loop_state" where
  "onTimer lmi cmi s =
     (let s1 = s\<lparr>loopTimer := (loopTimer s)\<lparr>tick := False\<rparr>\<rparr>
      in if lmi \<noteq> cmi then s1\<lparr>loopTimer := timer_Reset SyncRetryInterval (loopTimer s1)\<rparr>
         else s1\<lparr>proposer := Single_Submit (loopInfo s1) (proposer s1), loopPos := SecondSelect\<rparr>)"

definition onTrigger :: "loop_state \<Rightarrow> loop_state" where
  "onTrigger s = reset_or_block 0 (s\<lparr>triggerNextMilestone := False\<rparr>)"

definition onConfirmed :: "nat \<Rightarrow> int \<Rightarrow> milestone_info \<Rightarrow> loop_state \<Rightarrow> loop_state" where
  "onConfirmed interval now info s =
     reset_or_block (remainingInterval interval now (infoTimestamp info))
       (s\<lparr>confirmedMilestoneSignal := None, loopInfo := info\<rparr>)"

text \<open>The second \<open>select\<close>, after a proposal; then the loop starts over.\<close>

definition onTriggerAfter :: "loop_state \<Rightarrow> loop_state" where
  "onTriggerAfter s =
     s\<lparr>triggerNextMilestone := False, loopTimer := timer_Reset 0 (loopTimer s), loopPos := FirstSelect\<rparr>"

definition onConfirmedAfter :: "nat \<Rightarrow> int \<Rightarrow> milestone_info \<Rightarrow> loop_state \<Rightarrow> loop_state" where
  "onConfirmedAfter interval now info s =
     s\<lparr>confirmedMilestoneSignal := None, loopInfo := info,
       loopTimer := timer_Reset (remainingInterval interval now (infoTimestamp info)) (loopTimer s),
       loopPos := FirstSelect\<rparr>"

text \<open>The end of the loop: the deferred \<open>proposer.Stop\<close>, then the deferred \<open>timer.Stop\<close>.\<close>

definition onDone :: "loop_state \<Rightarrow> loop_state go" where
  "onDone s =
     go_bind (stop_begin (proposer s)) (\<lambda>q.
       Ret (s\<lparr>proposer := q, loopTimer := timer_Stop (loopTimer s), loopPos := Returned\<rparr>))"

section \<open>Interleaving\<close>

text \<open>
  The non-blocking send of the callback of solid blocks. A timer set to \<open>MaxInt64\<close> nanoseconds, 292
  years, does not fire. The queue makes its own steps; only the loop submits to it and stops it.
\<close>

definition sendTrigger :: "loop_state \<Rightarrow> loop_state" where
  "sendTrigger s = s\<lparr>triggerNextMilestone := True\<rparr>"

definition own_event :: "('k, 'v) queue_event \<Rightarrow> bool" where
  "own_event e \<longleftrightarrow> (case e of Submitted k v \<Rightarrow> False | StopCalled \<Rightarrow> False | _ \<Rightarrow> True)"

inductive loop_step for L interval where
  fire: "armed (loopTimer s) = Some d \<Longrightarrow> d < MaxInt64 \<Longrightarrow>
    loop_step L interval s (s\<lparr>loopTimer := timer_fire (loopTimer s)\<rparr>)"
| timer: "loopPos s = FirstSelect \<Longrightarrow> tick (loopTimer s) \<Longrightarrow> loop_step L interval s (onTimer lmi cmi s)"
| trigger: "loopPos s = FirstSelect \<Longrightarrow> triggerNextMilestone s \<Longrightarrow> loop_step L interval s (onTrigger s)"
| confirmed: "loopPos s = FirstSelect \<Longrightarrow> confirmedMilestoneSignal s = Some info \<Longrightarrow>
    loop_step L interval s (onConfirmed interval now info s)"
| trigger_after: "loopPos s = SecondSelect \<Longrightarrow> triggerNextMilestone s \<Longrightarrow>
    loop_step L interval s (onTriggerAfter s)"
| confirmed_after: "loopPos s = SecondSelect \<Longrightarrow> confirmedMilestoneSignal s = Some info \<Longrightarrow>
    loop_step L interval s (onConfirmedAfter interval now info s)"
| cancelled: "loopPos s = FirstSelect \<or> loopPos s = SecondSelect \<Longrightarrow> onDone s = Ret s' \<Longrightarrow>
    loop_step L interval s s'"
| solid: "loop_step L interval s (sendTrigger s)"
| milestone: "processConfirmedMilestone L ms s = Some (Ret s') \<Longrightarrow> loop_step L interval s s'"
| queue: "queue_step (proposer s) e q \<Longrightarrow> own_event e \<Longrightarrow> loop_step L interval s (s\<lparr>proposer := q\<rparr>)"

inductive loop_reachable for L interval where
  init: "initializeEvents L boot now latest (loop_start interval) = Some (Ret (Inr s)) \<Longrightarrow>
    loop_reachable L interval s"
| step: "loop_reachable L interval s \<Longrightarrow> loop_step L interval s s' \<Longrightarrow> loop_reachable L interval s'"

section \<open>Invariant\<close>

text \<open>The loop waits for its timer in the first \<open>select\<close>, and for nothing of it in the second.\<close>

definition timer_ok :: "loop_state \<Rightarrow> bool" where
  "timer_ok s \<longleftrightarrow>
     \<not> (armed (loopTimer s) \<noteq> None \<and> tick (loopTimer s)) \<and>
     (case loopPos s of
        FirstSelect \<Rightarrow> pending (loopTimer s)
      | SecondSelect \<Rightarrow> \<not> pending (loopTimer s)
      | Blocked \<Rightarrow> False
      | Returned \<Rightarrow> armed (loopTimer s) = None)"

text \<open>What is in the channel is the latest milestone, newer than what the loop has received.\<close>

definition signal_ok :: "loop_state \<Rightarrow> bool" where
  "signal_ok s \<longleftrightarrow>
     (case confirmedMilestoneSignal s of
        None \<Rightarrow> loopInfo s = confirmedMilestone s
      | Some info \<Rightarrow> info = confirmedMilestone s \<and>
          (loopInfo s = zero_info \<or> infoIndex (loopInfo s) < infoIndex info))"

text \<open>Proposals are made in order, none for a milestone after the one the loop knows.\<close>

definition proposals_ok :: "32 word \<Rightarrow> milestone_info single \<Rightarrow> bool" where
  "proposals_ok n q \<longleftrightarrow>
     queue_reachable {()} q \<and> (\<forall>v \<in> snd ` set (waiting q). infoIndex v \<le> n) \<and>
     (\<forall>k v. phase q = Executing k v \<longrightarrow>
        infoIndex v \<le> n \<and> (\<forall>w \<in> snd ` set (waiting q). infoIndex v \<le> infoIndex w))"

definition loop_inv :: "loop_state \<Rightarrow> bool" where
  "loop_inv s \<longleftrightarrow> timer_ok s \<and> signal_ok s \<and> proposals_ok (infoIndex (loopInfo s)) (proposer s) \<and>
     (closed (proposer s) \<longrightarrow> loopPos s = Returned)"

lemma single_waiting:
  assumes "queue_inv (q :: 'v single)"
  shows "waiting (Single_Submit v q) = [((), v)]" and "length (waiting q) \<le> 1"
proof -
  show "waiting (Single_Submit v q) = [((), v)]"
    using waiting_Submit [OF assms, of "()" v] by (simp add: Single_Submit_def)
  have "fst ` set (waiting q) \<subseteq> {()}" by (rule subsetI) (simp only: singleton_iff unit_eq)
  from kq.contents_bound [OF assms _ this] show "length (waiting q) \<le> 1" by simp
qed

lemma proposals_ok_mono: "proposals_ok n q \<Longrightarrow> n \<le> m \<Longrightarrow> proposals_ok m q"
  unfolding proposals_ok_def by (meson order_trans)

section \<open>The invariant holds\<close>

lemma proposals_reachable:
  assumes "proposals_ok n q" and "queue_step q e q'"
  shows "queue_reachable {()} q'" and "queue_inv q"
proof -
  have r: "queue_reachable {()} q" using assms(1) by (simp add: proposals_ok_def)
  then show "queue_inv q" by (rule queue_reachable_inv)
  have "submits_in {()} e" by (cases e) auto
  with r assms(2) show "queue_reachable {()} q'" by (rule queue_reachable.step)
qed

lemma phase_Submit [simp]: "queue_inv q \<Longrightarrow> phase (Queue_Submit k v q) = phase q"
  by (simp add: Submit_eq queue_inv_def)

lemma proposals_ok_Submit:
  assumes ok: "proposals_ok n q" and le: "n \<le> infoIndex v"
  shows "proposals_ok (infoIndex v) (Single_Submit v q)"
proof -
  have st: "queue_step q (Submitted () v) (Queue_Submit () v q)" by (rule queue_step.submit)
  note inv = proposals_reachable(2) [OF ok st]
  have w: "waiting (Queue_Submit () v q) = [((), v)]"
    using single_waiting(1) [OF inv, of v] by (simp add: Single_Submit_def)
  have "infoIndex u \<le> infoIndex v" if "phase q = Executing k u" for k u
    using ok that le unfolding proposals_ok_def by (meson order_trans)
  then show ?thesis
    using proposals_reachable(1) [OF ok st] w inv
    by (simp add: proposals_ok_def Single_Submit_def)
qed

lemma proposals_ok_own:
  assumes ok: "proposals_ok n q" and st: "queue_step q e q'" and e: "own_event e"
  shows "proposals_ok n q'"
proof -
  note inv = proposals_reachable(2) [OF ok st]
  have "(\<forall>v \<in> snd ` set (waiting q'). infoIndex v \<le> n) \<and>
     (\<forall>k v. phase q' = Executing k v \<longrightarrow>
        infoIndex v \<le> n \<and> (\<forall>w \<in> snd ` set (waiting q'). infoIndex v \<le> infoIndex w))"
    using st
  proof cases
    case pop
    obtain k v where w: "waiting q = (k, v) # waiting q'" "phase q' = Executing k v"
      using waiting_pop [OF pop(3)] by blast
    have "waiting q' = []" using single_waiting(2) [OF inv] w(1) by simp
    then show ?thesis using ok w by (auto simp: proposals_ok_def)
  next
    case (finish k v err)
    then show ?thesis
      using ok waiting_process_end [OF inv finish(3), of err] by (auto simp: proposals_ok_def)
  qed (use ok e in \<open>auto simp: proposals_ok_def own_event_def on_tick_def Let_def stop_end_def\<close>)
  then show ?thesis using proposals_reachable(1) [OF ok st] by (simp add: proposals_ok_def)
qed

lemma proposals_ok_stop:
  assumes ok: "proposals_ok n q" and st: "stop_begin q = Ret q'"
  shows "proposals_ok n q'"
proof -
  have "waiting q' = waiting q" "phase q' = phase q"
    using st by (auto simp: stop_begin_def split: if_splits)
  then show ?thesis
    using proposals_reachable(1) [OF ok queue_step.stop [OF st]] ok by (simp add: proposals_ok_def)
qed

lemma closed_own:
  assumes "queue_step q e q'" and "own_event e"
  shows "closed q' = closed q"
  using assms
proof cases
  case pop
  then show ?thesis using waiting_pop by blast
qed (auto simp: own_event_def on_tick_def Let_def stop_end_def)

text \<open>In the first \<open>select\<close> the timer can be reset, and is then pending again.\<close>

lemma resetRunningTimer_ok:
  assumes "pending t" and "\<not> (armed t \<noteq> None \<and> tick t)"
  shows "\<exists>t'. resetRunningTimer d t = Some t' \<and> armed t' = Some d \<and> \<not> tick t'"
  using assms by (auto simp: resetRunningTimer_def timer_defs pending_def)

lemma reset_or_block_ok:
  assumes "timer_ok s" and "loopPos s = FirstSelect" and "loopTimer s' = loopTimer s" and "loopPos s' = FirstSelect"
  shows "timer_ok (reset_or_block d s')" and "\<exists>t. reset_or_block d s' = s'\<lparr>loopTimer := t\<rparr>"
proof -
  obtain t' where t: "resetRunningTimer d (loopTimer s) = Some t'" "armed t' = Some d" "\<not> tick t'"
    using resetRunningTimer_ok assms(1,2) by (fastforce simp: timer_ok_def)
  then show "timer_ok (reset_or_block d s')" "\<exists>t. reset_or_block d s' = s'\<lparr>loopTimer := t\<rparr>"
    using assms by (auto simp: reset_or_block_def timer_ok_def pending_def)
qed

lemma signal_receive:
  assumes "signal_ok s" and "confirmedMilestoneSignal s = Some info"
  shows "signal_ok (s\<lparr>confirmedMilestoneSignal := None, loopInfo := info\<rparr>)"
    and "infoIndex (loopInfo s) \<le> infoIndex info"
  using assms by (auto simp: signal_ok_def zero_info_def)

lemma signal_milestone:
  assumes "signal_ok s" and "processConfirmedMilestone L ms s = Some (Ret s')"
  shows "signal_ok s' \<and> loopTimer s' = loopTimer s \<and> loopPos s' = loopPos s \<and> proposer s' = proposer s \<and>
    loopInfo s' = loopInfo s"
  using assms
  by (auto simp: processConfirmedMilestone_def signal_ok_def Let_def split: if_splits go.splits option.splits)

lemma loop_inv_init:
  assumes "initializeEvents L boot now latest (loop_start interval) = Some (Ret (Inr s))"
  shows "loop_inv s"
proof -
  have s0: "signal_ok (loop_start interval)" "timer_ok (loop_start interval)"
    by (simp_all add: signal_ok_def timer_ok_def loop_start_def pending_def)
  have q: "proposals_ok 0 (NewSingle d)" for d
    using queue_reachable.init [of "{()}" d]
    by (simp add: proposals_ok_def NewSingle_def Queue_New_def waiting_def)
  have "signal_ok s \<and> loopTimer s = loopTimer (loop_start interval) \<and> loopPos s = loopPos (loop_start interval) \<and>
      proposer s = proposer (loop_start interval) \<and> loopInfo s = loopInfo (loop_start interval)"
  proof (cases boot)
    case None
    then obtain ms where "processConfirmedMilestone L ms (loop_start interval) = Some (Ret s)"
      using assms by (auto simp: initializeEvents_def go_simps split: option.splits)
    then show ?thesis using signal_milestone s0(1) by blast
  next
    case (Some b)
    then show ?thesis using assms
      by (auto simp: initializeEvents_def Let_def signal_ok_def loop_start_def split: prod.splits if_splits)
  qed
  then show ?thesis
    using s0(2) q by (auto simp: loop_inv_def timer_ok_def loop_start_def zero_info_def NewSingle_def Queue_New_def)
qed

end
