(* ===== verification/Selector.thy ===== *)
theory Selector
  imports Iota
begin

text \<open>
  The tip selection of \<open>pkg/selector/heaviest.go\<close>. Tracked blocks are objects that the map, the list
  of tips and the working list of a selection share, and that a selection changes in place, so
  they live in an explicit heap; a pointer is a position in it. List elements have identities of
  their own. Bit sets (\<open>bits-and-blooms/bitset\<close>) are a parameter. The comparison of a quotient of
  two \<open>float64\<close> with the limit is the field \<open>belowLimit\<close>, and the outcomes of \<open>ctx.Done\<close>, of
  \<open>rand.Intn\<close> and of ranging over the working map are arguments of a selection.
\<close>

section \<open>Bit sets\<close>

record 'b bitset_lib =
  bs_New :: "nat \<Rightarrow> 'b"
  bs_Set :: "nat \<Rightarrow> 'b \<Rightarrow> 'b"
  bs_InPlaceUnion :: "'b \<Rightarrow> 'b \<Rightarrow> 'b"
  bs_InPlaceDifference :: "'b \<Rightarrow> 'b \<Rightarrow> 'b"
  bs_Count :: "'b \<Rightarrow> nat"

text \<open>Documented behaviour: a bit set represents the finite set of its set bits.\<close>

definition bitset_ok :: "'b bitset_lib \<Rightarrow> ('b \<Rightarrow> nat set) \<Rightarrow> bool" where
  "bitset_ok B bits \<longleftrightarrow>
     (\<forall>n. bits (bs_New B n) = {}) \<and> (\<forall>i b. bits (bs_Set B i b) = insert i (bits b)) \<and>
     (\<forall>b c. bits (bs_InPlaceUnion B b c) = bits b \<union> bits c) \<and>
     (\<forall>b c. bits (bs_InPlaceDifference B b c) = bits b - bits c) \<and>
     (\<forall>b. finite (bits b) \<and> bs_Count B b = card (bits b))"

section \<open>The selector\<close>

record 'b tracked_block =
  tbBlockID :: block_id
  tbTip :: "nat option"
  tbRefs :: 'b

record 'b heaviest =
  maxTips :: int
  belowLimit :: "nat \<Rightarrow> nat \<Rightarrow> bool"
  trackedBlocks :: "(block_id, nat) fmap"
  tips :: "(nat \<times> nat) list"
  heap :: "'b tracked_block list"
  nextElement :: nat

definition Heaviest_Reset :: "'b heaviest \<Rightarrow> 'b heaviest" where
  "Heaviest_Reset s = s\<lparr>trackedBlocks := fmempty, tips := []\<rparr>"

definition NewHeaviest :: "int \<Rightarrow> (nat \<Rightarrow> nat \<Rightarrow> bool) \<Rightarrow> 'b heaviest" where
  "NewHeaviest n below =
     Heaviest_Reset \<lparr>maxTips = n, belowLimit = below, trackedBlocks = fmempty, tips = [], heap = [],
                     nextElement = 0\<rparr>"

definition NumTips :: "'b heaviest \<Rightarrow> int" where
  "NumTips s = int (length (tips s))"

definition TrackedBlocks :: "'b heaviest \<Rightarrow> int" where
  "TrackedBlocks s = map_len (trackedBlocks s)"

definition removeTip :: "nat \<Rightarrow> 'b heaviest \<Rightarrow> 'b heaviest" where
  "removeTip p s =
     (case tbTip (heap s ! p) of
        None \<Rightarrow> s
      | Some e \<Rightarrow>
          s\<lparr>tips := filter (\<lambda>x. fst x \<noteq> e) (tips s), heap := (heap s)[p := (heap s ! p)\<lparr>tbTip := None\<rparr>]\<rparr>)"

text \<open>The parents that are tracked, one entry per parent of the block.\<close>

definition trackedParents :: "'b heaviest \<Rightarrow> block_id list \<Rightarrow> nat list" where
  "trackedParents s parents = List.map_filter (fmlookup (trackedBlocks s)) parents"

definition OnNewSolidBlock :: "'b bitset_lib \<Rightarrow> inx_metadata \<Rightarrow> 'b heaviest \<Rightarrow> int \<times> 'b heaviest" where
  "OnNewSolidBlock B meta s =
     (let b = metaBlockID meta in
      if fmlookup (trackedBlocks s) b \<noteq> None then (map_len (trackedBlocks s), s)
      else
        let ps = trackedParents s (metaParents meta);
            idx = nat (map_len (trackedBlocks s));
            refs = fold (\<lambda>p r. bs_InPlaceUnion B r (tbRefs (heap s ! p))) ps
                     (bs_Set B idx (bs_New B (idx + 1)));
            it = length (heap s);
            s1 = s\<lparr>trackedBlocks := fmupd b it (trackedBlocks s),
                   heap := heap s @ [\<lparr>tbBlockID = b, tbTip = None, tbRefs = refs\<rparr>]\<rparr>;
            s2 = fold removeTip ps s1;
            s3 = s2\<lparr>tips := tips s2 @ [(nextElement s2, it)],
                    heap := (heap s2)[it := (heap s2 ! it)\<lparr>tbTip := Some (nextElement s2)\<rparr>],
                    nextElement := Suc (nextElement s2)\<rparr>
        in (map_len (trackedBlocks s3), s3))"

section \<open>Selection\<close>

type_synonym working_list = "(block_id, nat) fmap"

definition tipsToList :: "'b heaviest \<Rightarrow> working_list" where
  "tipsToList s = fold (\<lambda>(e, p) m. fmupd (tbBlockID (heap s ! p)) p m) (tips s) fmempty"

text \<open>
  What is decided outside in one iteration: cancellation, the orders in which the runtime ranges
  over the working map in \<open>referenceTip\<close> and in \<open>selectTip\<close>, and the random choice.
\<close>

datatype context_error = Canceled | DeadlineExceeded

record iteration =
  ctxErr :: "context_error option"
  refOrder :: "working_list \<Rightarrow> block_id list"
  tipOrder :: "working_list \<Rightarrow> block_id list"
  pick :: "nat \<Rightarrow> nat"

definition iteration_ok :: "iteration \<Rightarrow> bool" where
  "iteration_ok it \<longleftrightarrow>
     (\<forall>m. enumerates (refOrder it m) m) \<and> (\<forall>m. enumerates (tipOrder it m) m) \<and>
     (\<forall>n. 0 < n \<longrightarrow> pick it n < n)"

datatype select_error = ErrNoTipsAvailable | ErrContext context_error

definition ctxDone :: "iteration \<Rightarrow> bool" where
  "ctxDone it \<longleftrightarrow> ctxErr it \<noteq> None"

text \<open>\<open>referenceTip\<close> on the working list; the tip leaves the list first.\<close>

definition referenceTip ::
    "'b bitset_lib \<Rightarrow> (working_list \<Rightarrow> block_id list) \<Rightarrow> nat \<Rightarrow> working_list \<times> 'b tracked_block list
     \<Rightarrow> working_list \<times> 'b tracked_block list" where
  "referenceTip B order tip wh =
     (case wh of (blocks, h) \<Rightarrow>
        let blocks' = fmdrop (tbBlockID (h ! tip)) blocks
        in (blocks',
            fold (\<lambda>b h. let q = the (fmlookup blocks' b)
                        in h[q := (h ! q)\<lparr>tbRefs := bs_InPlaceDifference B (tbRefs (h ! q)) (tbRefs (h ! tip))\<rparr>])
              (order blocks') h))"

text \<open>The loop of \<open>selectTip\<close> over the working list, with the best tips so far and their count.\<close>

fun bestTips ::
    "'b bitset_lib \<Rightarrow> working_list \<Rightarrow> 'b tracked_block list \<Rightarrow> block_id list \<Rightarrow> nat list \<times> nat
     \<Rightarrow> nat list \<times> nat" where
  "bestTips B blocks h [] best = best"
| "bestTips B blocks h (b # bs) (ts, n) =
     (let p = the (fmlookup blocks b); c = bs_Count B (tbRefs (h ! p))
      in bestTips B blocks h bs
           (if c > n then ([p], c) else if c = n then (ts @ [p], n) else (ts, n)))"

definition selectTip ::
    "'b bitset_lib \<Rightarrow> (working_list \<Rightarrow> block_id list) \<Rightarrow> (nat \<Rightarrow> nat) \<Rightarrow> working_list \<times> 'b tracked_block list
     \<Rightarrow> select_error + (nat \<times> nat)" where
  "selectTip B order rnd wh =
     (case wh of (blocks, h) \<Rightarrow>
        if map_len blocks = 0 then Inl ErrNoTipsAvailable
        else (case bestTips B blocks h (order blocks) ([], 0) of
                (ts, n) \<Rightarrow>
                  if ts = [] then Inl ErrNoTipsAvailable else Inr (ts ! rnd (length ts), n)))"

text \<open>
  The loop of \<open>selectGreedy\<close>: \<open>n\<close> iterations are left, \<open>i\<close> have been made, \<open>best\<close> is the count of
  the first. The result is the tips with an error, if any, and the heap.
\<close>

fun selectGreedy ::
    "'b bitset_lib \<Rightarrow> (nat \<Rightarrow> nat \<Rightarrow> bool) \<Rightarrow> int \<Rightarrow> (nat \<Rightarrow> iteration) \<Rightarrow> nat \<Rightarrow> nat
     \<Rightarrow> block_id list \<Rightarrow> nat option \<Rightarrow> nat \<Rightarrow> working_list \<times> 'b tracked_block list
     \<Rightarrow> (select_error option \<times> block_id list) \<times> 'b tracked_block list" where
  "selectGreedy B below minReq its 0 i ts lastTip best wh = ((None, ts), snd wh)"
| "selectGreedy B below minReq its (Suc n) i ts lastTip best wh =
     (if ctxDone (its i)
      then ((if minReq \<le> int (length ts) then None else Some (ErrContext (the (ctxErr (its i)))), ts), snd wh)
      else
        let wh1 = (case lastTip of None \<Rightarrow> wh | Some t \<Rightarrow> referenceTip B (refOrder (its i)) t wh)
        in case selectTip B (tipOrder (its i)) (pick (its i)) wh1 of
             Inl e \<Rightarrow> ((if minReq \<le> int (length ts) then None else Some e, ts), snd wh1)
           | Inr (t, c) \<Rightarrow>
               let best1 = (if i = 0 then c else best)
               in if minReq \<le> int (length ts) \<and> below c best1 then ((None, ts), snd wh1)
                  else selectGreedy B below minReq its n (Suc i)
                         (ts @ [tbBlockID (snd wh1 ! t)]) (Some t) best1 wh1)"

definition SelectTips ::
    "'b bitset_lib \<Rightarrow> (nat \<Rightarrow> iteration) \<Rightarrow> int \<Rightarrow> 'b heaviest
     \<Rightarrow> ('b heaviest, select_error + block_id list) exec" where
  "SelectTips B its minRequiredTips s =
     (if minRequiredTips < 1 then Raise ''Heaviest: at least one tip must be required'' s
      else (case selectGreedy B (belowLimit s) minRequiredTips its (nat (maxTips s)) 0 [] None 0
                   (tipsToList s, heap s) of
              ((err, ts), h) \<Rightarrow>
                Val (case err of None \<Rightarrow> Inr ts | Some e \<Rightarrow> Inl e) (s\<lparr>heap := h\<rparr>)))"

end
