(* ===== verification/Plugin.thy ===== *)
theory Plugin
  imports Loop Lifecycle Selector
begin

text \<open>
  The plugin around the coordinator: the providers, the keys and the event callbacks of
  \<open>components/decoo/component.go\<close>, and \<open>proposeParent\<close> of \<open>loop.go\<close>, where the selector, the loop and the
  coordinator meet. What the process environment, the key files and iota.go's key manager give is
  an argument.
\<close>

section \<open>Keys\<close>

datatype key_error = ErrEnvNotSet | ErrReadFile | ErrParseKey byte32_error

definition privateKeyFromString :: "'z crypto_lib_scheme \<Rightarrow> bytes \<Rightarrow> key_error + private_key" where
  "privateKeyFromString cl s =
     (case Byte32_Set zero32 s of
        (sd, Some e) \<Rightarrow> Inl (ErrParseKey e)
      | (sd, None) \<Rightarrow> Inr (NewKeyFromSeed cl sd))"

text \<open>The prefix \<open>file://\<close>; \<open>readPem\<close> is the PEM reader, \<open>None\<close> an error of it.\<close>

definition scheme_prefix :: bytes where
  "scheme_prefix = [0x66, 0x69, 0x6C, 0x65, 0x3A, 0x2F, 0x2F]"

definition privateKeyFromStringOrFile ::
    "'z crypto_lib_scheme \<Rightarrow> (bytes \<Rightarrow> private_key option) \<Rightarrow> bytes \<Rightarrow> key_error + private_key" where
  "privateKeyFromStringOrFile cl readPem val =
     (if take (length scheme_prefix) val = scheme_prefix
      then (case readPem (drop (length scheme_prefix) val) of None \<Rightarrow> Inl ErrReadFile | Some k \<Rightarrow> Inr k)
      else privateKeyFromString cl val)"

definition privateKeyFromEnvironment ::
    "'z crypto_lib_scheme \<Rightarrow> (bytes \<Rightarrow> private_key option) \<Rightarrow> bytes option \<Rightarrow> key_error + private_key" where
  "privateKeyFromEnvironment cl readPem env =
     (case env of
        None \<Rightarrow> Inl ErrEnvNotSet
      | Some val \<Rightarrow> privateKeyFromStringOrFile cl readPem val)"

section \<open>Providing the coordinator\<close>

record key_range =
  krPublicKey :: bytes
  krStartIndex :: "32 word"
  krEndIndex :: "32 word"

text \<open>
  \<open>keySet\<close> is \<open>PublicKeysSetForMilestoneIndex\<close> of a key manager to which the ranges have been added
  in that order; \<open>n\<close> is the number of configured validators, \<open>keyCount\<close> the number of keys a milestone needs.
\<close>

datatype provide_error = ErrPrivateKey key_error | ErrProvide coo_error

definition provideCoordinator ::
    "'z iota_lib_scheme \<Rightarrow> (key_range list \<Rightarrow> 32 word \<Rightarrow> peer_id set) \<Rightarrow> (bytes \<Rightarrow> private_key option)
     \<Rightarrow> bytes option \<Rightarrow> key_range list \<Rightarrow> nat \<Rightarrow> 32 word \<Rightarrow> 64 word \<Rightarrow> (provide_error + coordinator) go" where
  "provideCoordinator L keySet readPem env ranges n keyCount retainBlocks =
     (case privateKeyFromEnvironment L readPem env of
        Inl e \<Rightarrow> Ret (Inl (ErrPrivateKey e))
      | Inr k \<Rightarrow>
          go_bind (NewCommitteeFromManager k (int n) (uint keyCount) (keySet ranges)) (\<lambda>com.
            case New L com retainBlocks of
              Inl e \<Rightarrow> Ret (Inl (ErrProvide e))
            | Inr c \<Rightarrow> Ret (Inr c)))"

section \<open>Callbacks\<close>

record 'b plugin =
  plSelector :: "'b heaviest"
  plLoop :: loop_state

definition onBlockSolid :: "'b bitset_lib \<Rightarrow> int \<Rightarrow> inx_metadata \<Rightarrow> 'b plugin \<Rightarrow> 'b plugin" where
  "onBlockSolid B maxTrackedBlocks meta p =
     (if TrackedBlocks (plSelector p) \<ge> maxTrackedBlocks then p
      else if \<not> ValidParent meta then p
      else (case OnNewSolidBlock B meta (plSelector p) of
              (trackedBlocksCount, s) \<Rightarrow>
                let p1 = p\<lparr>plSelector := s\<rparr>
                in if trackedBlocksCount \<ge> maxTrackedBlocks
                   then p1\<lparr>plLoop := sendTrigger (plLoop p1)\<rparr> else p1))"

text \<open>\<open>lmi\<close> is the index of the latest milestone of the node; \<open>None\<close> waits as \<open>processConfirmedMilestone\<close> does.\<close>

definition onConfirmedMilestoneChanged ::
    "'z iota_lib_scheme \<Rightarrow> 32 word \<Rightarrow> milestone \<Rightarrow> 'b plugin \<Rightarrow> 'b plugin go option" where
  "onConfirmedMilestoneChanged L lmi ms p =
     (let p1 = p\<lparr>plSelector := Heaviest_Reset (plSelector p)\<rparr>
      in if lmi > msIndex ms then Some (Ret p1)
         else map_option (\<lambda>r. go_bind r (\<lambda>l. Ret (p1\<lparr>plLoop := l\<rparr>)))
                (processConfirmedMilestone L ms (plLoop p1)))"

section \<open>Proposing a parent\<close>

datatype propose_error = ErrInterrupted | ErrSelection select_error | ErrProposal coo_error

text \<open>
  The callback of the queue of proposals. \<open>cmi\<close> is the confirmed index, \<open>now\<close> the time, \<open>slept\<close> tells
  whether the sleep ran its time, \<open>rnd n\<close> is \<open>rand.Intn(n)\<close>, which panics for \<open>n = 0\<close>.
\<close>

definition proposeParent ::
    "'z tx_lib_scheme \<Rightarrow> 'b bitset_lib \<Rightarrow> inx \<Rightarrow> 32 word \<Rightarrow> int \<Rightarrow> bool \<Rightarrow> (nat \<Rightarrow> iteration) \<Rightarrow> (nat \<Rightarrow> nat)
     \<Rightarrow> milestone_info \<Rightarrow> 'b heaviest \<times> coordinator
     \<Rightarrow> ('b heaviest \<times> coordinator, propose_error option) exec" where
  "proposeParent L B env cmi now slept its rnd info sc =
     (case sc of (s, c) \<Rightarrow>
        if cmi > infoIndex info then Val None (s, c)
        else if infoTimestamp info + second - now > 0 \<and> \<not> slept then Val (Some ErrInterrupted) (s, c)
        else (case SelectTips B its 1 s of
                Raise e s' \<Rightarrow> Raise e (s', c)
              | Val r s' \<Rightarrow>
                  if r = Inl (ErrContext Canceled) then Val (Some (ErrSelection (ErrContext Canceled))) (s', c)
                  else
                    let tips = (case r of Inr ts \<Rightarrow> ts | Inl e \<Rightarrow> [infoBlockID info])
                    in if tips = [] then Raise ''invalid argument to Intn'' (s', c)
                       else (case ProposeParent L env (infoIndex info + 1) (tips ! rnd (length tips)) c of
                               Raise e c' \<Rightarrow> Raise e (s', c')
                             | Val err c' \<Rightarrow> Val (map_option ErrProposal err) (s', c'))))"

section \<open>Steps of the plugin\<close>

text \<open>
  What changes the selector and the loop: solid blocks, confirmed milestones, selections by
  \<open>proposeParent\<close>, and the steps of the loop itself.
\<close>

inductive plugin_step for L B maxTrackedBlocks interval where
  solid: "plugin_step L B maxTrackedBlocks interval p (onBlockSolid B maxTrackedBlocks meta p)"
| confirmed: "onConfirmedMilestoneChanged L lmi ms p = Some (Ret p') \<Longrightarrow>
    plugin_step L B maxTrackedBlocks interval p p'"
| select: "SelectTips B its 1 (plSelector p) = Val r s \<Longrightarrow> (\<And>i. iteration_ok (its i)) \<Longrightarrow>
    plugin_step L B maxTrackedBlocks interval p (p\<lparr>plSelector := s\<rparr>)"
| loop: "loop_step L interval (plLoop p) l \<Longrightarrow>
    plugin_step L B maxTrackedBlocks interval p (p\<lparr>plLoop := l\<rparr>)"

inductive plugin_reachable for L B maxTrackedBlocks interval where
  start: "initializeEvents L boot now latest (loop_start interval) = Some (Ret (Inr l)) \<Longrightarrow>
    plugin_reachable L B maxTrackedBlocks interval \<lparr>plSelector = NewHeaviest n below, plLoop = l\<rparr>"
| step: "plugin_reachable L B maxTrackedBlocks interval p \<Longrightarrow>
    plugin_step L B maxTrackedBlocks interval p p' \<Longrightarrow> plugin_reachable L B maxTrackedBlocks interval p'"

section \<open>Facts\<close>

lemma privateKeyFromString_String:
  assumes "ws \<in> lists (set space_seqs)" and "vs \<in> lists (set space_seqs)"
  shows "privateKeyFromString cl (concat ws @ Byte32_String sd @ concat vs) = Inr (NewKeyFromSeed cl sd)"
  using Byte32_Set_String [OF assms, of zero32 sd] by (simp add: privateKeyFromString_def)

end
