(* ===== verification/Config.thy ===== *)
theory Config
  imports Plugin
begin

text \<open>
  The configuration of the local Tendermint node, \<open>initTendermintConfig\<close> of
  \<open>components/decoo/tendermint.go\<close>: the values it sets, the files it writes and the errors it
  returns. Texts are byte lists, as Go strings are. The file system, the PEM reader and the
  functions of Tendermint are the record \<open>config_env\<close>; \<open>config_effect\<close> logs what is saved. The
  logger and the construction of the node from the configuration are not modelled.
\<close>

section \<open>Parameters and environment\<close>

record validator_config =
  vcPublicKey :: bytes
  vcPower :: "64 word"

record tm_parameters =
  ConsensusPrivateKey :: bytes
  NodePrivateKey :: bytes
  BindAddress :: bytes
  ChainID :: bytes
  GenesisTime :: "64 word"
  Peers :: "bytes list"
  Validators :: "(bytes, validator_config) fmap"
  CreateEmptyBlocks :: bool
  CreateEmptyBlocksInterval :: int
  BlockInterval :: int
  SkipBlockTimeout :: bool
  PrometheusEnabled :: bool
  PrometheusBindAddress :: bytes

record genesis_validator =
  gvPubKey :: byte32
  gvPower :: "64 word"
  gvName :: bytes

record genesis =
  genTime :: "64 word"
  genChainID :: bytes
  genInitialHeight :: "64 word"
  genValidators :: "genesis_validator list"
  genTimeIotaMs :: int

text \<open>
  \<open>addressID\<close> is \<open>NewNetAddressString\<close> with the ID of the address, \<open>idOfKey\<close> is \<open>PubKeyToID\<close>; the
  booleans tell which files exist and which calls return without an error.
\<close>

record config_env =
  envReadPem :: "bytes \<Rightarrow> private_key option"
  privValFilesExist :: bool
  nodeKeyFileExists :: bool
  loadsNodeKey :: bool
  savesNodeKey :: bool
  addressID :: "bytes \<Rightarrow> bytes option"
  idOfKey :: "byte32 \<Rightarrow> bytes"
  networkName :: bytes
  genesisFileExists :: bool
  genesisValid :: "genesis \<Rightarrow> bool"
  savesGenesis :: bool

datatype config_effect = SavePrivValidator private_key | SaveNodeKey private_key | SaveGenesis genesis

datatype config_error =
  ErrConsensusKey key_error | ErrInvalidNodeKey | ErrLoadNodeKey key_error | ErrSaveNodeKey
| ErrValidatorKey bytes byte32_error | ErrPeerAddress | ErrChainID | ErrGenesisConfig | ErrSaveGenesis

text \<open>The fields of the Tendermint configuration that are set.\<close>

record tm_config =
  tmListenAddress :: bytes
  tmPexReactor :: bool
  tmTimeoutCommit :: int
  tmSkipTimeoutCommit :: bool
  tmCreateEmptyBlocks :: bool
  tmCreateEmptyBlocksInterval :: int
  tmMempoolSize :: int
  tmMaxTxBytes :: int
  tmMaxTxsBytes :: int
  tmPersistentPeers :: bytes
  tmMaxNumInboundPeers :: int
  tmMaxNumOutboundPeers :: int
  tmIndexer :: bytes
  tmPrometheus :: bool
  tmPrometheusListenAddr :: bytes

section \<open>Steps\<close>

text \<open>\<open>"tcp://"\<close> and \<open>"null"\<close>\<close>

definition tcp_prefix :: bytes where "tcp_prefix = [0x74, 0x63, 0x70, 0x3A, 0x2F, 0x2F]"

definition null_indexer :: bytes where "null_indexer = [0x6E, 0x75, 0x6C, 0x6C]"

text \<open>\<open>strings.Join(s, ",")\<close>\<close>

fun join_comma :: "bytes list \<Rightarrow> bytes" where
  "join_comma [] = []"
| "join_comma [s] = s"
| "join_comma (s # t # ss) = s @ 0x2C # join_comma (t # ss)"

definition nodeKeySetup ::
    "'z crypto_lib_scheme \<Rightarrow> tm_parameters \<Rightarrow> config_env \<Rightarrow> config_effect list \<times> config_error option" where
  "nodeKeySetup cl P E =
     (if nodeKeyFileExists E then ([], if loadsNodeKey E then None else Some ErrInvalidNodeKey)
      else (case privateKeyFromStringOrFile cl (envReadPem E) (NodePrivateKey P) of
              Inl e \<Rightarrow> ([], Some (ErrLoadNodeKey e))
            | Inr k \<Rightarrow> if savesNodeKey E then ([SaveNodeKey k], None) else ([], Some ErrSaveNodeKey)))"

text \<open>The loop over the configured validators, in the order in which the map is visited.\<close>

fun genesisValidators ::
    "(bytes, validator_config) fmap \<Rightarrow> bytes list \<Rightarrow> genesis_validator list \<Rightarrow> config_error + genesis_validator list" where
  "genesisValidators m [] acc = Inr acc"
| "genesisValidators m (name # names) acc =
     (let validator = the (fmlookup m name)
      in case Byte32_Set zero32 (vcPublicKey validator) of
           (b, Some e) \<Rightarrow> Inl (ErrValidatorKey name e)
         | (b, None) \<Rightarrow> genesisValidators m names
             (acc @ [\<lparr>gvPubKey = b, gvPower = vcPower validator, gvName = name\<rparr>]))"

fun collectPeers :: "config_env \<Rightarrow> bytes \<Rightarrow> bytes list \<Rightarrow> bytes list \<Rightarrow> config_error + bytes list" where
  "collectPeers E own [] peers = Inr peers"
| "collectPeers E own (peer # ps) peers =
     (case addressID E peer of
        None \<Rightarrow> Inl ErrPeerAddress
      | Some i \<Rightarrow> collectPeers E own ps (if own \<noteq> i then peers @ [peer] else peers))"

definition genesisSetup ::
    "tm_parameters \<Rightarrow> config_env \<Rightarrow> genesis_validator list \<Rightarrow> config_effect list \<times> config_error option" where
  "genesisSetup P E validators =
     (if genesisFileExists E then ([], None)
      else let gen = \<lparr>genTime = GenesisTime P, genChainID = ChainID P, genInitialHeight = 0,
                      genValidators = validators, genTimeIotaMs = 500\<rparr>
           in if \<not> genesisValid E gen then ([], Some ErrGenesisConfig)
              else if savesGenesis E then ([SaveGenesis gen], None) else ([], Some ErrSaveGenesis))"

definition tendermintConfig :: "tm_parameters \<Rightarrow> bytes list \<Rightarrow> tm_config" where
  "tendermintConfig P peers =
     \<lparr>tmListenAddress = tcp_prefix @ BindAddress P, tmPexReactor = False,
      tmTimeoutCommit = BlockInterval P, tmSkipTimeoutCommit = SkipBlockTimeout P,
      tmCreateEmptyBlocks = CreateEmptyBlocks P, tmCreateEmptyBlocksInterval = CreateEmptyBlocksInterval P,
      tmMempoolSize = 1000, tmMaxTxBytes = 1024, tmMaxTxsBytes = 1000 * 1024,
      tmPersistentPeers = join_comma peers, tmMaxNumInboundPeers = int (length peers),
      tmMaxNumOutboundPeers = int (length peers), tmIndexer = null_indexer,
      tmPrometheus = PrometheusEnabled P, tmPrometheusListenAddr = PrometheusBindAddress P\<rparr>"

text \<open>What has been saved, and the configuration or the error.\<close>

definition initTendermintConfig ::
    "'z crypto_lib_scheme \<Rightarrow> tm_parameters \<Rightarrow> config_env \<Rightarrow> bytes list
     \<Rightarrow> config_effect list \<times> (config_error + tm_config)" where
  "initTendermintConfig cl P E names =
     (case privateKeyFromStringOrFile cl (envReadPem E) (ConsensusPrivateKey P) of
        Inl e \<Rightarrow> ([], Inl (ErrConsensusKey e))
      | Inr consensusKey \<Rightarrow>
          let saved1 = (if privValFilesExist E then [] else [SavePrivValidator consensusKey])
          in case nodeKeySetup cl P E of
               (saved2, Some e) \<Rightarrow> (saved1 @ saved2, Inl e)
             | (saved2, None) \<Rightarrow>
                 (case genesisValidators (Validators P) names [] of
                    Inl e \<Rightarrow> (saved1 @ saved2, Inl e)
                  | Inr validators \<Rightarrow>
                      (case collectPeers E (idOfKey E (pubkey consensusKey)) (Peers P) [] of
                         Inl e \<Rightarrow> (saved1 @ saved2, Inl e)
                       | Inr peers \<Rightarrow>
                           if ChainID P \<noteq> networkName E then (saved1 @ saved2, Inl ErrChainID)
                           else (case genesisSetup P E validators of
                                   (saved3, Some e) \<Rightarrow> (saved1 @ saved2 @ saved3, Inl e)
                                 | (saved3, None) \<Rightarrow>
                                     (saved1 @ saved2 @ saved3, Inr (tendermintConfig P peers))))))"

section \<open>Facts\<close>

lemma collectPeers_Inr:
  "collectPeers E own ps acc = Inr peers \<longleftrightarrow>
     (\<forall>p \<in> set ps. addressID E p \<noteq> None) \<and> peers = acc @ filter (\<lambda>p. addressID E p \<noteq> Some own) ps"
  by (induction E own ps acc rule: collectPeers.induct) (auto split: option.splits)

lemma genesisValidators_Inr:
  "genesisValidators m names acc = Inr vs \<longleftrightarrow>
     (\<forall>n \<in> set names. snd (Byte32_Set zero32 (vcPublicKey (the (fmlookup m n)))) = None) \<and>
     vs = acc @ map (\<lambda>n. \<lparr>gvPubKey = fst (Byte32_Set zero32 (vcPublicKey (the (fmlookup m n)))),
                          gvPower = vcPower (the (fmlookup m n)), gvName = n\<rparr>) names"
  by (induction m names acc rule: genesisValidators.induct)
     (auto simp: Let_def split: prod.splits option.splits)

text \<open>Joining and splitting: no address contains a comma.\<close>

fun split_comma :: "bytes \<Rightarrow> bytes \<Rightarrow> bytes list" where
  "split_comma [] cur = [cur]"
| "split_comma (c # s) cur = (if c = 0x2C then cur # split_comma s [] else split_comma s (cur @ [c]))"

lemma split_comma_append: "0x2C \<notin> set s \<Longrightarrow> split_comma (s @ t) cur = split_comma t (cur @ s)"
  by (induction s arbitrary: cur) auto

lemma split_join: "ss \<noteq> [] \<Longrightarrow> (\<forall>s \<in> set ss. 0x2C \<notin> set s) \<Longrightarrow> split_comma (join_comma ss) [] = ss"
proof (induction ss rule: join_comma.induct)
  case (2 s)
  then show ?case using split_comma_append [of s "[]" "[]"] by simp
next
  case (3 s t ss)
  then show ?case using split_comma_append [of s "0x2C # join_comma (t # ss)" "[]"] by simp
qed simp

end
