(* ===== verification/ConfigProperties.thy ===== *)
theory ConfigProperties
  imports Config Demo
begin

text \<open>What a configuration that \<open>initTendermintConfig\<close> returns contains.\<close>

lemma initTendermintConfig_Inr:
  assumes "initTendermintConfig cl P E names = (saved, Inr conf)"
  shows "\<exists>k vs peers. privateKeyFromStringOrFile cl (envReadPem E) (ConsensusPrivateKey P) = Inr k \<and>
    genesisValidators (Validators P) names [] = Inr vs \<and>
    collectPeers E (idOfKey E (pubkey k)) (Peers P) [] = Inr peers \<and> ChainID P = networkName E \<and>
    conf = tendermintConfig P peers \<and> snd (nodeKeySetup cl P E) = None \<and> snd (genesisSetup P E vs) = None \<and>
    saved = (if privValFilesExist E then [] else [SavePrivValidator k]) @ fst (nodeKeySetup cl P E) @
      fst (genesisSetup P E vs)"
  using assms
  by (auto simp: initTendermintConfig_def Let_def split: sum.splits prod.splits option.splits if_splits)

lemma genesisSetup_saved: "SaveGenesis g \<in> set (fst (genesisSetup P E vs)) \<Longrightarrow> genChainID g = ChainID P \<and> genValidators g = vs"
  by (auto simp: genesisSetup_def Let_def split: if_splits)

lemma nodeKeySetup_saved: "SaveGenesis g \<notin> set (fst (nodeKeySetup cl P E))"
  by (auto simp: nodeKeySetup_def split: if_splits sum.splits)

text \<open>The validators of the genesis document: one for every configured name, in the order of the
  enumeration, with the parsed key and the power of its entry.\<close>
lemma genesisValidators_named:
  assumes v: "genesisValidators m names [] = Inr vs" and n: "enumerates names m"
  shows "distinct (map gvName vs) \<and> set (map gvName vs) = fmdom' m \<and>
    (\<forall>v \<in> set vs. \<exists>vc. fmlookup m (gvName v) = Some vc \<and>
       Byte32_Set zero32 (vcPublicKey vc) = (gvPubKey v, None) \<and> gvPower v = vcPower vc)"
proof -
  let ?v = "\<lambda>n. \<lparr>gvPubKey = fst (Byte32_Set zero32 (vcPublicKey (the (fmlookup m n)))),
    gvPower = vcPower (the (fmlookup m n)), gvName = n\<rparr>"
  have n: "distinct names" "set names = fmdom' m" using n by (auto simp: enumerates_def)
  have vs: "vs = map ?v names"
    "\<forall>n \<in> set names. snd (Byte32_Set zero32 (vcPublicKey (the (fmlookup m n)))) = None"
    using v by (simp_all add: genesisValidators_Inr)
  have "map gvName vs = names" by (simp add: vs(1) comp_def)
  moreover have "\<exists>vc. fmlookup m n = Some vc \<and>
      Byte32_Set zero32 (vcPublicKey vc) = (gvPubKey (?v n), None) \<and> gvPower (?v n) = vcPower vc"
    if mem: "n \<in> set names" for n
  proof -
    obtain vc where vc: "fmlookup m n = Some vc" using mem n(2) by (auto simp: fmlookup_dom'_iff)
    then have "snd (Byte32_Set zero32 (vcPublicKey vc)) = None" using vs(2) mem by auto
    then show ?thesis using vc by (metis genesis_validator.select_convs(1,2) option.sel prod.collapse)
  qed
  ultimately show ?thesis using n vs(1) by auto
qed

text \<open>
  C30. A configuration that is returned is consistent with the network and the coordinator. The chain ID
  is the name of the network; the persistent peers are the configured ones without the node itself,
  in order, and the connection limits are their number; a genesis that is saved has exactly one
  validator for every configured name, with its parsed key and its power; and the mempool takes
  every transaction a coordinator makes.
\<close>
theorem initTendermintConfig_consistent:
  assumes "initTendermintConfig cl P E names = (saved, Inr conf)" and "enumerates names (Validators P)"
    and "\<forall>p \<in> set (Peers P). 0x2C \<notin> set p"
  shows "ChainID P = networkName E \<and> int MaxTxBytes \<le> tmMaxTxBytes conf \<and>
    (\<exists>k. privateKeyFromStringOrFile cl (envReadPem E) (ConsensusPrivateKey P) = Inr k \<and>
       (let peers = filter (\<lambda>p. addressID E p \<noteq> Some (idOfKey E (pubkey k))) (Peers P)
        in (peers \<noteq> [] \<longrightarrow> split_comma (tmPersistentPeers conf) [] = peers) \<and>
           (peers = [] \<longrightarrow> tmPersistentPeers conf = []) \<and>
           tmMaxNumInboundPeers conf = int (length peers) \<and> tmMaxNumOutboundPeers conf = int (length peers))) \<and>
    (\<forall>g. SaveGenesis g \<in> set saved \<longrightarrow>
       genChainID g = networkName E \<and> distinct (map gvName (genValidators g)) \<and>
       set (map gvName (genValidators g)) = fmdom' (Validators P) \<and>
       (\<forall>v \<in> set (genValidators g). \<exists>vc. fmlookup (Validators P) (gvName v) = Some vc \<and>
          Byte32_Set zero32 (vcPublicKey vc) = (gvPubKey v, None) \<and> gvPower v = vcPower vc))"
proof -
  obtain k vs peers where i: "privateKeyFromStringOrFile cl (envReadPem E) (ConsensusPrivateKey P) = Inr k"
    "genesisValidators (Validators P) names [] = Inr vs"
    "collectPeers E (idOfKey E (pubkey k)) (Peers P) [] = Inr peers" "ChainID P = networkName E"
    "conf = tendermintConfig P peers"
    "saved = (if privValFilesExist E then [] else [SavePrivValidator k]) @ fst (nodeKeySetup cl P E) @
      fst (genesisSetup P E vs)"
    using initTendermintConfig_Inr [OF assms(1)] by metis
  let ?peers = "filter (\<lambda>p. addressID E p \<noteq> Some (idOfKey E (pubkey k))) (Peers P)"
  have p: "peers = ?peers" using i(3) by (simp add: collectPeers_Inr)
  have "peers \<noteq> [] \<longrightarrow> split_comma (tmPersistentPeers conf) [] = peers"
    using split_join [of peers] assms(3) p i(5) by (auto simp: tendermintConfig_def)
  moreover have "peers = [] \<longrightarrow> tmPersistentPeers conf = []" using i(5) by (simp add: tendermintConfig_def)
  moreover have "tmMaxNumInboundPeers conf = int (length peers) \<and> tmMaxNumOutboundPeers conf = int (length peers) \<and>
      int MaxTxBytes \<le> tmMaxTxBytes conf"
    using i(5) by (simp add: tendermintConfig_def MaxTxBytes_def)
  moreover have "genChainID g = networkName E \<and> distinct (map gvName (genValidators g)) \<and>
       set (map gvName (genValidators g)) = fmdom' (Validators P) \<and>
       (\<forall>v \<in> set (genValidators g). \<exists>vc. fmlookup (Validators P) (gvName v) = Some vc \<and>
          Byte32_Set zero32 (vcPublicKey vc) = (gvPubKey v, None) \<and> gvPower v = vcPower vc)"
    if "SaveGenesis g \<in> set saved" for g
  proof -
    have g: "genChainID g = ChainID P" "genValidators g = vs"
      using that i(6) genesisSetup_saved [of g P E vs] nodeKeySetup_saved [of g cl P E] by (auto split: if_splits)
    from genesisValidators_named [OF i(2) assms(2)] show ?thesis by (simp add: g i(4))
  qed
  ultimately show ?thesis using i(1,4) p by (auto simp: Let_def)
qed

text \<open>A text of hexadecimal digits never looks like the name of a file.\<close>

lemma not_file: "take (length scheme_prefix) (Byte32_String c) \<noteq> scheme_prefix"
proof
  assume e: "take (length scheme_prefix) (Byte32_String c) = scheme_prefix"
  obtain v vs where v: "bytes_of c = v # vs" using length_bytes_of [of c] by (cases "bytes_of c") auto
  have "hex_digit n \<noteq> 0x69" if "n < 16" for n
  proof -
    have "list_all (\<lambda>n. hex_digit n \<noteq> 0x69) [0, 1, 2, 3, 4, 5, 6, 7, 8, 9, 10, 11, 12, 13, 14, 15]"
      by code_simp
    then show ?thesis using nibble_mem [OF that] by (auto simp: list_all_iff)
  qed
  then have "hex_digit (v AND 15) \<noteq> 0x69" using nib_bound(2) by blast
  moreover have "Byte32_String c ! 1 = hex_digit (v AND 15)" by (simp add: Byte32_String_def v)
  moreover have "Byte32_String c ! 1 = 0x69"
    using arg_cong [OF e, of "\<lambda>x. x ! 1"] by (simp add: scheme_prefix_def)
  ultimately show False by simp
qed

lemma privateKeyFromStringOrFile_text:
  "privateKeyFromStringOrFile cl readPem (Byte32_String c) = Inr (NewKeyFromSeed cl c)"
  using not_file [of c] privateKeyFromString_String [of "[]" "[]" cl c]
  by (simp add: privateKeyFromStringOrFile_def)

text \<open>An example with one validator, two peers of which one is the node itself, and no files.\<close>

definition demo_parameters :: tm_parameters where
  "demo_parameters =
     \<lparr>ConsensusPrivateKey = Byte32_String (b32 1), NodePrivateKey = Byte32_String (b32 2),
      BindAddress = [0x3A], ChainID = [0x74], GenesisTime = 0, Peers = [[0x41], [0x42]],
      Validators = fmupd [0x61] \<lparr>vcPublicKey = Byte32_String (b32 1), vcPower = 10\<rparr> fmempty,
      CreateEmptyBlocks = False, CreateEmptyBlocksInterval = 0, BlockInterval = 700000000,
      SkipBlockTimeout = False, PrometheusEnabled = False, PrometheusBindAddress = []\<rparr>"

definition demo_config_env :: config_env where
  "demo_config_env =
     \<lparr>envReadPem = (\<lambda>p. None), privValFilesExist = False, nodeKeyFileExists = False, loadsNodeKey = True,
      savesNodeKey = True, addressID = (\<lambda>a. if a = [0x41] then Some [1] else Some [2]),
      idOfKey = (\<lambda>k. [1]), networkName = [0x74], genesisFileExists = False,
      genesisValid = (\<lambda>g. True), savesGenesis = True\<rparr>"

lemma demo_configured:
  "\<exists>saved conf g. initTendermintConfig TL demo_parameters demo_config_env [[0x61]] = (saved, Inr conf) \<and>
     SaveGenesis g \<in> set saved"
proof -
  have "Byte32_Set zero32 (Byte32_String (b32 1)) = (b32 1, None)"
    using Byte32_Set_String [of "[]" "[]" zero32 "b32 1"] by simp
  then show ?thesis
    by (simp add: initTendermintConfig_def demo_parameters_def demo_config_env_def privateKeyFromStringOrFile_text
        nodeKeySetup_def genesisSetup_def Let_def)
qed

theorem initTendermintConfig_consistent_witness:
  "\<exists>saved conf g. initTendermintConfig TL demo_parameters demo_config_env [[0x61]] = (saved, Inr conf) \<and>
     split_comma (tmPersistentPeers conf) [] = [[0x42]] \<and>
     SaveGenesis g \<in> set saved \<and> set (map gvName (genValidators g)) = {[0x61]}"
proof -
  obtain saved conf g where r: "initTendermintConfig TL demo_parameters demo_config_env [[0x61]] = (saved, Inr conf)"
    "SaveGenesis g \<in> set saved"
    using demo_configured by blast
  have e: "enumerates [[0x61]] (Validators demo_parameters)" by (simp add: enumerates_def demo_parameters_def)
  have c: "\<forall>p \<in> set (Peers demo_parameters). 0x2C \<notin> set p" by (simp add: demo_parameters_def)
  have f: "filter (\<lambda>p. addressID demo_config_env p \<noteq> Some (idOfKey demo_config_env k)) (Peers demo_parameters) = [[0x42]]" for k
    by (simp add: demo_config_env_def demo_parameters_def)
  have d: "fmdom' (Validators demo_parameters) = {[0x61]}" by (simp add: demo_parameters_def)
  from initTendermintConfig_consistent [OF r(1) e c, unfolded f d] r show ?thesis by (auto simp: Let_def)
qed

end
