(* ===== verification/Resume.thy ===== *)
theory Resume
  imports System
begin

text \<open>
  How the plugin initializes the coordinator when it starts, \<open>components/decoo/coordinator.go\<close>: it
  bootstraps, or waits for the node and resumes from the newest milestone that the local
  Tendermint chain knows. The answers of the node, the result of every sleep and the state file
  of the private validator are the record \<open>init_env\<close>. Loops that may wait forever return \<open>None\<close> when
  they do.
\<close>

section \<open>State and environment\<close>

text \<open>The command line flags and the parameter \<open>SingleNode\<close>.\<close>

record config =
  bootstrap :: bool
  startIndex :: "32 word"
  startMilestoneID :: milestone_id
  startMilestoneBlockID :: block_id
  bootstrapForce :: bool
  SingleNode :: bool

text \<open>
  \<open>peersAt\<close> and \<open>indicesAt\<close> are the answers to the \<open>n\<close>-th attempt (for the peers: which are connected;
  for the indices: latest and confirmed), and \<open>sleepPeersAt\<close> and \<open>sleepSyncAt\<close> tell whether the sleep
  after it ran its time. \<open>solidWaitAt n\<close> is what the wait of the listener observes at its \<open>n\<close>-th
  instant: \<open>None\<close> as long as nothing has happened, \<open>Some True\<close> for the event of the solid block and
  \<open>Some False\<close> for an error, such as the end of the context.
\<close>

record init_env =
  registersSolid :: bool
  solidWaitAt :: "nat \<Rightarrow> bool option"
  lastSignHeight :: "64 word"
  peersAt :: "nat \<Rightarrow> bool list option"
  sleepPeersAt :: "nat \<Rightarrow> bool"
  indicesAt :: "nat \<Rightarrow> 32 word \<times> 32 word"
  sleepSyncAt :: "nat \<Rightarrow> bool"
  confirmedAnswer :: "milestone option option"
  milestoneAnswer :: "32 word \<Rightarrow> milestone option option"

text \<open>The calls of \<open>components/decoo/inx.go\<close> to the node, under a timeout that is one of the errors.\<close>

abbreviation inxRegisterBlockSolidEvent :: "init_env \<Rightarrow> bool" where
  "inxRegisterBlockSolidEvent env \<equiv> registersSolid env"

abbreviation inxGetPeers :: "init_env \<Rightarrow> nat \<Rightarrow> bool list option" where
  "inxGetPeers env n \<equiv> peersAt env n"

abbreviation inxGetMilestone :: "init_env \<Rightarrow> 32 word \<Rightarrow> milestone option option" where
  "inxGetMilestone env \<equiv> milestoneAnswer env"

datatype init_error =
  ErrRegisterSolid | ErrWaitSolid | ErrBootstrap coo_error | ErrNoTendermintState | ErrPeers
| ErrCancelled | ErrConfirmed | ErrNoMilestone | ErrInvalidMetadata "32 word" metadata_error
| ErrRetrieve "32 word" | ErrResume coo_error

section \<open>Waiting\<close>

text \<open>
  A loop that decides or sleeps and tries again: \<open>decide n\<close> is what the \<open>n\<close>-th attempt returns, if
  it returns. A sleep that is cut short ends it with the error of the context.
\<close>

partial_function (option) retrying ::
    "(nat \<Rightarrow> init_error option option) \<Rightarrow> (nat \<Rightarrow> bool) \<Rightarrow> nat \<Rightarrow> init_error option option" where
  "retrying decide sleep n =
     (case decide n of
        Some r \<Rightarrow> Some r
      | None \<Rightarrow> if \<not> sleep n then Some (Some ErrCancelled) else retrying decide sleep (Suc n))"

text \<open>The wait for the solid block has no bound of its own: it ends with the event or an error.\<close>

definition solidAt :: "init_env \<Rightarrow> nat \<Rightarrow> init_error option option" where
  "solidAt env n = map_option (\<lambda>solid. if solid then None else Some ErrWaitSolid) (solidWaitAt env n)"

definition waitUntilBlockSolid :: "init_env \<Rightarrow> init_error option option" where
  "waitUntilBlockSolid env =
     (if \<not> inxRegisterBlockSolidEvent env then Some (Some ErrRegisterSolid)
      else retrying (solidAt env) (\<lambda>n. True) 0)"

definition connectedAt :: "init_env \<Rightarrow> nat \<Rightarrow> init_error option option" where
  "connectedAt env n =
     (case inxGetPeers env n of
        None \<Rightarrow> Some (Some ErrPeers)
      | Some peers \<Rightarrow> if list_ex (\<lambda>connected. connected) peers then Some None else None)"

definition waitUntilConnected :: "init_env \<Rightarrow> init_error option option" where
  "waitUntilConnected env = retrying (connectedAt env) (sleepPeersAt env) 0"

definition syncedAt :: "init_env \<Rightarrow> nat \<Rightarrow> init_error option option" where
  "syncedAt env n = (case indicesAt env n of (lmi, cmi) \<Rightarrow> if lmi > 0 \<and> lmi = cmi then Some None else None)"

definition waitUntilSynced :: "init_env \<Rightarrow> init_error option option" where
  "waitUntilSynced env = retrying (syncedAt env) (sleepSyncAt env) 0"

section \<open>The walk down the milestones\<close>

partial_function (option) walkDown ::
    "'z iota_lib_scheme \<Rightarrow> (32 word \<Rightarrow> milestone option option) \<Rightarrow> 64 word \<Rightarrow> milestone
     \<Rightarrow> (init_error + milestone) go option" where
  "walkDown L getMilestone tendermintHeight ms =
     (case NewStateFromMilestone L ms of
        Inl e \<Rightarrow> Some (Ret (Inl (ErrInvalidMetadata (msIndex ms) e)))
      | Inr st \<Rightarrow>
          if sint tendermintHeight \<ge> sint (MilestoneHeight st) then Some (Ret (Inr ms))
          else (case getMilestone (MilestoneIndex st - 1) of
                  None \<Rightarrow> Some (Ret (Inl (ErrRetrieve (MilestoneIndex st - 1))))
                | Some prev \<Rightarrow>
                    (case prev of
                       None \<Rightarrow> Some (Panic ''nil pointer dereference'')
                     | Some ms' \<Rightarrow> walkDown L getMilestone tendermintHeight ms')))"

section \<open>Initialization\<close>

definition resumeFrom ::
    "'z app_lib_scheme \<Rightarrow> init_env \<Rightarrow> 64 word \<Rightarrow> coordinator \<Rightarrow> init_error option coo option" where
  "resumeFrom L ie tendermintHeight c =
     (case confirmedAnswer ie of
        None \<Rightarrow> Some (Val (Some ErrConfirmed) c)
      | Some None \<Rightarrow> Some (Val (Some ErrNoMilestone) c)
      | Some (Some ms) \<Rightarrow>
          Option.bind (walkDown L (inxGetMilestone ie) tendermintHeight ms) (\<lambda>r. Some
            (exec_bind (lift_go r c) (\<lambda>r c.
               case r of
                 Inl e \<Rightarrow> Val (Some e) c
               | Inr ms \<Rightarrow> exec_bind (InitState L ms c) (\<lambda>err c. Val (map_option ErrResume err) c)))))"

definition initCoordinatorState ::
    "'z app_lib_scheme \<Rightarrow> inx \<Rightarrow> config \<Rightarrow> init_env \<Rightarrow> coordinator \<Rightarrow> init_error option coo option" where
  "initCoordinatorState L env cfg ie c =
     (if bootstrap cfg
      then Option.bind (waitUntilBlockSolid ie) (\<lambda>err.
              case err of
                Some e \<Rightarrow> Some (Val (Some e) c)
              | None \<Rightarrow> Some (exec_bind
                  (Bootstrap L env (bootstrapForce cfg) (startIndex cfg) (startMilestoneID cfg)
                     (startMilestoneBlockID cfg) c)
                  (\<lambda>err c. Val (map_option ErrBootstrap err) c)))
      else let tendermintHeight = lastSignHeight ie - 1 in
        if sint tendermintHeight < 0 then Some (Val (Some ErrNoTendermintState) c)
        else Option.bind (if SingleNode cfg then Some None else waitUntilConnected ie) (\<lambda>err1.
          case err1 of
            Some e \<Rightarrow> Some (Val (Some e) c)
          | None \<Rightarrow> Option.bind (waitUntilSynced ie) (\<lambda>err2.
              case err2 of
                Some e \<Rightarrow> Some (Val (Some e) c)
              | None \<Rightarrow> resumeFrom L ie tendermintHeight c)))"

section \<open>When the waits end\<close>

lemma retrying_returns:
  assumes "decide k \<noteq> None \<or> \<not> sleep k" and "n \<le> k"
  shows "\<exists>r. retrying decide sleep n = Some r"
  using assms(2)
proof (induction "k - n" arbitrary: n)
  case 0
  then have "n = k" by simp
  then show ?case using assms(1) by (subst retrying.simps) (auto split: option.split)
next
  case (Suc d)
  then have "\<exists>r. retrying decide sleep (Suc n) = Some r" by simp
  then show ?case by (subst retrying.simps) (auto split: option.split)
qed

lemma retrying_None:
  assumes "retrying decide sleep n = Some r"
  shows "\<exists>k. decide k = Some r \<or> r = Some ErrCancelled"
proof (rule retrying.raw_induct [where P = "\<lambda>decide sleep n r. \<exists>k. decide k = Some r \<or> r = Some ErrCancelled", OF _ assms])
  fix f decide' sleep' n' r'
  assume IH: "\<And>d s n r. f d s n = Some r \<Longrightarrow> \<exists>k. d k = Some r \<or> r = Some ErrCancelled"
    and e: "(case decide' n' of Some r \<Rightarrow> Some r
        | None \<Rightarrow> if \<not> sleep' n' then Some (Some ErrCancelled) else f decide' sleep' (Suc n')) = Some r'"
  then show "\<exists>k. decide' k = Some r' \<or> r' = Some ErrCancelled"
    by (cases "decide' n'") (auto split: if_splits)
qed

end
