(* ===== verification/ResumeProperties.thy ===== *)
theory ResumeProperties
  imports Resume Demo
begin

text \<open>
  The walk ends at the newest milestone of the chain that the local Tendermint blocks reach; it
  ends at all, as long as the node returns the milestones it is asked for; and the coordinator
  that comes out is one of those whose runs \<open>System\<close> describes.
\<close>

section \<open>The walk\<close>

text \<open>A path of the walk: from each milestone the node was asked for the one before it.\<close>

definition predecessors :: "(32 word \<Rightarrow> milestone option option) \<Rightarrow> milestone list \<Rightarrow> bool" where
  "predecessors q path \<longleftrightarrow> successively (\<lambda>a b. q (msIndex a - 1) = Some (Some b)) path"

definition height_of :: "'z iota_lib_scheme \<Rightarrow> milestone \<Rightarrow> int option" where
  "height_of L ms =
     (case NewStateFromMilestone L ms of Inl e \<Rightarrow> None | Inr st \<Rightarrow> Some (sint (MilestoneHeight st)))"

definition walk_to ::
    "'z iota_lib_scheme \<Rightarrow> (32 word \<Rightarrow> milestone option option) \<Rightarrow> 64 word \<Rightarrow> milestone \<Rightarrow> milestone \<Rightarrow> bool" where
  "walk_to L q h ms r \<longleftrightarrow>
     (\<exists>path. path \<noteq> [] \<and> hd path = ms \<and> last path = r \<and> predecessors q path \<and>
        (\<forall>x \<in> set (butlast path). \<exists>k. height_of L x = Some k \<and> sint h < k) \<and>
        (\<exists>k. height_of L r = Some k \<and> k \<le> sint h))"

lemma walk_to_step:
  assumes "NewStateFromMilestone L ms = Inr st" and "sint h < sint (MilestoneHeight st)"
    and "q (msIndex ms - 1) = Some (Some ms')" and "walk_to L q h ms' r"
  shows "walk_to L q h ms r"
proof -
  obtain path where p: "path \<noteq> []" "hd path = ms'" "last path = r" "predecessors q path"
    "\<forall>x \<in> set (butlast path). \<exists>k. height_of L x = Some k \<and> sint h < k"
    "\<exists>k. height_of L r = Some k \<and> k \<le> sint h"
    using assms(4) unfolding walk_to_def by metis
  have "predecessors q (ms # path)"
    using p(1,2,4) assms(3) by (cases path) (auto simp: predecessors_def)
  moreover have "height_of L ms = Some (sint (MilestoneHeight st))" using assms(1) by (simp add: height_of_def)
  ultimately show ?thesis
    unfolding walk_to_def using p assms(2) by (intro exI [of _ "ms # path"]) auto
qed

lemma walkDown_Inr:
  assumes "walkDown L q h ms = Some (Ret (Inr r))"
  shows "walk_to L q h ms r"
proof -
  have "res = Ret (Inr r) \<longrightarrow> walk_to L q h ms r" if "walkDown L q h ms = Some res" for res ms
  proof (rule walkDown.raw_induct [where P = "\<lambda>L q h ms res. res = Ret (Inr r) \<longrightarrow> walk_to L q h ms r", OF _ that])
    fix f L' q' h' ms' res'
    assume IH: "\<And>L q h ms res. f L q h ms = Some res \<Longrightarrow> res = Ret (Inr r) \<longrightarrow> walk_to L q h ms r"
      and e: "(case NewStateFromMilestone L' ms' of
          Inl e \<Rightarrow> Some (Ret (Inl (ErrInvalidMetadata (msIndex ms') e)))
        | Inr st \<Rightarrow>
            if sint h' \<ge> sint (MilestoneHeight st) then Some (Ret (Inr ms'))
            else (case q' (MilestoneIndex st - 1) of
                    None \<Rightarrow> Some (Ret (Inl (ErrRetrieve (MilestoneIndex st - 1))))
                  | Some prev \<Rightarrow>
                      (case prev of None \<Rightarrow> Some (Panic ''nil pointer dereference'')
                       | Some ms'' \<Rightarrow> f L' q' h' ms''))) = Some res'"
    show "res' = Ret (Inr r) \<longrightarrow> walk_to L' q' h' ms' r"
    proof
      assume r: "res' = Ret (Inr r)"
      then obtain st where st: "NewStateFromMilestone L' ms' = Inr st" using e by (cases "NewStateFromMilestone L' ms'") auto
      show "walk_to L' q' h' ms' r"
      proof (cases "sint (MilestoneHeight st) \<le> sint h'")
        case True
        then have "r = ms'" using e r st by simp
        moreover have "height_of L' ms' = Some (sint (MilestoneHeight st))" using st by (simp add: height_of_def)
        ultimately show ?thesis
          unfolding walk_to_def using True by (intro exI [of _ "[ms']"]) (simp add: predecessors_def)
      next
        case False
        then obtain ms'' where q: "q' (MilestoneIndex st - 1) = Some (Some ms'')" "f L' q' h' ms'' = Some res'"
          using e r st by (auto split: option.splits)
        then have "walk_to L' q' h' ms'' r" using IH r by blast
        then show ?thesis
          using walk_to_step [OF st _ _ ] q(1) False NewStateFromMilestone_Inr(3) [OF st] by (metis not_le)
      qed
    qed
  qed
  with assms show ?thesis by blast
qed

text \<open>The node returns the milestone of the index it is asked for, and there is none of index 0.\<close>

definition answers_index :: "(32 word \<Rightarrow> milestone option option) \<Rightarrow> bool" where
  "answers_index q \<longleftrightarrow> (\<forall>i ms. q i = Some (Some ms) \<longrightarrow> msIndex ms = i \<and> i \<noteq> 0)"

lemma walkDown_returns:
  assumes q: "answers_index q"
  shows "\<exists>r. walkDown L q h ms = Some r"
proof -
  have step: "\<exists>r. walkDown L q h ms = Some r"
    if "\<And>ms'. q (msIndex ms - 1) = Some (Some ms') \<Longrightarrow> \<exists>r. walkDown L q h ms' = Some r" for ms
    using that NewStateFromMilestone_Inr(3)
    by (subst walkDown.simps) (fastforce split: sum.split option.split)
  have pos: "\<exists>r. walkDown L q h ms = Some r" if "msIndex ms \<noteq> 0" for ms
    using that
  proof (induction "unat (msIndex ms)" arbitrary: ms rule: less_induct)
    case less
    show ?case
    proof (rule step)
      fix ms' assume "q (msIndex ms - 1) = Some (Some ms')"
      then have i: "msIndex ms' = msIndex ms - 1" "msIndex ms' \<noteq> 0" using q unfolding answers_index_def by metis+
      then have "unat (msIndex ms') < unat (msIndex ms)"
        using less.prems unat_minus_one [of "msIndex ms"] unat_gt_0 [of "msIndex ms"] by simp
      then show "\<exists>r. walkDown L q h ms' = Some r" using less.hyps i(2) by blast
    qed
  qed
  show ?thesis
  proof (rule step)
    fix ms' assume "q (msIndex ms - 1) = Some (Some ms')"
    then have "msIndex ms' \<noteq> 0" using q unfolding answers_index_def by metis
    then show "\<exists>r. walkDown L q h ms' = Some r" by (rule pos)
  qed
qed

section \<open>Initialization\<close>

lemma resumeFrom_None:
  assumes "resumeFrom L ie h c = Some (Val None c')"
  shows "\<exists>ms r. confirmedAnswer ie = Some (Some ms) \<and> walk_to L (milestoneAnswer ie) h ms r \<and>
    InitState L r c = Val None c'"
proof -
  obtain ms where ms: "confirmedAnswer ie = Some (Some ms)"
    using assms by (auto simp: resumeFrom_def split: option.splits)
  then obtain w where w: "walkDown L (milestoneAnswer ie) h ms = Some w"
    and e: "exec_bind (lift_go w c) (\<lambda>r c.
        case r of Inl e \<Rightarrow> Val (Some e) c
        | Inr ms \<Rightarrow> exec_bind (InitState L ms c) (\<lambda>err c. Val (map_option ErrResume err) c)) = Val None c'"
    using assms by (auto simp: resumeFrom_def bind_eq_Some_conv)
  then obtain r where "w = Ret (Inr r)" "InitState L r c = Val None c'"
    by (cases w; cases "case w of Ret x \<Rightarrow> x | Panic p \<Rightarrow> Inl ErrPeers") (auto simp: go_simps)
  then show ?thesis using ms walkDown_Inr w by blast
qed

lemma initCoordinatorState_None:
  assumes "initCoordinatorState L env cfg ie c = Some (Val None c')"
  shows "if bootstrap cfg
    then Bootstrap L env (bootstrapForce cfg) (startIndex cfg) (startMilestoneID cfg)
           (startMilestoneBlockID cfg) c = Val None c'
    else 0 \<le> sint (lastSignHeight ie - 1) \<and> resumeFrom L ie (lastSignHeight ie - 1) c = Some (Val None c')"
  using assms
  by (auto simp: initCoordinatorState_def Let_def go_simps bind_eq_Some_conv
      split: if_splits option.splits)

text \<open>
  An example: the first attempt finds no peer, then the node is one milestone behind; the confirmed
  milestone 9 lies above the Tendermint blocks, milestone 8 does not.
\<close>

definition demo_milestone :: "32 word \<Rightarrow> 64 word \<Rightarrow> milestone" where
  "demo_milestone i h =
     (NewMilestone i 0 2 (b32 6) [b32 106] zero32 zero32)
       \<lparr>msMetadata := Metadata TL \<lparr>MilestoneHeight = h, MilestoneIndex = i, LastMilestoneID = b32 6,
          LastMilestoneBlockID = b32 106\<rparr>\<rparr>"

definition demo_init :: init_env where
  "demo_init =
     \<lparr>registersSolid = True, solidWaitAt = (\<lambda>n. if n = 0 then None else Some True), lastSignHeight = 26,
      peersAt = (\<lambda>n. Some [False, n = 1]), sleepPeersAt = (\<lambda>n. True),
      indicesAt = (\<lambda>n. if n = 0 then (9, 8) else (9, 9)), sleepSyncAt = (\<lambda>n. True),
      confirmedAnswer = Some (Some (demo_milestone 9 30)),
      milestoneAnswer = (\<lambda>i. if i = 8 then Some (Some (demo_milestone 8 20)) else None)\<rparr>"

definition demo_config :: config where
  "demo_config =
     \<lparr>bootstrap = False, startIndex = 1, startMilestoneID = zero32, startMilestoneBlockID = zero32,
      bootstrapForce = False, SingleNode = False\<rparr>"

lemma demo_solid: "waitUntilBlockSolid demo_init = Some None"
  unfolding waitUntilBlockSolid_def
  by (subst retrying.simps, subst retrying.simps) (simp add: solidAt_def demo_init_def)

lemma demo_milestone_state:
  "NewStateFromMilestone TL (demo_milestone i h) =
     Inr \<lparr>MilestoneHeight = h, MilestoneIndex = i, LastMilestoneID = b32 6, LastMilestoneBlockID = b32 106\<rparr>"
  using toy_tx_ok(3) [of "()"]
  by (intro NewStateFromMilestone_Metadata) (simp_all add: demo_milestone_def NewMilestone_def)

lemma demo_resume:
  "\<exists>c'. initCoordinatorState TL demo_node demo_config demo_init c = Some (Val None c')"
proof -
  have "waitUntilConnected demo_init = Some None"
    unfolding waitUntilConnected_def
    by (subst retrying.simps, subst retrying.simps) (simp add: connectedAt_def demo_init_def)
  moreover have "waitUntilSynced demo_init = Some None"
    unfolding waitUntilSynced_def
    by (subst retrying.simps, subst retrying.simps) (simp add: syncedAt_def demo_init_def)
  moreover have "walkDown TL (milestoneAnswer demo_init) 25 (demo_milestone 8 20) = Some (Ret (Inr (demo_milestone 8 20)))"
    by (subst walkDown.simps) (simp add: demo_milestone_state)
  then have "walkDown TL (milestoneAnswer demo_init) 25 (demo_milestone 9 30) = Some (Ret (Inr (demo_milestone 8 20)))"
    by (subst walkDown.simps) (simp add: demo_milestone_state demo_init_def)
  moreover obtain c' where "InitState TL (demo_milestone 8 20) c = Val None c'"
  proof -
    let ?st = "\<lparr>MilestoneHeight = 20, MilestoneIndex = 8, LastMilestoneID = b32 6, LastMilestoneBlockID = b32 106\<rparr>"
    obtain c' where "initState TL 20 ?st c = Val () c'"
      using initState_total [OF toy_tx_ok(1) [of "()"]] by blast
    then have "InitState TL (demo_milestone 8 20) c = Val None c'"
      by (simp add: InitState_def demo_milestone_state)
    then show thesis using that by blast
  qed
  ultimately show ?thesis
    by (simp add: initCoordinatorState_def Let_def demo_config_def resumeFrom_def demo_init_def)
qed

text \<open>
  C12. The plugin resumes correctly. When it starts without bootstrapping and the initialization
  succeeds, the coordinator has been initialized from a milestone that is reached from the confirmed
  one by going to the predecessor again and again: the newest whose first block is at or below the
  height the local Tendermint chain is known to have reached, as every milestone passed on the
  way lies above it. Tendermint is told that height by \<open>Info\<close>, so it is never ahead of its own chain.
\<close>
theorem resume_finds_newest_known_milestone:
  assumes "initCoordinatorState L env cfg ie c = Some (Val None c')" and "\<not> bootstrap cfg"
  shows "\<exists>ms r. confirmedAnswer ie = Some (Some ms) \<and>
    walk_to L (milestoneAnswer ie) (lastSignHeight ie - 1) ms r \<and> InitState L r c = Val None c' \<and>
    sint (LastBlockHeight (Info c')) \<le> sint (lastSignHeight ie - 1)"
proof -
  obtain ms r where r: "confirmedAnswer ie = Some (Some ms)"
    "walk_to L (milestoneAnswer ie) (lastSignHeight ie - 1) ms r" "InitState L r c = Val None c'"
    using initCoordinatorState_None [OF assms(1)] assms(2) resumeFrom_None by metis
  obtain k where k: "height_of L r = Some k" "k \<le> sint (lastSignHeight ie - 1)"
    using r(2) by (auto simp: walk_to_def)
  obtain st where st: "NewStateFromMilestone L r = Inr st" "initState L (MilestoneHeight st) st c = Val () c'"
    using InitState_None [OF r(3)] by blast
  have "Height (cms c') = MilestoneHeight st" using initState_Val(3) [OF st(2)] .
  then have "sint (LastBlockHeight (Info c')) = k"
    using k(1) st(1) by (simp add: Info_def Let_def LastCommitInfo_def height_of_def)
  then show ?thesis using r k(2) by blast
qed

theorem resume_finds_newest_known_milestone_witness:
  "\<forall>c. \<exists>c' r. initCoordinatorState TL demo_node demo_config demo_init c = Some (Val None c') \<and>
     InitState TL r c = Val None c' \<and> sint (LastBlockHeight (Info c')) \<le> 25"
proof
  fix c
  obtain c' where c': "initCoordinatorState TL demo_node demo_config demo_init c = Some (Val None c')"
    using demo_resume by blast
  have "\<not> bootstrap demo_config" by (simp add: demo_config_def)
  from resume_finds_newest_known_milestone [OF c' this] c'
  show "\<exists>c' r. initCoordinatorState TL demo_node demo_config demo_init c = Some (Val None c') \<and>
     InitState TL r c = Val None c' \<and> sint (LastBlockHeight (Info c')) \<le> 25"
    by (auto simp: demo_init_def)
qed

text \<open>
  Every way to start ends in a state from which the theorems about runs apply: a coordinator made
  by \<open>New\<close> that \<open>initCoordinatorState\<close> has initialized without an error is ready.
\<close>

lemma initialized_ready:
  assumes "New L com m = Inr c" and "initCoordinatorState L env cfg ie c = Some (Val None c')"
  shows "ready L c'"
proof (cases "bootstrap cfg")
  case True
  then show ?thesis using initCoordinatorState_None [OF assms(2)] ready.bootstrapped [OF assms(1)] by auto
next
  case False
  then show ?thesis
    using initCoordinatorState_None [OF assms(2)] resumeFrom_None ready.resumed [OF assms(1)] by metis
qed

lemma resumeFrom_returns:
  "answers_index (milestoneAnswer ie) \<Longrightarrow> \<exists>r. resumeFrom L ie h c = Some r"
  using walkDown_returns [of "milestoneAnswer ie" L h]
  by (fastforce simp: resumeFrom_def bind_eq_Some_conv split: option.split)

text \<open>Each wait returns once one of its attempts decides, or a sleep is cut short.\<close>

lemma waitUntilBlockSolid_returns:
  assumes "\<not> registersSolid ie \<or> (\<exists>n. solidWaitAt ie n \<noteq> None)"
  shows "\<exists>r. waitUntilBlockSolid ie = Some r"
proof (cases "registersSolid ie")
  case True
  then obtain n where "solidAt ie n \<noteq> None" using assms by (auto simp: solidAt_def)
  then show ?thesis
    using retrying_returns [of "solidAt ie" n "\<lambda>n. True" 0] True by (simp add: waitUntilBlockSolid_def)
qed (simp add: waitUntilBlockSolid_def)

lemma waitUntilConnected_returns:
  assumes "(\<exists>n ps. peersAt ie n = Some ps \<and> list_ex (\<lambda>connected. connected) ps) \<or>
      (\<exists>n. peersAt ie n = None \<or> \<not> sleepPeersAt ie n)"
  shows "\<exists>r. waitUntilConnected ie = Some r"
proof -
  have "connectedAt ie n \<noteq> None" if "peersAt ie n = Some ps \<and> list_ex (\<lambda>connected. connected) ps" for n ps
    using that by (simp add: connectedAt_def)
  moreover have "connectedAt ie n \<noteq> None" if "peersAt ie n = None" for n
    using that by (simp add: connectedAt_def)
  ultimately have "\<exists>n. connectedAt ie n \<noteq> None \<or> \<not> sleepPeersAt ie n" using assms by metis
  then show ?thesis using retrying_returns [OF _ le0] unfolding waitUntilConnected_def by metis
qed

lemma waitUntilSynced_returns:
  assumes "(\<exists>n i. indicesAt ie n = (i, i) \<and> 0 < i) \<or> (\<exists>n. \<not> sleepSyncAt ie n)"
  shows "\<exists>r. waitUntilSynced ie = Some r"
proof -
  have "syncedAt ie n \<noteq> None" if "indicesAt ie n = (i, i) \<and> 0 < i" for n i
    using that by (simp add: syncedAt_def)
  then have "\<exists>n. syncedAt ie n \<noteq> None \<or> \<not> sleepSyncAt ie n" using assms by metis
  then show ?thesis using retrying_returns [OF _ le0] unfolding waitUntilSynced_def by metis
qed

text \<open>
  C29. When the initialization returns, with a result or an error. To bootstrap, it is enough that the
  registration of the listener fails, or that the first block becomes solid or the wait for it ends
  with an error at some time. To resume, it is enough that a peer is connected at some attempt (or the
  query fails or the context is cancelled; with \<open>SingleNode\<close> no peer is needed), that the node is
  in sync at some attempt (or the context is cancelled), and that the node returns the milestones
  of the indices it is asked for, none of them for index 0: then the walk down the milestones ends.
\<close>
theorem initCoordinatorState_returns:
  assumes "bootstrap cfg \<Longrightarrow> \<not> registersSolid ie \<or> (\<exists>n. solidWaitAt ie n \<noteq> None)"
    and "\<not> bootstrap cfg \<Longrightarrow> \<not> SingleNode cfg \<Longrightarrow>
      (\<exists>n ps. peersAt ie n = Some ps \<and> list_ex (\<lambda>connected. connected) ps) \<or>
      (\<exists>n. peersAt ie n = None \<or> \<not> sleepPeersAt ie n)"
    and "\<not> bootstrap cfg \<Longrightarrow> (\<exists>n i. indicesAt ie n = (i, i) \<and> 0 < i) \<or> (\<exists>n. \<not> sleepSyncAt ie n)"
    and "\<not> bootstrap cfg \<Longrightarrow> answers_index (milestoneAnswer ie)"
  shows "\<exists>r. initCoordinatorState L env cfg ie c = Some r"
proof (cases "bootstrap cfg")
  case True
  then obtain err where "waitUntilBlockSolid ie = Some err"
    using waitUntilBlockSolid_returns assms(1) by blast
  then show ?thesis using True by (cases err) (simp_all add: initCoordinatorState_def)
next
  case False
  obtain e1 where "(if SingleNode cfg then Some None else waitUntilConnected ie) = Some e1"
    using waitUntilConnected_returns [OF assms(2) [OF False]] by (metis (full_types))
  moreover obtain e2 where "waitUntilSynced ie = Some e2"
    using waitUntilSynced_returns assms(3) False by blast
  ultimately show ?thesis
    using False resumeFrom_returns [OF assms(4) [OF False]]
    by (auto simp: initCoordinatorState_def Let_def bind_eq_Some_conv split: option.split)
qed

theorem initCoordinatorState_returns_witness:
  "\<forall>b c. \<exists>r. initCoordinatorState TL demo_node (demo_config\<lparr>bootstrap := b\<rparr>) demo_init c = Some r"
proof (intro allI, rule initCoordinatorState_returns)
  have "solidWaitAt demo_init 1 \<noteq> None" by (simp add: demo_init_def)
  then show "\<not> registersSolid demo_init \<or> (\<exists>n. solidWaitAt demo_init n \<noteq> None)" by blast
  show "answers_index (milestoneAnswer demo_init)"
    by (simp add: answers_index_def demo_init_def demo_milestone_def NewMilestone_def)
  have "peersAt demo_init 1 = Some [False, True]" by (simp add: demo_init_def)
  then show "(\<exists>n ps. peersAt demo_init n = Some ps \<and> list_ex (\<lambda>connected. connected) ps) \<or>
      (\<exists>n. peersAt demo_init n = None \<or> \<not> sleepPeersAt demo_init n)" by fastforce
  have "indicesAt demo_init 1 = (9, 9) \<and> (0 :: 32 word) < 9" by (simp add: demo_init_def)
  then show "(\<exists>n i. indicesAt demo_init n = (i, i) \<and> 0 < i) \<or> (\<exists>n. \<not> sleepSyncAt demo_init n)" by blast
qed

end
