(* ===== verification/LoopProperties.thy ===== *)
theory LoopProperties
  imports Loop Demo
begin

text \<open>
  Properties of the proposal loop in every reachable state: it never blocks in a read of its timer,
  its queue holds the newest proposal only, and proposals are made in the order of the milestones.
\<close>

lemma timer_ok_cong:
  "loopTimer s = loopTimer s' \<Longrightarrow> loopPos s = loopPos s' \<Longrightarrow> timer_ok s = timer_ok s'"
  by (simp add: timer_ok_def split: loop_pos.split)

lemma signal_ok_cong:
  "confirmedMilestoneSignal s = confirmedMilestoneSignal s' \<Longrightarrow> loopInfo s = loopInfo s' \<Longrightarrow>
     confirmedMilestone s = confirmedMilestone s' \<Longrightarrow> signal_ok s = signal_ok s'"
  by (simp add: signal_ok_def split: option.split)

lemma loop_inv_reset:
  assumes inv: "loop_inv s" and pos: "loopPos s = FirstSelect"
    and s': "loopTimer s' = loopTimer s" "loopPos s' = FirstSelect" "proposer s' = proposer s"
    and sig: "signal_ok s'" and le: "infoIndex (loopInfo s) \<le> infoIndex (loopInfo s')"
  shows "loop_inv (reset_or_block d s')"
proof -
  have t: "timer_ok s" using inv by (simp add: loop_inv_def)
  obtain t where r: "reset_or_block d s' = s'\<lparr>loopTimer := t\<rparr>"
    using reset_or_block_ok(2) [OF t pos s'(1,2)] by blast
  have "timer_ok (s'\<lparr>loopTimer := t\<rparr>)" using reset_or_block_ok(1) [OF t pos s'(1,2), of d] r by simp
  moreover have "signal_ok (s'\<lparr>loopTimer := t\<rparr>)" using sig signal_ok_cong [of "s'\<lparr>loopTimer := t\<rparr>" s'] by simp
  moreover have "proposals_ok (infoIndex (loopInfo s')) (proposer s)"
    using inv le proposals_ok_mono by (auto simp: loop_inv_def)
  ultimately show ?thesis using inv pos s'(3) by (auto simp: r loop_inv_def)
qed

lemma loop_inv_step:
  assumes "loop_step L interval s s'" and inv: "loop_inv s"
  shows "loop_inv s'"
  using assms(1)
proof cases
  case (fire d)
  then show ?thesis using inv
    by (cases "loopPos s") (auto simp: loop_inv_def timer_ok_def signal_ok_def timer_fire_def pending_def split: option.splits)
next
  case (timer lmi cmi)
  then show ?thesis using inv proposals_ok_Submit [OF _ order_refl, of "loopInfo s" "proposer s"]
    by (auto simp: loop_inv_def onTimer_def Let_def timer_ok_def signal_ok_def timer_Reset_def pending_def
        Single_Submit_def Queue_Submit_def push_back_def cancel_running_def split: option.splits)
next
  case trigger
  have "signal_ok (s\<lparr>triggerNextMilestone := False\<rparr>)"
    using inv signal_ok_cong [of "s\<lparr>triggerNextMilestone := False\<rparr>" s] by (simp add: loop_inv_def)
  then show ?thesis
    unfolding trigger(1) onTrigger_def using loop_inv_reset [OF inv trigger(2)] trigger(2) by simp
next
  case (confirmed info now)
  have "signal_ok s" using inv by (simp add: loop_inv_def)
  note r = signal_receive [OF this confirmed(3)]
  show ?thesis
    unfolding confirmed(1) onConfirmed_def
    using loop_inv_reset [OF inv confirmed(2) _ _ _ r(1)] confirmed(2) r(2) by simp
next
  case trigger_after
  then show ?thesis using inv
    by (auto simp: loop_inv_def onTriggerAfter_def timer_ok_def signal_ok_def timer_Reset_def pending_def split: option.splits)
next
  case (confirmed_after info now)
  have "signal_ok s" using inv by (simp add: loop_inv_def)
  note r = signal_receive [OF this confirmed_after(3)]
  have "proposals_ok (infoIndex info) (proposer s)" using inv r(2) proposals_ok_mono by (auto simp: loop_inv_def)
  then show ?thesis using inv r(1) confirmed_after
    by (auto simp: loop_inv_def onConfirmedAfter_def timer_ok_def signal_ok_def timer_Reset_def pending_def split: option.splits)
next
  case cancelled
  then show ?thesis using inv
    by (auto simp: loop_inv_def onDone_def go_simps timer_ok_def signal_ok_def timer_Stop_def
        intro: proposals_ok_stop split: option.splits)
next
  case solid
  then show ?thesis using inv 
    using timer_ok_cong [of "sendTrigger s" s] signal_ok_cong [of "sendTrigger s" s]
    by (simp add: loop_inv_def sendTrigger_def)
next
  case (milestone ms)
  have "signal_ok s" using inv by (simp add: loop_inv_def)
  note r = signal_milestone [OF this milestone]
  then have "timer_ok s'" using inv timer_ok_cong [of s' s] by (simp add: loop_inv_def)
  with r show ?thesis using inv by (simp add: loop_inv_def)
next
  case (queue e q)
  then show ?thesis using inv proposals_ok_own [OF _ queue(2,3)] closed_own [OF queue(2,3)]
      timer_ok_cong [of s' s] signal_ok_cong [of s' s]
    by (auto simp: loop_inv_def)
qed

lemma loop_reachable_inv: "loop_reachable L interval s \<Longrightarrow> loop_inv s"
  by (induction rule: loop_reachable.induct) (blast intro: loop_inv_init loop_inv_step)+

text \<open>An example: bootstrapping with milestone 7, the loop proposes a parent for it.\<close>

definition demo_boot :: loop_state where
  "demo_boot =
     (loop_start 5000000000)
       \<lparr>confirmedMilestone := \<lparr>infoIndex = 6, infoTimestamp = 0, infoBlockID = b32 106\<rparr>,
        confirmedMilestoneSignal := Some \<lparr>infoIndex = 6, infoTimestamp = 0, infoBlockID = b32 106\<rparr>\<rparr>"

lemma demo_boot_reachable: "loop_reachable L 5000000000 demo_boot"
  by (rule loop_reachable.init [where boot = "Some (7, b32 106)" and now = 0])
     (simp add: initializeEvents_def demo_boot_def loop_start_def Let_def)

definition demo_proposing :: loop_state where
  "demo_proposing =
     onTimer 6 6 ((onConfirmed 5000000000 1000 \<lparr>infoIndex = 6, infoTimestamp = 0, infoBlockID = b32 106\<rparr> demo_boot)
       \<lparr>loopTimer := \<lparr>armed = None, tick = True\<rparr>\<rparr>)"

lemma demo_proposing_reachable:
  "loop_reachable L 5000000000 demo_proposing"
  "waiting (proposer demo_proposing) = [((), \<lparr>infoIndex = 6, infoTimestamp = 0, infoBlockID = b32 106\<rparr>)]"
proof -
  let ?i = "\<lparr>infoIndex = 6, infoTimestamp = 0, infoBlockID = b32 106\<rparr>"
  let ?s1 = "onConfirmed 5000000000 1000 ?i demo_boot"
  have c: "loopPos demo_boot = FirstSelect" "confirmedMilestoneSignal demo_boot = Some ?i"
    by (simp_all add: demo_boot_def loop_start_def)
  have r1: "loop_reachable L 5000000000 ?s1"
    using loop_reachable.step [OF demo_boot_reachable loop_step.confirmed [OF c]] .
  have s1: "loopTimer ?s1 = \<lparr>armed = Some 4999999000, tick = False\<rparr>" "loopPos ?s1 = FirstSelect"
    by (simp_all add: onConfirmed_def reset_or_block_def resetRunningTimer_def remainingInterval_def
        timer_defs demo_boot_def loop_start_def)
  have "loop_reachable L 5000000000 (?s1\<lparr>loopTimer := timer_fire (loopTimer ?s1)\<rparr>)"
    by (rule loop_reachable.step [OF r1], rule loop_step.fire [where d = 4999999000])
       (simp_all add: s1 MaxInt64_def)
  then have r2: "loop_reachable L 5000000000 (?s1\<lparr>loopTimer := \<lparr>armed = None, tick = True\<rparr>\<rparr>)"
    by (simp add: s1 timer_fire_def)
  show "loop_reachable L 5000000000 demo_proposing"
    unfolding demo_proposing_def
    by (rule loop_reachable.step [OF r2], rule loop_step.timer) (simp_all add: s1)
  show "waiting (proposer demo_proposing) = [((), ?i)]"
    by (simp add: demo_proposing_def onTimer_def onConfirmed_def reset_or_block_def resetRunningTimer_def
        remainingInterval_def timer_defs demo_boot_def loop_start_def single_waiting(1) NewSingle_def queue_inv_New)
qed

text \<open>
  A trigger can overtake the first milestone: it resets the timer before the milestone that was
  put into the channel at the start is received, and the loop then proposes for the zero value of
  its variable.
\<close>

lemma trigger_overtakes_first_milestone:
  "\<exists>s. loop_reachable L 5000000000 s \<and> confirmedMilestoneSignal s \<noteq> None \<and>
     waiting (proposer s) = [((), zero_info)]"
proof -
  let ?s1 = "sendTrigger demo_boot"
  have r1: "loop_reachable L 5000000000 ?s1"
    using loop_reachable.step [OF demo_boot_reachable loop_step.solid] .
  let ?s2 = "onTrigger ?s1"
  have r2: "loop_reachable L 5000000000 ?s2"
    by (rule loop_reachable.step [OF r1], rule loop_step.trigger)
       (simp_all add: sendTrigger_def demo_boot_def loop_start_def)
  have s2: "loopTimer ?s2 = \<lparr>armed = Some 0, tick = False\<rparr>" "loopPos ?s2 = FirstSelect"
    by (simp_all add: onTrigger_def sendTrigger_def reset_or_block_def resetRunningTimer_def timer_defs
        demo_boot_def loop_start_def)
  have "loop_reachable L 5000000000 (?s2\<lparr>loopTimer := timer_fire (loopTimer ?s2)\<rparr>)"
    by (rule loop_reachable.step [OF r2], rule loop_step.fire [where d = 0]) (simp_all add: s2 MaxInt64_def)
  then have r3: "loop_reachable L 5000000000 (?s2\<lparr>loopTimer := \<lparr>armed = None, tick = True\<rparr>\<rparr>)"
    by (simp add: s2 timer_fire_def)
  let ?s4 = "onTimer 0 0 (?s2\<lparr>loopTimer := \<lparr>armed = None, tick = True\<rparr>\<rparr>)"
  have "loop_reachable L 5000000000 ?s4"
    by (rule loop_reachable.step [OF r3], rule loop_step.timer) (simp_all add: s2)
  moreover have "confirmedMilestoneSignal ?s4 \<noteq> None" "waiting (proposer ?s4) = [((), zero_info)]"
    by (simp_all add: onTimer_def onTrigger_def sendTrigger_def reset_or_block_def resetRunningTimer_def
        timer_defs demo_boot_def loop_start_def single_waiting(1) NewSingle_def queue_inv_New)
  ultimately show ?thesis by blast
qed

text \<open>
  C13. The loop cannot get stuck on its timer. In its first \<open>select\<close> the timer is running or has fired,
  so the loop wakes up again and a reset never waits for a value that does not come; in the second
  one it neither runs nor holds a value, so no proposal is made for an old deadline.
\<close>
theorem loop_never_blocks:
  assumes "loop_reachable L interval s"
  shows "loopPos s \<noteq> Blocked \<and>
    (loopPos s = FirstSelect \<longrightarrow> pending (loopTimer s) \<and> resetRunningTimer d (loopTimer s) \<noteq> None) \<and>
    (loopPos s = SecondSelect \<longrightarrow> \<not> pending (loopTimer s))"
proof -
  have t: "timer_ok s" using loop_reachable_inv [OF assms] by (simp add: loop_inv_def)
  then have "resetRunningTimer d (loopTimer s) \<noteq> None" if "loopPos s = FirstSelect"
    using that resetRunningTimer_ok [of "loopTimer s" d] by (auto simp: timer_ok_def)
  then show ?thesis using t by (auto simp: timer_ok_def)
qed

theorem loop_never_blocks_witness:
  "loopPos demo_proposing \<noteq> Blocked \<and> loopPos demo_boot \<noteq> Blocked \<and>
   resetRunningTimer 0 (loopTimer demo_boot) \<noteq> None"
  using loop_never_blocks [OF demo_proposing_reachable(1)] loop_never_blocks [OF demo_boot_reachable, where d = 0]
  by (simp add: demo_boot_def loop_start_def)

text \<open>
  C15. Proposals do not pile up and are in order: at any time at most one proposal waits and at most
  one is being made; the one being made is for a milestone at or before the one that waits, and
  that at or before the latest the loop has received, and the loop never runs ahead of the latest
  confirmed milestone. What waits in the channel is that latest milestone, newer than what the
  loop has, if it has received one.
\<close>
theorem proposals_in_order:
  assumes "loop_reachable L interval s"
  shows "length (waiting (proposer s)) \<le> 1 \<and> Queue_Len (proposer s) \<le> 2 \<and>
    (\<forall>v \<in> snd ` set (waiting (proposer s)). infoIndex v \<le> infoIndex (loopInfo s)) \<and>
    (\<forall>k v. phase (proposer s) = Executing k v \<longrightarrow> infoIndex v \<le> infoIndex (loopInfo s) \<and>
       (\<forall>w \<in> snd ` set (waiting (proposer s)). infoIndex v \<le> infoIndex w)) \<and>
    infoIndex (loopInfo s) \<le> infoIndex (confirmedMilestone s) \<and>
    (\<forall>info. confirmedMilestoneSignal s = Some info \<longrightarrow> info = confirmedMilestone s)"
proof -
  have inv: "signal_ok s" "proposals_ok (infoIndex (loopInfo s)) (proposer s)"
    using loop_reachable_inv [OF assms] by (auto simp: loop_inv_def)
  have q: "queue_inv (proposer s)" using inv(2) queue_reachable_inv by (auto simp: proposals_ok_def)
  have len: "length (waiting (proposer s)) \<le> 1" using single_waiting(2) [OF q] .
  moreover have "Queue_Len (proposer s) \<le> 2"
    using q len by (auto simp: queue_inv_def len_inv_def Queue_Len_def waiting_def)
  moreover have "infoIndex (loopInfo s) \<le> infoIndex (confirmedMilestone s)"
    using inv(1) by (auto simp: signal_ok_def zero_info_def split: option.splits)
  moreover have "\<forall>info. confirmedMilestoneSignal s = Some info \<longrightarrow> info = confirmedMilestone s"
    using inv(1) by (simp add: signal_ok_def split: option.splits)
  ultimately show ?thesis using inv(2) unfolding proposals_ok_def by blast
qed

theorem proposals_in_order_witness:
  "Queue_Len (proposer demo_proposing) \<le> 2 \<and> 6 \<le> infoIndex (loopInfo demo_proposing)"
  using proposals_in_order [OF demo_proposing_reachable(1)] demo_proposing_reachable(2) by simp

section \<open>From a milestone to a proposal\<close>

text \<open>Receiving the milestone in the channel, in either \<open>select\<close>.\<close>

definition receive :: "nat \<Rightarrow> int \<Rightarrow> milestone_info \<Rightarrow> loop_state \<Rightarrow> loop_state" where
  "receive interval now info s =
     (if loopPos s = FirstSelect then onConfirmed interval now info s else onConfirmedAfter interval now info s)"

lemma receive_effect:
  assumes inv: "loop_inv s" and "confirmedMilestoneSignal s = Some info"
    and "loopPos s = FirstSelect \<or> loopPos s = SecondSelect"
  shows "loop_step L interval s (receive interval now info s)"
    and "loopPos (receive interval now info s) = FirstSelect"
    and "loopInfo (receive interval now info s) = info"
    and "loopTimer (receive interval now info s) =
      \<lparr>armed = Some (remainingInterval interval now (infoTimestamp info)), tick = False\<rparr>"
proof -
  let ?r = "receive interval now info s" and ?d = "remainingInterval interval now (infoTimestamp info)"
  have t: "timer_ok s" using inv by (simp add: loop_inv_def)
  have "loop_step L interval s ?r \<and> loopPos ?r = FirstSelect \<and> loopInfo ?r = info \<and>
    loopTimer ?r = \<lparr>armed = Some ?d, tick = False\<rparr>"
  proof (cases "loopPos s = FirstSelect")
    case True
    then have "pending (loopTimer s)" "\<not> (armed (loopTimer s) \<noteq> None \<and> tick (loopTimer s))"
      using t by (auto simp: timer_ok_def)
    then obtain t' where t': "resetRunningTimer ?d (loopTimer s) = Some t'" "armed t' = Some ?d" "\<not> tick t'"
      using resetRunningTimer_ok by blast
    then have "t' = \<lparr>armed = Some ?d, tick = False\<rparr>" by (simp add: timer.equality)
    moreover have "loop_step L interval s (onConfirmed interval now info s)"
      using loop_step.confirmed True assms(2) by blast
    ultimately show ?thesis using True t'(1) by (simp add: receive_def onConfirmed_def reset_or_block_def)
  next
    case False
    then have p: "loopPos s = SecondSelect" using assms(3) by blast
    then have "\<not> tick (loopTimer s)" using t by (simp add: timer_ok_def pending_def)
    moreover have "loop_step L interval s (onConfirmedAfter interval now info s)"
      using loop_step.confirmed_after p assms(2) by blast
    ultimately show ?thesis
      using False by (simp add: receive_def onConfirmedAfter_def timer_Reset_def timer.equality)
  qed
  then show "loop_step L interval s ?r" "loopPos ?r = FirstSelect" "loopInfo ?r = info"
    "loopTimer ?r = \<lparr>armed = Some ?d, tick = False\<rparr>" by blast+
qed

text \<open>A loop whose timer runs in its first \<open>select\<close> proposes, also when the node is behind for a while.\<close>

lemma timer_leads_to_proposal:
  assumes "loop_inv s" and "loopPos s = FirstSelect" and "armed (loopTimer s) = Some d" and "d < MaxInt64"
  shows "\<exists>s'. (loop_step L interval)\<^sup>*\<^sup>* s s' \<and> loopPos s' = SecondSelect \<and> loopInfo s' = loopInfo s \<and>
    waiting (proposer s') = [((), loopInfo s)]"
proof -
  let ?s1 = "s\<lparr>loopTimer := timer_fire (loopTimer s)\<rparr>"
  have 1: "loop_step L interval s ?s1" using loop_step.fire [OF assms(3,4)] .
  have 2: "loop_step L interval ?s1 (onTimer 0 0 ?s1)"
    by (rule loop_step.timer) (simp_all add: assms(2) timer_fire_def)
  have q: "queue_inv (proposer s)"
    using assms(1) queue_reachable_inv by (auto simp: loop_inv_def proposals_ok_def)
  have "loopPos (onTimer 0 0 ?s1) = SecondSelect \<and> loopInfo (onTimer 0 0 ?s1) = loopInfo s \<and>
      waiting (proposer (onTimer 0 0 ?s1)) = [((), loopInfo s)]"
    by (simp add: onTimer_def single_waiting(1) [OF q])
  moreover have "(loop_step L interval)\<^sup>*\<^sup>* s (onTimer 0 0 ?s1)"
    using rtranclp.rtrancl_into_rtrancl [OF r_into_rtranclp [of "loop_step L interval", OF 1] 2] .
  ultimately show ?thesis by blast
qed

text \<open>
  C14. Every confirmed milestone can be followed by a proposal. Wherever the loop waits, it can receive
  the milestone in the channel at any time \<open>now\<close>; its timer is then set to what is left of the
  interval, and when the node is synced as the timer fires, a proposal for the milestone after that
  one is what waits in the queue, in place of any older one.
\<close>
theorem milestone_leads_to_proposal:
  assumes "loop_reachable L interval s" and "confirmedMilestoneSignal s = Some info"
    and "loopPos s = FirstSelect \<or> loopPos s = SecondSelect"
    and "int interval - (now - infoTimestamp info) < int MaxInt64"
  shows "loop_step L interval s (receive interval now info s) \<and>
    armed (loopTimer (receive interval now info s)) = Some (nat (int interval - (now - infoTimestamp info))) \<and>
    (\<exists>s'. (loop_step L interval)\<^sup>*\<^sup>* (receive interval now info s) s' \<and> loopPos s' = SecondSelect \<and>
       loopInfo s' = info \<and> waiting (proposer s') = [((), info)])"
proof -
  have inv: "loop_inv s" using loop_reachable_inv [OF assms(1)] .
  note r1 = receive_effect(1) [OF inv assms(2,3), of L interval now]
  note r = receive_effect(2,3,4) [OF inv assms(2,3), of interval now]
  let ?d = "remainingInterval interval now (infoTimestamp info)"
  have d: "?d = nat (int interval - (now - infoTimestamp info))" by (simp add: remainingInterval_def)
  have "?d < MaxInt64" using assms(4) by (simp add: d nat_less_iff MaxInt64_def)
  from timer_leads_to_proposal [OF loop_inv_step [OF r1 inv] r(1) _ this, of L interval]
  show ?thesis using r1 r d by simp
qed

theorem milestone_leads_to_proposal_witness:
  "\<exists>s. (loop_step TL 5000000000)\<^sup>*\<^sup>* (receive 5000000000 1000 \<lparr>infoIndex = 6, infoTimestamp = 0, infoBlockID = b32 106\<rparr> demo_boot) s \<and>
     waiting (proposer s) = [((), \<lparr>infoIndex = 6, infoTimestamp = 0, infoBlockID = b32 106\<rparr>)]"
proof -
  have "confirmedMilestoneSignal demo_boot = Some \<lparr>infoIndex = 6, infoTimestamp = 0, infoBlockID = b32 106\<rparr>"
    and "loopPos demo_boot = FirstSelect \<or> loopPos demo_boot = SecondSelect"
    by (simp_all add: demo_boot_def loop_start_def)
  from milestone_leads_to_proposal [OF demo_boot_reachable [of TL] this, of 1000] show ?thesis
    by (simp add: MaxInt64_def) blast
qed

end
