(* ===== verification/SelectorFacts.thy ===== *)
theory SelectorFacts
  imports Selector
begin

text \<open>
  The selector against the graph of blocks. The abstract state is the log of the tracked blocks
  with their parents, newest first; from it follow the past cone of every block and the blocks
  that have no later child. The bit sets are the past cones under a numbering of the blocks, the
  tips are the blocks without a child, and a selection is greedy on the cones.
\<close>

section \<open>The graph of the tracked blocks\<close>

type_synonym block_log = "(block_id \<times> block_id list) list"

definition ids :: "block_log \<Rightarrow> block_id set" where
  "ids l = fst ` set l"

definition track :: "inx_metadata \<Rightarrow> block_log \<Rightarrow> block_log" where
  "track meta l = (if metaBlockID meta \<in> ids l then l else (metaBlockID meta, metaParents meta) # l)"

fun cone :: "block_log \<Rightarrow> block_id \<Rightarrow> block_id set" where
  "cone [] x = {}"
| "cone ((b, ps) # l) x = (if x = b then insert b (\<Union>p \<in> set ps. cone l p) else cone l x)"

fun edges :: "block_log \<Rightarrow> (block_id \<times> block_id) set" where
  "edges [] = {}"
| "edges ((b, ps) # l) = {(b, p) | p. p \<in> set ps \<and> p \<in> ids l} \<union> edges l"

fun idx :: "block_log \<Rightarrow> block_id \<Rightarrow> nat" where
  "idx [] x = 0"
| "idx ((b, ps) # l) x = (if x = b then length l else idx l x)"

text \<open>The blocks without a child, oldest first.\<close>

fun leaves :: "block_log \<Rightarrow> block_id list" where
  "leaves [] = []"
| "leaves ((b, ps) # l) = filter (\<lambda>x. x \<notin> set ps) (leaves l) @ [b]"

lemma ids_simps [simp]: "ids [] = {}" "ids ((b, ps) # l) = insert b (ids l)"
  by (simp_all add: ids_def)

lemma cone_outside: "x \<notin> ids l \<Longrightarrow> cone l x = {}"
  by (induction l) auto

lemma cone_subset: "cone l x \<subseteq> ids l"
  by (induction l x rule: cone.induct) auto

lemma cone_self: "x \<in> ids l \<Longrightarrow> x \<in> cone l x"
  by (induction l) auto

lemma edges_subset: "(x, y) \<in> edges l \<Longrightarrow> x \<in> ids l \<and> y \<in> ids l"
  by (induction l) auto

lemma finite_ids [simp]: "finite (ids l)"
  by (simp add: ids_def)

lemma idx_less: "x \<in> ids l \<Longrightarrow> idx l x < length l"
  by (induction l) (auto simp: less_Suc_eq)

lemma idx_inj: "inj_on (idx l) (ids l)"
proof (induction l)
  case (Cons e l)
  obtain b ps where e: "e = (b, ps)" by (cases e)
  show ?case
  proof (rule inj_onI)
    fix x y assume xy: "x \<in> ids (e # l)" "y \<in> ids (e # l)" and eq: "idx (e # l) x = idx (e # l) y"
    have m: "z = b \<or> z \<in> ids l" if "z \<in> ids (e # l)" for z using that by (auto simp: e)
    show "x = y"
    proof (cases "x = b \<or> y = b")
      case True
      then show ?thesis using eq m [OF xy(1)] m [OF xy(2)] idx_less by (fastforce simp: e split: if_splits)
    next
      case False
      then show ?thesis using eq m [OF xy(1)] m [OF xy(2)] Cons by (simp add: e inj_onD)
    qed
  qed
qed simp

text \<open>A new block adds no path between the blocks known before, and its own cone is that of its
  known parents.\<close>
lemma reachable_old:
  assumes new: "b \<notin> ids l" and y: "y \<in> ids l"
  shows "(edges ((b, ps) # l))\<^sup>* `` {y} = (edges l)\<^sup>* `` {y}"
proof (intro equalityI subsetI)
  fix z assume "z \<in> (edges ((b, ps) # l))\<^sup>* `` {y}"
  then have "(y, z) \<in> (edges ((b, ps) # l))\<^sup>*" by simp
  then have "(y, z) \<in> (edges l)\<^sup>* \<and> z \<in> ids l"
  proof (induction rule: rtrancl_induct)
    case (step u v)
    then have "(u, v) \<in> edges l" using new by auto
    then show ?case using step.IH edges_subset by (meson rtrancl.rtrancl_into_rtrancl)
  qed (use y in simp)
  then show "z \<in> (edges l)\<^sup>* `` {y}" by simp
next
  fix z assume "z \<in> (edges l)\<^sup>* `` {y}"
  then have "(y, z) \<in> (edges l)\<^sup>*" by simp
  moreover have "edges l \<subseteq> edges ((b, ps) # l)" by auto
  ultimately show "z \<in> (edges ((b, ps) # l))\<^sup>* `` {y}" using rtrancl_mono by blast
qed

lemma reachable_new:
  fixes ps :: "byte32 list"
  assumes new: "b \<notin> ids l"
  defines "E \<equiv> edges ((b, ps) # l)"
  shows "E\<^sup>* `` {b} = insert b (\<Union>p \<in> set ps \<inter> ids l. E\<^sup>* `` {p})"
proof (intro equalityI subsetI)
  fix z assume "z \<in> E\<^sup>* `` {b}"
  then have "(b, z) \<in> E\<^sup>*" by simp
  then show "z \<in> insert b (\<Union>p \<in> set ps \<inter> ids l. E\<^sup>* `` {p})"
  proof (cases rule: converse_rtranclE)
    case (step p)
    then have "p \<in> set ps \<inter> ids l" using new edges_subset by (auto simp: E_def)
    then show ?thesis using step(2) by blast
  qed simp
next
  fix z assume "z \<in> insert b (\<Union>p \<in> set ps \<inter> ids l. E\<^sup>* `` {p})"
  then show "z \<in> E\<^sup>* `` {b}"
  proof
    assume "z \<in> (\<Union>p \<in> set ps \<inter> ids l. E\<^sup>* `` {p})"
    then obtain p where "p \<in> set ps" "p \<in> ids l" "(p, z) \<in> E\<^sup>*" by blast
    moreover then have "(b, p) \<in> E" by (auto simp: E_def)
    ultimately show ?thesis by (meson Image_singleton_iff converse_rtrancl_into_rtrancl)
  qed simp
qed

text \<open>The past cone is what is reachable along the edges.\<close>

lemma cone_reachable:
  assumes "distinct (map fst l)" and "x \<in> ids l"
  shows "cone l x = (edges l)\<^sup>* `` {x}"
  using assms
proof (induction l arbitrary: x)
  case (Cons e l)
  obtain b ps where e: "e = (b, ps)" by (cases e)
  have new: "b \<notin> ids l" and d: "distinct (map fst l)" using Cons.prems(1) by (auto simp: e ids_def)
  have old: "(edges (e # l))\<^sup>* `` {y} = cone l y" if "y \<in> ids l" for y
    unfolding e using reachable_old [OF new that] Cons.IH [OF d that] by simp
  show ?case
  proof (cases "x = b")
    case False
    then show ?thesis using Cons.prems(2) old by (simp add: e)
  next
    case True
    have "(edges (e # l))\<^sup>* `` {b} = insert b (\<Union>p \<in> set ps \<inter> ids l. cone l p)"
      using reachable_new [OF new, of ps] old by (simp add: e)
    also have "(\<Union>p \<in> set ps \<inter> ids l. cone l p) = (\<Union>p \<in> set ps. cone l p)"
      using cone_outside by fastforce
    finally show ?thesis by (simp add: e True)
  qed
qed simp

section \<open>Representation\<close>

definition pointers :: "'b heaviest \<Rightarrow> nat set" where
  "pointers s = {p. \<exists>b. fmlookup (trackedBlocks s) b = Some p}"

text \<open>Tracked objects are where the map says, and exactly the tips have an element of the list.\<close>

definition objects_ok :: "'b heaviest \<Rightarrow> bool" where
  "objects_ok s \<longleftrightarrow>
     (\<forall>b p. fmlookup (trackedBlocks s) b = Some p \<longrightarrow> p < length (heap s) \<and> tbBlockID (heap s ! p) = b)"

definition links_ok :: "'b heaviest \<Rightarrow> bool" where
  "links_ok s \<longleftrightarrow>
     distinct (map fst (tips s)) \<and> (\<forall>(e, p) \<in> set (tips s). p \<in> pointers s \<and> e < nextElement s) \<and>
     (\<forall>p \<in> pointers s. \<forall>e. tbTip (heap s ! p) = Some e \<longleftrightarrow> (e, p) \<in> set (tips s))"

definition tip_ids :: "'b heaviest \<Rightarrow> block_id list" where
  "tip_ids s = map (\<lambda>(e, p). tbBlockID (heap s ! p)) (tips s)"

definition tracks :: "block_log \<Rightarrow> 'b heaviest \<Rightarrow> bool" where
  "tracks l s \<longleftrightarrow>
     distinct (map fst l) \<and> fmdom' (trackedBlocks s) = ids l \<and> objects_ok s \<and> links_ok s \<and>
     tip_ids s = leaves l"

definition refs_of :: "('b \<Rightarrow> nat set) \<Rightarrow> 'b heaviest \<Rightarrow> block_id \<Rightarrow> nat set" where
  "refs_of bits s b = bits (tbRefs (heap s ! the (fmlookup (trackedBlocks s) b)))"

text \<open>The bit sets are the numbered past cones.\<close>

definition refs_ok :: "('b \<Rightarrow> nat set) \<Rightarrow> block_log \<Rightarrow> 'b heaviest \<Rightarrow> bool" where
  "refs_ok bits l s \<longleftrightarrow> (\<forall>b \<in> ids l. refs_of bits s b = idx l ` cone l b)"

lemma bitset_okD:
  assumes "bitset_ok B bits"
  shows "bits (bs_New B n) = {}" and "bits (bs_Set B i b) = insert i (bits b)"
    and "bits (bs_InPlaceUnion B b c) = bits b \<union> bits c"
    and "bits (bs_InPlaceDifference B b c) = bits b - bits c"
    and "finite (bits b)" and "bs_Count B b = card (bits b)"
  using assms by (auto simp: bitset_ok_def)

lemma tracks_length: "tracks l s \<Longrightarrow> map_len (trackedBlocks s) = int (length l)"
  by (simp add: tracks_def map_len_def ids_def) (metis distinct_card length_map list.set_map)

lemma tracks_Reset: "tracks [] (Heaviest_Reset s)" "refs_ok bits [] (Heaviest_Reset s)"
  by (auto simp: tracks_def Heaviest_Reset_def objects_ok_def links_ok_def pointers_def tip_ids_def
      refs_ok_def)

section \<open>Removing tips\<close>

text \<open>The part of an object that \<open>removeTip\<close> leaves alone.\<close>

definition same_blocks :: "'b heaviest \<Rightarrow> 'b heaviest \<Rightarrow> bool" where
  "same_blocks s s' \<longleftrightarrow>
     trackedBlocks s' = trackedBlocks s \<and> nextElement s' = nextElement s \<and>
     length (heap s') = length (heap s) \<and>
     (\<forall>q. tbBlockID (heap s' ! q) = tbBlockID (heap s ! q) \<and> tbRefs (heap s' ! q) = tbRefs (heap s ! q))"

lemma tip_element:
  assumes k: "links_ok s" and p: "p \<in> pointers s" and t: "tbTip (heap s ! p) = Some e"
  shows "filter (\<lambda>x. fst x \<noteq> e) (tips s) = filter (\<lambda>x. snd x \<noteq> p) (tips s)"
proof -
  have link: "tbTip (heap s ! p) = Some e' \<longleftrightarrow> (e', p) \<in> set (tips s)" for e'
    using k p by (auto simp: links_ok_def)
  have "fst x = e \<longleftrightarrow> snd x = p" if "x \<in> set (tips s)" for x
  proof
    assume "fst x = e"
    then show "snd x = p"
      using k that link [of e] t by (metis distinct_map inj_onD links_ok_def fst_conv snd_conv)
  next
    assume "snd x = p"
    then have "(fst x, p) \<in> set (tips s)" using that by (metis prod.collapse)
    then show "fst x = e" using link t by (metis option.inject)
  qed
  then show ?thesis by (intro filter_cong) blast+
qed

lemma removeTip_effect:
  assumes "objects_ok s" and "links_ok s" and "p \<in> pointers s"
  shows "same_blocks s (removeTip p s)" and "links_ok (removeTip p s)"
    and "tips (removeTip p s) = filter (\<lambda>x. snd x \<noteq> p) (tips s)"
proof -
  have p: "p < length (heap s)" using assms(1,3) by (auto simp: objects_ok_def pointers_def)
  have link: "tbTip (heap s ! q) = Some e \<longleftrightarrow> (e, q) \<in> set (tips s)" if "q \<in> pointers s" for e q
    using assms(2) that by (auto simp: links_ok_def)
  have same: "same_blocks s (removeTip p s) \<and> links_ok (removeTip p s) \<and>
      tips (removeTip p s) = filter (\<lambda>x. snd x \<noteq> p) (tips s)"
  proof (cases "tbTip (heap s ! p)")
    case None
    then have "(e, p) \<notin> set (tips s)" for e using link [OF assms(3)] by (metis option.distinct(1))
    then have "filter (\<lambda>x. snd x \<noteq> p) (tips s) = tips s" by (auto simp: filter_id_conv)
    with None assms(2) show ?thesis by (simp add: removeTip_def same_blocks_def)
  next
    case (Some e)
    let ?s = "removeTip p s"
    have s': "tips ?s = filter (\<lambda>x. snd x \<noteq> p) (tips s)"
      "heap ?s = (heap s)[p := (heap s ! p)\<lparr>tbTip := None\<rparr>]" "trackedBlocks ?s = trackedBlocks s"
      "nextElement ?s = nextElement s"
      using Some tip_element [OF assms(2,3) Some] by (simp_all add: removeTip_def)
    have ptr: "pointers ?s = pointers s" by (simp add: pointers_def s')
    have "same_blocks s ?s" by (simp add: same_blocks_def s' nth_list_update p)
    moreover have "links_ok ?s"
      unfolding links_ok_def ptr
    proof (intro conjI ballI allI)
      show "distinct (map fst (tips ?s))"
        using assms(2) by (simp add: s' links_ok_def distinct_map_filter)
      fix x assume "x \<in> set (tips ?s)"
      then show "case x of (e, p) \<Rightarrow> p \<in> pointers s \<and> e < nextElement ?s"
        using assms(2) by (auto simp: s' links_ok_def)
    next
      fix q e' assume q: "q \<in> pointers s"
      show "tbTip (heap ?s ! q) = Some e' \<longleftrightarrow> (e', q) \<in> set (tips ?s)"
        using link [OF q, of e'] p by (auto simp: s' nth_list_update)
    qed
    ultimately show ?thesis using s' by blast
  qed
  then show "same_blocks s (removeTip p s)" "links_ok (removeTip p s)"
    "tips (removeTip p s) = filter (\<lambda>x. snd x \<noteq> p) (tips s)" by blast+
qed

lemma same_blocks_trans: "same_blocks s t \<Longrightarrow> same_blocks t u \<Longrightarrow> same_blocks s u"
  by (simp add: same_blocks_def)

lemma same_blocks_objects: "same_blocks s t \<Longrightarrow> objects_ok s \<Longrightarrow> objects_ok t"
  by (simp add: same_blocks_def objects_ok_def)

lemma same_blocks_pointers: "same_blocks s t \<Longrightarrow> pointers t = pointers s"
  by (simp add: same_blocks_def pointers_def)

lemma removeTips_effect:
  assumes "objects_ok s" and "links_ok s" and "set ps \<subseteq> pointers s"
  shows "same_blocks s (fold removeTip ps s) \<and> links_ok (fold removeTip ps s) \<and>
    tips (fold removeTip ps s) = filter (\<lambda>x. snd x \<notin> set ps) (tips s)"
  using assms
proof (induction ps arbitrary: s)
  case Nil
  then show ?case by (simp add: same_blocks_def)
next
  case (Cons p ps)
  have p: "p \<in> pointers s" using Cons.prems(3) by simp
  note r = removeTip_effect [OF Cons.prems(1,2) p]
  have "set ps \<subseteq> pointers (removeTip p s)"
    using Cons.prems(3) same_blocks_pointers [OF r(1)] by simp
  from Cons.IH [OF same_blocks_objects [OF r(1) Cons.prems(1)] r(2) this]
  show ?case using same_blocks_trans [OF r(1)] r(3) by (auto intro: filter_cong)
qed

section \<open>A new solid block\<close>

lemma set_trackedParents:
  "set (trackedParents s qs) = {p. \<exists>b \<in> set qs. fmlookup (trackedBlocks s) b = Some p}"
  unfolding trackedParents_def by (auto simp: List.map_filter_def image_iff) (metis option.sel)

lemma bits_fold_union:
  assumes "bitset_ok B bits"
  shows "bits (fold (\<lambda>p r. bs_InPlaceUnion B r (f p)) ps r) = bits r \<union> (\<Union>p \<in> set ps. bits (f p))"
  by (induction ps arbitrary: r) (auto simp: bitset_okD [OF assms])

text \<open>The state after the object has been added to the map and the heap.\<close>

definition added :: "'b bitset_lib \<Rightarrow> inx_metadata \<Rightarrow> 'b heaviest \<Rightarrow> 'b heaviest" where
  "added B meta s = s\<lparr>trackedBlocks := fmupd (metaBlockID meta) (length (heap s)) (trackedBlocks s),
     heap := heap s @ [\<lparr>tbBlockID = metaBlockID meta, tbTip = None,
       tbRefs = fold (\<lambda>p r. bs_InPlaceUnion B r (tbRefs (heap s ! p))) (trackedParents s (metaParents meta))
         (bs_Set B (nat (map_len (trackedBlocks s))) (bs_New B (nat (map_len (trackedBlocks s)) + 1)))\<rparr>]\<rparr>"

definition linked :: "nat \<Rightarrow> 'b heaviest \<Rightarrow> 'b heaviest" where
  "linked it s = s\<lparr>tips := tips s @ [(nextElement s, it)],
     heap := (heap s)[it := (heap s ! it)\<lparr>tbTip := Some (nextElement s)\<rparr>],
     nextElement := Suc (nextElement s)\<rparr>"

lemma OnNewSolidBlock_new:
  assumes "fmlookup (trackedBlocks s) (metaBlockID meta) = None"
  shows "OnNewSolidBlock B meta s =
    (let s3 = linked (length (heap s)) (fold removeTip (trackedParents s (metaParents meta)) (added B meta s))
     in (map_len (trackedBlocks s3), s3))"
  using assms by (simp add: OnNewSolidBlock_def added_def linked_def Let_def)

lemma added_ok:
  assumes "objects_ok s" and "links_ok s" and new: "fmlookup (trackedBlocks s) (metaBlockID meta) = None"
  shows "objects_ok (added B meta s)" and "links_ok (added B meta s)"
    and "pointers (added B meta s) = insert (length (heap s)) (pointers s)"
    and "\<And>q. q \<in> pointers s \<Longrightarrow> heap (added B meta s) ! q = heap s ! q"
proof -
  have ptr: "p < length (heap s)" if "p \<in> pointers s" for p
    using assms(1) that by (auto simp: objects_ok_def pointers_def)
  show pointers: "pointers (added B meta s) = insert (length (heap s)) (pointers s)"
    using new by (auto simp: pointers_def added_def split: if_splits) (metis option.distinct(1))
  show old: "heap (added B meta s) ! q = heap s ! q" if "q \<in> pointers s" for q
    using ptr [OF that] by (simp add: added_def nth_append)
  show "objects_ok (added B meta s)"
    using assms(1) by (auto simp: objects_ok_def added_def nth_append less_Suc_eq)
  have nt: "(e, length (heap s)) \<notin> set (tips s)" for e
    using assms(2) ptr by (fastforce simp: links_ok_def)
  have l: "tips (added B meta s) = tips s" "nextElement (added B meta s) = nextElement s"
    "tbTip (heap (added B meta s) ! length (heap s)) = None"
    by (simp_all add: added_def)
  show "links_ok (added B meta s)"
    unfolding links_ok_def pointers
  proof (intro conjI ballI allI)
    show "distinct (map fst (tips (added B meta s)))" using assms(2) by (simp add: l links_ok_def)
    fix x assume "x \<in> set (tips (added B meta s))"
    then show "case x of (e, p) \<Rightarrow> p \<in> insert (length (heap s)) (pointers s) \<and> e < nextElement (added B meta s)"
      using assms(2) by (auto simp: l links_ok_def)
  next
    fix q e assume "q \<in> insert (length (heap s)) (pointers s)"
    then show "tbTip (heap (added B meta s) ! q) = Some e \<longleftrightarrow> (e, q) \<in> set (tips (added B meta s))"
      using assms(2) nt old by (auto simp: l links_ok_def)
  qed
qed

lemma linked_ok:
  assumes "objects_ok s" and "links_ok s" and it: "it \<in> pointers s" "tbTip (heap s ! it) = None"
  shows "objects_ok (linked it s)" and "links_ok (linked it s)"
    and "\<And>q. tbRefs (heap (linked it s) ! q) = tbRefs (heap s ! q) \<and> tbBlockID (heap (linked it s) ! q) = tbBlockID (heap s ! q)"
proof -
  have len: "it < length (heap s)" using assms(1) it(1) by (auto simp: objects_ok_def pointers_def)
  show same: "tbRefs (heap (linked it s) ! q) = tbRefs (heap s ! q) \<and> tbBlockID (heap (linked it s) ! q) = tbBlockID (heap s ! q)" for q
    by (simp add: linked_def nth_list_update len)
  have ptr: "pointers (linked it s) = pointers s" by (simp add: pointers_def linked_def)
  show "objects_ok (linked it s)"
    using assms(1) same by (simp add: objects_ok_def linked_def)
  have fresh: "nextElement s \<notin> fst ` set (tips s)"
    using assms(2) by (fastforce simp: links_ok_def)
  have nt: "(e, it) \<notin> set (tips s)" for e
    using assms(2) it by (metis links_ok_def option.distinct(1))
  show "links_ok (linked it s)"
    unfolding links_ok_def ptr
  proof (intro conjI ballI allI)
    show "distinct (map fst (tips (linked it s)))"
      using assms(2) fresh by (simp add: linked_def links_ok_def)
    fix x assume "x \<in> set (tips (linked it s))"
    then show "case x of (e, p) \<Rightarrow> p \<in> pointers s \<and> e < nextElement (linked it s)"
      using assms(2) it(1) by (auto simp: linked_def links_ok_def)
  next
    fix q e assume q: "q \<in> pointers s"
    show "tbTip (heap (linked it s) ! q) = Some e \<longleftrightarrow> (e, q) \<in> set (tips (linked it s))"
      using assms(2) q nt fresh len
      by (auto simp: linked_def links_ok_def nth_list_update image_iff)
  qed
qed

lemma same_blocks_refs: "same_blocks s t \<Longrightarrow> refs_of bits t b = refs_of bits s b"
  by (simp add: same_blocks_def refs_of_def)

lemma tip_ids_filter:
  assumes "\<And>e p. (e, p) \<in> set ts \<Longrightarrow> p \<in> P \<longleftrightarrow> f p \<in> Q"
  shows "map (\<lambda>(e, p). f p) (filter (\<lambda>x. snd x \<notin> P) ts) = filter (\<lambda>b. b \<notin> Q) (map (\<lambda>(e, p). f p) ts)"
proof -
  have "filter (\<lambda>x. snd x \<notin> P) ts = filter (\<lambda>x. (case x of (e, p) \<Rightarrow> f p) \<notin> Q) ts"
    using assms by (intro filter_cong) auto
  then show ?thesis by (simp add: filter_map comp_def)
qed

text \<open>Removing the tracked parents from the tip list removes exactly the named parents.\<close>
lemma tips_without_parents:
  assumes o: "objects_ok s" and k: "links_ok s"
  shows "map (\<lambda>(e, p). tbBlockID (heap s ! p))
      (filter (\<lambda>x. snd x \<notin> set (trackedParents s ps)) (tips s)) =
    filter (\<lambda>b. b \<notin> set ps) (tip_ids s)"
  unfolding tip_ids_def
proof (rule tip_ids_filter)
  fix e p assume "(e, p) \<in> set (tips s)"
  then obtain c where c: "fmlookup (trackedBlocks s) c = Some p"
    using k by (auto simp: links_ok_def pointers_def)
  have id: "tbBlockID (heap s ! p) = d" if "fmlookup (trackedBlocks s) d = Some p" for d
    using o that by (simp add: objects_ok_def)
  show "p \<in> set (trackedParents s ps) \<longleftrightarrow> tbBlockID (heap s ! p) \<in> set ps"
    unfolding set_trackedParents mem_Collect_eq using c id by metis
qed

text \<open>The union of the parents' bit sets is the union of the past cones of the parents.\<close>
lemma parents_refs:
  assumes dom: "fmdom' (trackedBlocks s) = ids l" and ok: "refs_ok bits l s"
  shows "(\<Union>p \<in> set (trackedParents s ps). bits (tbRefs (heap s ! p))) =
    (\<Union>q \<in> set ps. idx l ` cone l q)"
proof -
  have 1: "bits (tbRefs (heap s ! p)) = idx l ` cone l q"
    if "fmlookup (trackedBlocks s) q = Some p" for p q
  proof -
    have "q \<in> ids l" using that dom by (metis fmdom'I)
    then have "refs_of bits s q = idx l ` cone l q" using ok by (simp add: refs_ok_def)
    then show ?thesis by (simp add: refs_of_def that)
  qed
  have 2: "cone l q = {}" if "fmlookup (trackedBlocks s) q = None" for q
    using that dom cone_outside by (metis fmdom'_notI)
  show ?thesis
  proof (intro equalityI subsetI)
    fix i assume "i \<in> (\<Union>p \<in> set (trackedParents s ps). bits (tbRefs (heap s ! p)))"
    then show "i \<in> (\<Union>q \<in> set ps. idx l ` cone l q)"
      using 1 by (auto simp: set_trackedParents)
  next
    fix i assume "i \<in> (\<Union>q \<in> set ps. idx l ` cone l q)"
    then obtain q where q: "q \<in> set ps" "i \<in> idx l ` cone l q" by blast
    then obtain p where "fmlookup (trackedBlocks s) q = Some p" using 2 by fastforce
    then show "i \<in> (\<Union>p \<in> set (trackedParents s ps). bits (tbRefs (heap s ! p)))"
      using q 1 by (auto simp: set_trackedParents)
  qed
qed

text \<open>The bit sets stay the past cones when one object is added to the map, the old objects keep
  theirs, and the new one gets its own bit and the union of its parents'.\<close>
lemma refs_ok_insert:
  assumes dom: "fmdom' (trackedBlocks s) = ids l" and ok: "refs_ok bits l s" and b: "b \<notin> ids l"
    and tb: "trackedBlocks s' = fmupd b it (trackedBlocks s)"
    and old: "\<And>q. q \<in> pointers s \<Longrightarrow> tbRefs (heap s' ! q) = tbRefs (heap s ! q)"
    and new: "bits (tbRefs (heap s' ! it)) =
      insert (length l) (\<Union>p \<in> set (trackedParents s ps). bits (tbRefs (heap s ! p)))"
  shows "refs_ok bits ((b, ps) # l) s'"
  unfolding refs_ok_def
proof
  fix x assume x: "x \<in> ids ((b, ps) # l)"
  have sub: "idx ((b, ps) # l) ` cone l y = idx l ` cone l y" for y
    using cone_subset [of l y] b by (intro image_cong) auto
  show "refs_of bits s' x = idx ((b, ps) # l) ` cone ((b, ps) # l) x"
  proof (cases "x = b")
    case False
    then obtain p where p: "fmlookup (trackedBlocks s) x = Some p" "p \<in> pointers s"
      using x dom by (auto simp: pointers_def) (metis fmlookup_dom'_iff)
    then have "refs_of bits s' x = refs_of bits s x"
      using old [OF p(2)] tb False by (simp add: refs_of_def)
    also have "\<dots> = idx l ` cone l x" using ok x False by (simp add: refs_ok_def)
    finally show ?thesis using False sub by simp
  next
    case True
    then have "refs_of bits s' x = insert (length l) (\<Union>q \<in> set ps. idx l ` cone l q)"
      using new parents_refs [OF dom ok] by (simp add: refs_of_def tb)
    also have "\<dots> = idx ((b, ps) # l) ` insert b (\<Union>q \<in> set ps. cone l q)"
      unfolding image_insert image_UN sub by simp
    finally show ?thesis by (simp add: True)
  qed
qed

text \<open>Adding a block keeps the representation, and the numbering of the cones where it holds.\<close>
lemma OnNewSolidBlock_effect:
  fixes B :: "'b bitset_lib" and s :: "'b heaviest" and meta :: inx_metadata
  defines "b \<equiv> metaBlockID meta" and "it \<equiv> length (heap s)" and "tp \<equiv> trackedParents s (metaParents meta)"
    and "s3 \<equiv> snd (OnNewSolidBlock B meta s)"
  assumes None: "fmlookup (trackedBlocks s) b = None" and o: "objects_ok s" and k: "links_ok s"
  shows "objects_ok s3" and "links_ok s3" and "trackedBlocks s3 = fmupd b it (trackedBlocks s)"
    and "fst (OnNewSolidBlock B meta s) = map_len (trackedBlocks s3)"
    and "q \<in> pointers s \<Longrightarrow>
      tbBlockID (heap s3 ! q) = tbBlockID (heap s ! q) \<and> tbRefs (heap s3 ! q) = tbRefs (heap s ! q)"
    and "tbBlockID (heap s3 ! it) = b"
    and "tbRefs (heap s3 ! it) = fold (\<lambda>p r. bs_InPlaceUnion B r (tbRefs (heap s ! p))) tp
         (bs_Set B (nat (map_len (trackedBlocks s))) (bs_New B (nat (map_len (trackedBlocks s)) + 1)))"
    and "\<exists>e. tips s3 = filter (\<lambda>x. snd x \<notin> set tp) (tips s) @ [(e, it)]"
proof -
  define s1 where "s1 = added B meta s"
  define s2 where "s2 = fold removeTip tp s1"
  have e: "OnNewSolidBlock B meta s = (map_len (trackedBlocks (linked it s2)), linked it s2)"
    using OnNewSolidBlock_new [OF None [unfolded b_def]]
    by (simp add: s1_def s2_def it_def tp_def Let_def)
  then have s3: "s3 = linked it s2" by (simp add: s3_def)
  note a = added_ok [where B = B, OF o k None [unfolded b_def], folded s1_def it_def]
  have tp: "set tp \<subseteq> pointers s" by (auto simp: tp_def set_trackedParents pointers_def)
  have new_it: "it \<notin> pointers s" using o by (auto simp: objects_ok_def pointers_def it_def)
  from removeTips_effect [OF a(1,2), of tp] tp a(3)
  have r: "same_blocks s1 s2" "links_ok s2" "tips s2 = filter (\<lambda>x. snd x \<notin> set tp) (tips s1)"
    by (auto simp: s2_def)
  have t1: "tips s1 = tips s" by (simp add: s1_def added_def)
  have "(x, it) \<notin> set (tips s2)" for x
    using new_it k by (auto simp: r(3) t1 links_ok_def)
  then have it2: "it \<in> pointers s2" "tbTip (heap s2 ! it) = None"
    using r(2) same_blocks_pointers [OF r(1)] a(3) by (auto simp: links_ok_def)
  note n = linked_ok [OF same_blocks_objects [OF r(1) a(1)] r(2) it2, folded s3]
  show "objects_ok s3" "links_ok s3" by (rule n(1), rule n(2))
  show "trackedBlocks s3 = fmupd b it (trackedBlocks s)"
    using r(1) by (simp add: s3 linked_def same_blocks_def s1_def added_def b_def it_def)
  show "fst (OnNewSolidBlock B meta s) = map_len (trackedBlocks s3)" by (simp add: e s3)
  show "tbBlockID (heap s3 ! q) = tbBlockID (heap s ! q) \<and> tbRefs (heap s3 ! q) = tbRefs (heap s ! q)"
    if "q \<in> pointers s" using n(3) r(1) a(4) [OF that] by (simp add: same_blocks_def)
  show "tbBlockID (heap s3 ! it) = b"
    and "tbRefs (heap s3 ! it) = fold (\<lambda>p r. bs_InPlaceUnion B r (tbRefs (heap s ! p))) tp
         (bs_Set B (nat (map_len (trackedBlocks s))) (bs_New B (nat (map_len (trackedBlocks s)) + 1)))"
    using n(3) r(1) by (simp_all add: same_blocks_def s1_def added_def b_def it_def tp_def)
  show "\<exists>e. tips s3 = filter (\<lambda>x. snd x \<notin> set tp) (tips s) @ [(e, it)]"
    by (simp add: s3 linked_def r(3) t1)
qed

lemma OnNewSolidBlock_tracks:
  assumes B: "bitset_ok B bits" and t: "tracks l s"
  shows "tracks (track meta l) (snd (OnNewSolidBlock B meta s)) \<and>
    fst (OnNewSolidBlock B meta s) = int (length (track meta l)) \<and>
    (refs_ok bits l s \<longrightarrow> refs_ok bits (track meta l) (snd (OnNewSolidBlock B meta s)))"
proof (cases "fmlookup (trackedBlocks s) (metaBlockID meta)")
  case (Some p)
  have "fmdom' (trackedBlocks s) = ids l" using t by (simp add: tracks_def)
  then have "metaBlockID meta \<in> ids l" using fmdom'I [OF Some] by simp
  then have "track meta l = l" by (simp add: track_def)
  moreover have "OnNewSolidBlock B meta s = (map_len (trackedBlocks s), s)"
    using Some by (simp add: OnNewSolidBlock_def)
  ultimately show ?thesis using t tracks_length [OF t] by simp
next
  case None
  let ?b = "metaBlockID meta" and ?ps = "metaParents meta"
  let ?tp = "trackedParents s ?ps" and ?s3 = "snd (OnNewSolidBlock B meta s)"
  have o: "objects_ok s" and k: "links_ok s" and dom: "fmdom' (trackedBlocks s) = ids l"
    and dl: "distinct (map fst l)" and tl: "tip_ids s = leaves l"
    using t by (auto simp: tracks_def)
  have b: "?b \<notin> ids l" using None dom by (metis fmdom'_notI)
  have l': "track meta l = (?b, ?ps) # l" using b by (simp add: track_def)
  note n = OnNewSolidBlock_effect [where B = B, OF None o k]
  have "map (\<lambda>(e, p). tbBlockID (heap ?s3 ! p)) (filter (\<lambda>x. snd x \<notin> set ?tp) (tips s)) =
      map (\<lambda>(e, p). tbBlockID (heap s ! p)) (filter (\<lambda>x. snd x \<notin> set ?tp) (tips s))"
    using n(5) k by (intro map_cong) (auto simp: links_ok_def)
  then have "tip_ids ?s3 = leaves ((?b, ?ps) # l)"
    using tl tips_without_parents [OF o k] n(6,8) by (auto simp: tip_ids_def [of ?s3])
  then have t3: "tracks ((?b, ?ps) # l) ?s3"
    using n(1-3) dl b dom by (simp add: tracks_def ids_def)
  have "bits (tbRefs (heap ?s3 ! length (heap s))) =
      insert (length l) (\<Union>p \<in> set ?tp. bits (tbRefs (heap s ! p)))"
    using tracks_length [OF t] by (simp add: n(7) bits_fold_union [OF B] bitset_okD [OF B])
  then have "refs_ok bits ((?b, ?ps) # l) ?s3" if "refs_ok bits l s"
    using refs_ok_insert [OF dom that b n(3)] n(5) by blast
  then show ?thesis using t3 n(4) l' tracks_length [OF t3] by simp
qed

end
