(* ===== verification/SelectorGreedy.thy ===== *)
theory SelectorGreedy
  imports SelectorFacts
begin

text \<open>
  The selection of tips on the working list. What is left of a tip's references is its original
  set without those of the tips already referenced, so every choice maximizes the number of
  blocks that are newly confirmed; the tracked objects keep everything but these sets.
\<close>

section \<open>Greedy sequences\<close>

text \<open>\<open>ts\<close> continues the choices \<open>D\<close> from the candidates \<open>W\<close> greedily for the coverage \<open>R\<close>.\<close>

fun greedy :: "(block_id \<Rightarrow> 'x set) \<Rightarrow> block_id set \<Rightarrow> block_id set \<Rightarrow> block_id list \<Rightarrow> bool" where
  "greedy R W D [] \<longleftrightarrow> True"
| "greedy R W D (t # ts) \<longleftrightarrow>
     t \<in> W - D \<and> (\<forall>y \<in> W - D. card (R y - \<Union> (R ` D)) \<le> card (R t - \<Union> (R ` D))) \<and>
     greedy R W (insert t D) ts"

lemma greedy_snoc:
  "greedy R W D (ts @ [t]) \<longleftrightarrow> greedy R W D ts \<and> t \<in> W - (D \<union> set ts) \<and>
     (\<forall>y \<in> W - (D \<union> set ts). card (R y - \<Union> (R ` (D \<union> set ts))) \<le> card (R t - \<Union> (R ` (D \<union> set ts))))"
proof (induction ts arbitrary: D)
  case (Cons a ts)
  have e: "D \<union> set (a # ts) = insert a D \<union> set ts" by auto
  show ?case unfolding append_Cons greedy.simps e Cons.IH by blast
qed simp

lemma greedy_distinct: "greedy R W D ts \<Longrightarrow> distinct ts \<and> set ts \<subseteq> W - D"
  by (induction ts arbitrary: D) auto

lemma greedy_cong:
  assumes "\<And>y D. y \<in> W \<Longrightarrow> D \<subseteq> W \<Longrightarrow> card (R y - \<Union> (R ` D)) = card (Q y - \<Union> (Q ` D))" and "D \<subseteq> W"
  shows "greedy R W D ts = greedy Q W D ts"
  using assms(2) by (induction ts arbitrary: D) (auto simp: assms(1))

section \<open>The working list\<close>

lemma lookup_fold_fmupd:
  assumes "\<forall>(e, p) \<in> set xs. g (f p) = Some p"
  shows "fmlookup (fold (\<lambda>(e, p) m. fmupd (f p) p m) xs m) x =
    (if x \<in> (\<lambda>(e, p). f p) ` set xs then g x else fmlookup m x)"
  using assms by (induction xs arbitrary: m) auto

lemma tipsToList_lookup:
  assumes "tracks l s"
  shows "fmlookup (tipsToList s) x = (if x \<in> set (leaves l) then fmlookup (trackedBlocks s) x else None)"
proof -
  have o: "objects_ok s" and k: "links_ok s" and i: "tip_ids s = leaves l"
    using assms by (auto simp: tracks_def)
  have "\<forall>(e, p) \<in> set (tips s). fmlookup (trackedBlocks s) (tbBlockID (heap s ! p)) = Some p"
  proof clarify
    fix e p assume "(e, p) \<in> set (tips s)"
    then obtain b where "fmlookup (trackedBlocks s) b = Some p"
      using k by (auto simp: links_ok_def pointers_def)
    then show "fmlookup (trackedBlocks s) (tbBlockID (heap s ! p)) = Some p"
      using o by (simp add: objects_ok_def)
  qed
  from lookup_fold_fmupd [where f = "\<lambda>p. tbBlockID (heap s ! p)" and g = "fmlookup (trackedBlocks s)"
      and xs = "tips s" and m = fmempty and x = x, OF this]
  show ?thesis
    by (simp add: tipsToList_def i [symmetric] tip_ids_def)
qed

text \<open>
  The state of a selection in which the tips \<open>D\<close> have been referenced: \<open>W\<close> and \<open>h0\<close> are the
  working list and the heap it started from.
\<close>

definition selecting ::
    "('b \<Rightarrow> nat set) \<Rightarrow> working_list \<Rightarrow> 'b tracked_block list \<Rightarrow> block_id set
     \<Rightarrow> working_list \<times> 'b tracked_block list \<Rightarrow> bool" where
  "selecting bits W h0 D wh \<longleftrightarrow>
     (case wh of (blocks, h) \<Rightarrow>
        length h = length h0 \<and>
        (\<forall>q. tbBlockID (h ! q) = tbBlockID (h0 ! q) \<and> tbTip (h ! q) = tbTip (h0 ! q)) \<and>
        (\<forall>x. fmlookup blocks x = (if x \<in> D then None else fmlookup W x)) \<and>
        (\<forall>x p. fmlookup blocks x = Some p \<longrightarrow>
           bits (tbRefs (h ! p)) =
             bits (tbRefs (h0 ! p)) - (\<Union>y \<in> D. bits (tbRefs (h0 ! the (fmlookup W y))))))"

definition list_ok :: "working_list \<Rightarrow> 'b tracked_block list \<Rightarrow> bool" where
  "list_ok W h \<longleftrightarrow> (\<forall>x p. fmlookup W x = Some p \<longrightarrow> p < length h \<and> tbBlockID (h ! p) = x)"

lemma fold_difference:
  fixes h :: "'b tracked_block list"
  assumes B: "bitset_ok B bits"
    and "distinct bs" and "inj_on f (set bs)" and "\<forall>b \<in> set bs. f b < length h \<and> f b \<noteq> t"
  defines "g \<equiv> fold (\<lambda>b h. h[f b := (h ! f b)\<lparr>tbRefs := bs_InPlaceDifference B (tbRefs (h ! f b)) (tbRefs (h ! t))\<rparr>])"
  shows "length (g bs h) = length h \<and>
    (\<forall>q. tbBlockID (g bs h ! q) = tbBlockID (h ! q) \<and> tbTip (g bs h ! q) = tbTip (h ! q)) \<and>
    (\<forall>q. q \<notin> f ` set bs \<longrightarrow> g bs h ! q = h ! q) \<and>
    (\<forall>b \<in> set bs. bits (tbRefs (g bs h ! f b)) = bits (tbRefs (h ! f b)) - bits (tbRefs (h ! t)))"
  using assms(2-4)
proof (induction bs arbitrary: h)
  case Nil
  then show ?case by (simp add: g_def)
next
  case (Cons b bs)
  let ?h = "h[f b := (h ! f b)\<lparr>tbRefs := bs_InPlaceDifference B (tbRefs (h ! f b)) (tbRefs (h ! t))\<rparr>]"
  have e: "g (b # bs) h = g bs ?h" by (simp add: g_def)
  have fb: "f b < length h" "f b \<noteq> t" "f b \<notin> f ` set bs"
    using Cons.prems by (auto simp: inj_on_def)
  have h: "?h ! q = (if q = f b then (h ! f b)\<lparr>tbRefs := bs_InPlaceDifference B (tbRefs (h ! f b)) (tbRefs (h ! t))\<rparr> else h ! q)" for q
    using fb(1) by simp
  have ih: "length (g bs ?h) = length ?h"
    "tbBlockID (g bs ?h ! q) = tbBlockID (?h ! q)" "tbTip (g bs ?h ! q) = tbTip (?h ! q)"
    "q \<notin> f ` set bs \<Longrightarrow> g bs ?h ! q = ?h ! q"
    "c \<in> set bs \<Longrightarrow> bits (tbRefs (g bs ?h ! f c)) = bits (tbRefs (?h ! f c)) - bits (tbRefs (?h ! t))" for q c
    using Cons.IH [of ?h] Cons.prems by auto
  have "f c \<noteq> f b" if "c \<in> set bs" for c using fb(3) that by (metis imageI)
  then show ?case
    unfolding e using ih fb h bitset_okD(4) [OF B] by auto
qed

lemma referenceTip_selecting:
  assumes B: "bitset_ok B bits" and W: "list_ok W h0" and s: "selecting bits W h0 D (blocks, h)"
    and ord: "\<And>m. enumerates (ord m) m" and x: "fmlookup blocks x = Some t"
  shows "selecting bits W h0 (insert x D) (referenceTip B ord t (blocks, h))"
proof -
  have len: "length h = length h0"
    and same: "\<And>q. tbBlockID (h ! q) = tbBlockID (h0 ! q) \<and> tbTip (h ! q) = tbTip (h0 ! q)"
    and dom: "\<And>y. fmlookup blocks y = (if y \<in> D then None else fmlookup W y)"
    and refs: "\<And>y p. fmlookup blocks y = Some p \<Longrightarrow> bits (tbRefs (h ! p)) =
        bits (tbRefs (h0 ! p)) - (\<Union>y \<in> D. bits (tbRefs (h0 ! the (fmlookup W y))))"
    using s by (auto simp: selecting_def)
  have ptr: "p < length h \<and> tbBlockID (h ! p) = y" if "fmlookup blocks y = Some p" for y p
    using W that dom len same by (auto simp: list_ok_def split: if_splits)
  have idt: "tbBlockID (h ! t) = x" using ptr [OF x] by simp
  let ?bl = "fmdrop x blocks" and ?f = "\<lambda>b. the (fmlookup (fmdrop x blocks) b)"
  let ?h = "fold (\<lambda>b h. h[?f b := (h ! ?f b)\<lparr>tbRefs := bs_InPlaceDifference B (tbRefs (h ! ?f b)) (tbRefs (h ! t))\<rparr>]) (ord ?bl) h"
  have r: "referenceTip B ord t (blocks, h) = (?bl, ?h)"
    by (simp add: referenceTip_def idt Let_def)
  have o: "distinct (ord ?bl)" "set (ord ?bl) = fmdom' ?bl" using ord by (auto simp: enumerates_def)
  have f: "fmlookup blocks b = Some (?f b) \<and> b \<noteq> x" if "b \<in> set (ord ?bl)" for b
    using that by (auto simp: o(2) fmlookup_dom'_iff)
  have inj: "inj_on ?f (set (ord ?bl))"
    by (rule inj_onI) (metis f ptr)
  have nt: "\<forall>b \<in> set (ord ?bl). ?f b < length h \<and> ?f b \<noteq> t"
    using f ptr x idt by metis
  note fd = fold_difference [OF B o(1) inj nt]
  note fd1 = conjunct1 [OF fd] and fd2 = conjunct1 [OF conjunct2 [OF fd]]
    and fd4 = conjunct2 [OF conjunct2 [OF conjunct2 [OF fd]]]
  have tr: "bits (tbRefs (h ! t)) = bits (tbRefs (h0 ! t)) - (\<Union>y \<in> D. bits (tbRefs (h0 ! the (fmlookup W y))))"
    using refs [OF x] .
  have Wx: "fmlookup W x = Some t" using x dom by (auto split: if_splits)
  have new: "bits (tbRefs (?h ! p)) =
      bits (tbRefs (h0 ! p)) - (\<Union>y \<in> insert x D. bits (tbRefs (h0 ! the (fmlookup W y))))"
    if p: "fmlookup ?bl y = Some p" for y p
  proof -
    have y: "y \<in> set (ord ?bl)" "?f y = p" "fmlookup blocks y = Some p"
      using p by (auto simp: o(2) fmlookup_dom'_iff split: if_splits)
    have "bits (tbRefs (?h ! p)) = bits (tbRefs (h ! p)) - bits (tbRefs (h ! t))"
      using bspec [OF fd4 y(1)] unfolding y(2) .
    also have "\<dots> = bits (tbRefs (h0 ! p)) - (\<Union>y \<in> insert x D. bits (tbRefs (h0 ! the (fmlookup W y))))"
      unfolding tr refs [OF y(3)] using Wx by auto
    finally show ?thesis .
  qed
  show ?thesis
    unfolding r selecting_def prod.case
  proof (intro conjI allI impI)
    show "length ?h = length h0" using fd1 len by (rule trans)
    fix q
    show "tbBlockID (?h ! q) = tbBlockID (h0 ! q)" using spec [OF fd2, of q] same [of q] by (simp only:)
    show "tbTip (?h ! q) = tbTip (h0 ! q)" using spec [OF fd2, of q] same [of q] by (simp only:)
  next
    fix y show "fmlookup ?bl y = (if y \<in> insert x D then None else fmlookup W y)" using dom by simp
  next
    fix y p assume "fmlookup ?bl y = Some p"
    then show "bits (tbRefs (?h ! p)) =
      bits (tbRefs (h0 ! p)) - (\<Union>y \<in> insert x D. bits (tbRefs (h0 ! the (fmlookup W y))))"
      by (rule new)
  qed
qed

section \<open>The best tip\<close>

lemma bestTips_facts:
  assumes "bestTips B blocks h bs (ts, n) = (us, m)"
  defines "cnt \<equiv> \<lambda>b. bs_Count B (tbRefs (h ! the (fmlookup blocks b)))"
  shows "n \<le> m \<and> (\<forall>b \<in> set bs. cnt b \<le> m) \<and>
    (\<forall>t \<in> set us. (t \<in> set ts \<and> n = m) \<or> (\<exists>b \<in> set bs. t = the (fmlookup blocks b) \<and> cnt b = m)) \<and>
    (ts \<noteq> [] \<or> n = 0 \<and> bs \<noteq> [] \<longrightarrow> us \<noteq> [])"
  using assms(1)
proof (induction bs arbitrary: ts n)
  case Nil
  then show ?case by simp
next
  case (Cons b bs)
  let ?p = "the (fmlookup blocks b)"
  let ?next = "if cnt b > n then ([?p], cnt b) else if cnt b = n then (ts @ [?p], n) else (ts, n)"
  have e: "bestTips B blocks h bs ?next = (us, m)"
    using Cons.prems by (simp only: bestTips.simps cnt_def Let_def)
  consider "cnt b > n" | "cnt b = n" | "cnt b < n" by linarith
  then show ?case
  proof cases
    case 1
    then show ?thesis using Cons.IH [of "[?p]" "cnt b"] e by fastforce
  next
    case 2
    then show ?thesis using Cons.IH [of "ts @ [?p]" n] e by fastforce
  next
    case 3
    then show ?thesis using Cons.IH [of ts n] e by fastforce
  qed
qed

lemma map_len_0_iff: "map_len m = 0 \<longleftrightarrow> m = fmempty"
proof
  assume "map_len m = 0"
  then have "fmdom' m = {}" by (simp add: map_len_def)
  then have "fmlookup m x = None" for x by (metis empty_iff fmdom'I option.exhaust)
  then show "m = fmempty" by (intro fmap_ext) simp
qed simp

lemma selectTip_Inr:
  assumes ord: "\<And>m. enumerates (ord m) m" and rnd: "\<And>n. 0 < n \<Longrightarrow> rnd n < n"
    and s: "selectTip B ord rnd (blocks, h) = Inr (t, c)"
  shows "\<exists>x. fmlookup blocks x = Some t \<and> c = bs_Count B (tbRefs (h ! t)) \<and>
    (\<forall>y q. fmlookup blocks y = Some q \<longrightarrow> bs_Count B (tbRefs (h ! q)) \<le> c)"
proof -
  obtain us m where b: "bestTips B blocks h (ord blocks) ([], 0) = (us, m)" by fastforce
  have r: "us \<noteq> []" "t = us ! rnd (length us)" "c = m"
    using s b by (auto simp: selectTip_def split: if_splits)
  then have "t \<in> set us" using rnd [of "length us"] by simp
  note f = bestTips_facts [OF b]
  obtain x where x: "x \<in> set (ord blocks)" "t = the (fmlookup blocks x)"
    "bs_Count B (tbRefs (h ! the (fmlookup blocks x))) = m"
    using f \<open>t \<in> set us\<close> by auto
  have d: "set (ord blocks) = fmdom' blocks" using ord by (simp add: enumerates_def)
  have "fmlookup blocks x = Some t" using x(1,2) d by (auto simp: fmlookup_dom'_iff)
  moreover have "bs_Count B (tbRefs (h ! q)) \<le> c" if "fmlookup blocks y = Some q" for y q
    using f that d r(3) by (metis fmdom'I option.sel)
  ultimately show ?thesis using x r(3) by auto
qed

lemma selectTip_Inl:
  assumes ord: "\<And>m. enumerates (ord m) m" and s: "selectTip B ord rnd (blocks, h) = Inl e"
  shows "blocks = fmempty"
proof (rule ccontr)
  assume ne: "blocks \<noteq> fmempty"
  obtain us m where b: "bestTips B blocks h (ord blocks) ([], 0) = (us, m)" by fastforce
  have "fmdom' blocks \<noteq> {}" using ne map_len_0_iff by (auto simp: map_len_def)
  then have "ord blocks \<noteq> []" using ord [of blocks] by (auto simp: enumerates_def)
  then have "us \<noteq> []" using bestTips_facts [OF b] by simp
  then show False using s b ne by (simp add: selectTip_def map_len_0_iff)
qed

section \<open>The loop\<close>

text \<open>The best tip of a state in which \<open>ts\<close> are referenced continues the greedy sequence.\<close>

lemma selectTip_continues:
  assumes B: "bitset_ok B bits" and W: "list_ok W h0" and it: "iteration_ok it"
    and s: "selecting bits W h0 (set ts) (blocks, h)"
    and g: "greedy (\<lambda>x. bits (tbRefs (h0 ! the (fmlookup W x)))) (fmdom' W) {} ts"
    and t: "selectTip B (tipOrder it) (pick it) (blocks, h) = Inr (t, c)"
  shows "fmlookup W (tbBlockID (h ! t)) = Some t \<and> tbBlockID (h ! t) \<notin> set ts \<and>
    greedy (\<lambda>x. bits (tbRefs (h0 ! the (fmlookup W x)))) (fmdom' W) {} (ts @ [tbBlockID (h ! t)])"
proof -
  let ?R = "\<lambda>x. bits (tbRefs (h0 ! the (fmlookup W x)))"
  have dom: "\<And>y. fmlookup blocks y = (if y \<in> set ts then None else fmlookup W y)"
    and ids: "\<And>q. tbBlockID (h ! q) = tbBlockID (h0 ! q)"
    and refs: "\<And>y p. fmlookup blocks y = Some p \<Longrightarrow>
        bits (tbRefs (h ! p)) = bits (tbRefs (h0 ! p)) - \<Union> (?R ` set ts)"
    using s by (auto simp: selecting_def)
  obtain x where x: "fmlookup blocks x = Some t" "c = bs_Count B (tbRefs (h ! t))"
    "\<And>y q. fmlookup blocks y = Some q \<Longrightarrow> bs_Count B (tbRefs (h ! q)) \<le> c"
    using selectTip_Inr [OF _ _ t] it unfolding iteration_ok_def by metis
  have Wx: "fmlookup W x = Some t" "x \<notin> set ts" using x(1) dom by (auto split: if_splits)
  have idx: "tbBlockID (h ! t) = x" using W Wx(1) ids by (simp add: list_ok_def)
  have cnt: "bs_Count B (tbRefs (h ! q)) = card (?R y - \<Union> (?R ` set ts))"
    if "fmlookup blocks y = Some q" for y q
  proof -
    have "fmlookup W y = Some q" using that dom by (auto split: if_splits)
    then show ?thesis using refs [OF that] bitset_okD(6) [OF B] by simp
  qed
  have "card (?R y - \<Union> (?R ` set ts)) \<le> card (?R x - \<Union> (?R ` set ts))" if "y \<in> fmdom' W - set ts" for y
  proof -
    obtain q where q: "fmlookup blocks y = Some q" using \<open>y \<in> fmdom' W - set ts\<close> dom by (auto simp: fmlookup_dom'_iff)
    show ?thesis using x(3) [OF q] cnt [OF q] cnt [OF x(1)] x(2) by simp
  qed
  moreover have "x \<in> fmdom' W" using Wx(1) by (rule fmdom'I)
  ultimately show ?thesis using g Wx idx unfolding idx greedy_snoc by simp
qed

text \<open>An iteration starts by taking the cone of the last tip out of the working copy.\<close>
lemma reference_last:
  assumes B: "bitset_ok B bits" and W: "list_ok W h0" and its: "\<And>i. iteration_ok (its i)"
    and sel: "selecting bits W h0 (set (butlast ts)) wh" and gr: "greedy R (fmdom' W) {} ts"
    and last: "lastTip = (if ts = [] then None else fmlookup W (last ts))"
  shows "selecting bits W h0 (set ts)
    (case lastTip of None \<Rightarrow> wh | Some t \<Rightarrow> referenceTip B (refOrder (its i)) t wh)"
proof (cases "ts = []")
  case True
  then show ?thesis using sel last by simp
next
  case False
  obtain blocks h where wh: "wh = (blocks, h)" by (cases wh)
  have gd: "distinct ts" "set ts \<subseteq> fmdom' W" using greedy_distinct [OF gr] by auto
  obtain t where t: "fmlookup W (last ts) = Some t"
    using gd(2) False by (metis fmlookup_dom'_iff last_in_set subsetD)
  have set: "set ts = insert (last ts) (set (butlast ts))"
    using False by (metis append_butlast_last_id list.simps(15) rotate1.simps(2) set_rotate1)
  have "last ts \<notin> set (butlast ts)"
    using gd(1) False by (metis append_butlast_last_id distinct_append disjoint_insert(2) list.simps(15))
  then have "fmlookup blocks (last ts) = Some t"
    using sel t by (simp add: wh selecting_def)
  moreover have "enumerates (refOrder (its i) m) m" for m using its by (simp add: iteration_ok_def)
  ultimately have "selecting bits W h0 (insert (last ts) (set (butlast ts)))
      (referenceTip B (refOrder (its i)) t wh)"
    unfolding wh using referenceTip_selecting [OF B W sel [unfolded wh]] by blast
  then show ?thesis using False last t set by simp
qed

lemma selectGreedy_greedy:
  assumes B: "bitset_ok B bits" and W: "list_ok W h0" and its: "\<And>i. iteration_ok (its i)"
  defines "R \<equiv> \<lambda>x. bits (tbRefs (h0 ! the (fmlookup W x)))"
  assumes "selecting bits W h0 (set (butlast ts)) wh" and "greedy R (fmdom' W) {} ts"
    and "lastTip = (if ts = [] then None else fmlookup W (last ts))"
    and "selectGreedy B below minReq its n i ts lastTip best wh = ((err, us), h')"
  shows "greedy R (fmdom' W) {} us \<and> length us \<le> length ts + n \<and>
    (case err of None \<Rightarrow> minReq \<le> int (length us) \<or> length us = length ts + n
     | Some e \<Rightarrow> int (length us) < minReq) \<and>
    (\<exists>D blocks. set (butlast us) \<subseteq> D \<and> D \<subseteq> set us \<and> selecting bits W h0 D (blocks, h'))"
  using assms(5-8)
proof (induction n arbitrary: i ts lastTip best wh)
  case 0
  obtain blocks h where "wh = (blocks, h)" by (cases wh)
  moreover have "set (butlast ts) \<subseteq> set ts" by (auto dest: in_set_butlastD)
  ultimately show ?case using "0.prems" by auto
next
  case (Suc n)
  obtain blocks h where wh: "wh = (blocks, h)" by (cases wh)
  have sub: "set (butlast ts) \<subseteq> set ts" by (auto dest: in_set_butlastD)
  let ?wh1 = "case lastTip of None \<Rightarrow> wh | Some t \<Rightarrow> referenceTip B (refOrder (its i)) t wh"
  have s1: "selecting bits W h0 (set ts) ?wh1"
    by (rule reference_last [OF B W its Suc.prems(1-3)])
  obtain bl1 h1 where wh1: "?wh1 = (bl1, h1)" by fastforce
  have left: "\<exists>D blocks. set (butlast ts) \<subseteq> D \<and> D \<subseteq> set ts \<and> selecting bits W h0 D (blocks, h1)"
    using s1 sub unfolding wh1 by blast
  show ?case
  proof (cases "ctxDone (its i)")
    case True
    then have "us = ts" "h' = h" "err = (if minReq \<le> int (length ts) then None else Some (ErrContext (the (ctxErr (its i)))))"
      using Suc.prems(4) by (auto simp: wh)
    then show ?thesis using Suc.prems(1,2) sub by (auto simp: wh)
  next
    case False
    show ?thesis
    proof (cases "selectTip B (tipOrder (its i)) (pick (its i)) ?wh1")
      case (Inl e)
      then have "us = ts" "h' = h1" "err = (if minReq \<le> int (length ts) then None else Some e)"
        using Suc.prems(4) False wh1 by (auto simp: Let_def)
      then show ?thesis using Suc.prems(2) left by simp
    next
      case (Inr tc)
      obtain t c where tc: "tc = (t, c)" by (cases tc)
      let ?best = "if i = 0 then c else best"
      have sel: "selectTip B (tipOrder (its i)) (pick (its i)) (bl1, h1) = Inr (t, c)"
        using Inr tc wh1 by simp
      note nt = selectTip_continues [OF B W its s1[unfolded wh1] Suc.prems(2)[unfolded R_def] sel, folded R_def]
      show ?thesis
      proof (cases "minReq \<le> int (length ts) \<and> below c ?best")
        case True
        then have "us = ts" "h' = h1" "err = None"
          using Suc.prems(4) False wh1 sel by (auto simp: Let_def)
        then show ?thesis using Suc.prems(2) left True by simp
      next
        case go: False
        have r: "selectGreedy B below minReq its n (Suc i) (ts @ [tbBlockID (h1 ! t)]) (Some t) ?best (bl1, h1)
            = ((err, us), h')"
          using Suc.prems(4) False wh1 sel go by (simp add: Let_def)
        have "selecting bits W h0 (set (butlast (ts @ [tbBlockID (h1 ! t)]))) (bl1, h1)"
          using s1 wh1 by simp
        from Suc.IH [OF this conjunct2 [OF conjunct2 [OF nt]] _ r] nt show ?thesis
          by (cases err) auto
      qed
    qed
  qed
qed

section \<open>Selections of a selector that tracks a log\<close>

lemma tracks_list_ok: "tracks l s \<Longrightarrow> list_ok (tipsToList s) (heap s)"
  by (auto simp: list_ok_def tipsToList_lookup tracks_def objects_ok_def split: if_splits)

lemma leaves_subset: "set (leaves l) \<subseteq> ids l"
  by (induction l rule: leaves.induct) auto

lemma tracks_heap:
  assumes "tracks l s" and "length h = length (heap s)"
    and "\<And>q. tbBlockID (h ! q) = tbBlockID (heap s ! q) \<and> tbTip (h ! q) = tbTip (heap s ! q)"
  shows "tracks l (s\<lparr>heap := h\<rparr>)"
  using assms by (simp add: tracks_def objects_ok_def links_ok_def pointers_def tip_ids_def)

lemma card_idx:
  assumes "A \<subseteq> ids l" and "C \<subseteq> ids l"
  shows "card (idx l ` A - idx l ` C) = card (A - C)"
proof -
  have "idx l ` A - idx l ` C = idx l ` (A - C)"
    using inj_on_image_set_diff [OF idx_inj, of A C l] assms by auto
  moreover have "inj_on (idx l) (A - C)"
    using idx_inj assms(1) by (meson Diff_subset inj_on_subset order_trans)
  ultimately show ?thesis by (simp add: card_image)
qed

text \<open>The working copy of a selection holds exactly the leaves of the log, each with its references.\<close>
lemma leaves_tracked:
  assumes t: "tracks l s" and x: "x \<in> set (leaves l)"
  shows "fmlookup (trackedBlocks s) x \<noteq> None"
proof -
  have "fmdom' (trackedBlocks s) = ids l" using t by (simp add: tracks_def)
  then have "x \<in> fmdom' (trackedBlocks s)" using leaves_subset x by blast
  then show ?thesis by (auto simp: fmlookup_dom'_iff)
qed

lemma tipsToList_ids: "tracks l s \<Longrightarrow> fmdom' (tipsToList s) = set (leaves l)"
  using leaves_tracked [of l s]
  by (auto simp: tipsToList_lookup fmlookup_dom'_iff split: if_splits)

lemma tipsToList_refs:
  "tracks l s \<Longrightarrow> x \<in> set (leaves l) \<Longrightarrow>
    bits (tbRefs (heap s ! the (fmlookup (tipsToList s) x))) = refs_of bits s x"
  by (simp add: tipsToList_lookup refs_of_def)

lemma selecting_refs:
  assumes t: "tracks l s" and D: "D \<subseteq> set (leaves l)" and x: "x \<in> set (leaves l) - D"
    and sel: "selecting bits (tipsToList s) (heap s) D (blocks, h)"
  shows "refs_of bits (s\<lparr>heap := h\<rparr>) x = refs_of bits s x - (\<Union>y \<in> D. refs_of bits s y)"
proof -
  let ?R = "\<lambda>x. bits (tbRefs (heap s ! the (fmlookup (tipsToList s) x)))"
  obtain p where p: "fmlookup (trackedBlocks s) x = Some p" using leaves_tracked [OF t] x by auto
  then have "fmlookup blocks x = Some p"
    using sel x by (simp add: selecting_def tipsToList_lookup [OF t])
  then have "bits (tbRefs (h ! p)) = bits (tbRefs (heap s ! p)) - (\<Union>y \<in> D. ?R y)"
    using sel by (simp add: selecting_def)
  moreover have "(\<Union>y \<in> D. ?R y) = (\<Union>y \<in> D. refs_of bits s y)"
    using tipsToList_refs [OF t] D by (intro arg_cong [where f = Union] image_cong) auto
  ultimately show ?thesis using p by (simp add: refs_of_def)
qed

text \<open>What a selection leaves behind: the objects, without the references of the tips in \<open>D\<close>.\<close>

lemma SelectTips_Val:
  assumes B: "bitset_ok B bits" and its: "\<And>i. iteration_ok (its i)" and t: "tracks l s"
    and v: "SelectTips B its minReq s = Val r s'"
  shows "tracks l s' \<and>
    (\<exists>us err. r = (case err of None \<Rightarrow> Inr us | Some e \<Rightarrow> Inl e) \<and>
       greedy (refs_of bits s) (set (leaves l)) {} us \<and> int (length us) \<le> max 0 (maxTips s) \<and>
       (case err of None \<Rightarrow> minReq \<le> int (length us) \<or> int (length us) = max 0 (maxTips s)
        | Some e \<Rightarrow> int (length us) < minReq) \<and>
       (\<exists>D. set (butlast us) \<subseteq> D \<and> D \<subseteq> set us \<and>
         (\<forall>x \<in> set (leaves l) - D. refs_of bits s' x = refs_of bits s x - (\<Union>y \<in> D. refs_of bits s y))))"
proof -
  let ?W = "tipsToList s" and ?h0 = "heap s"
  let ?R = "\<lambda>x. bits (tbRefs (?h0 ! the (fmlookup ?W x)))"
  obtain err us h where g: "selectGreedy B (belowLimit s) minReq its (nat (maxTips s)) 0 [] None 0
      (?W, ?h0) = ((err, us), h)"
    by (metis surj_pair)
  have r: "r = (case err of None \<Rightarrow> Inr us | Some e \<Rightarrow> Inl e)" "s' = s\<lparr>heap := h\<rparr>"
    using v g by (auto simp: SelectTips_def split: if_splits)
  have start: "selecting bits ?W ?h0 (set (butlast [])) (?W, ?h0)" by (simp add: selecting_def)
  have "greedy ?R (fmdom' ?W) {} []" by simp
  note m = selectGreedy_greedy [OF B tracks_list_ok [OF t] its start this _ g, simplified]
  note W = tipsToList_ids [OF t] and R = tipsToList_refs [OF t]
  have gr: "greedy ?R (set (leaves l)) {} us" using m W by simp
  have gr': "greedy (refs_of bits s) (set (leaves l)) {} us"
  proof -
    have "\<Union> (?R ` D) = \<Union> (refs_of bits s ` D)" if "D \<subseteq> set (leaves l)" for D
      using that R by (intro arg_cong [where f = Union] image_cong) auto
    then have "greedy ?R (set (leaves l)) {} us = greedy (refs_of bits s) (set (leaves l)) {} us"
      using R by (intro greedy_cong) auto
    then show ?thesis using gr by simp
  qed
  obtain D blocks where D: "D \<subseteq> set us" "selecting bits ?W ?h0 D (blocks, h)" "set (butlast us) \<subseteq> D"
    using m by blast
  have us: "set us \<subseteq> set (leaves l)" using greedy_distinct [OF gr] by auto
  have t': "tracks l s'"
    unfolding r(2) using D(2) by (intro tracks_heap [OF t]) (auto simp: selecting_def)
  have refs: "refs_of bits s' x = refs_of bits s x - (\<Union>y \<in> D. refs_of bits s y)"
    if "x \<in> set (leaves l) - D" for x
    unfolding r(2) using D(1) us by (intro selecting_refs [OF t _ that D(2)]) auto
  have len: "int (length us) \<le> max 0 (maxTips s)" "case err of None \<Rightarrow> minReq \<le> int (length us) \<or> int (length us) = max 0 (maxTips s)
      | Some e \<Rightarrow> int (length us) < minReq"
    using m by (auto split: option.splits)
  have "\<exists>D. set (butlast us) \<subseteq> D \<and> D \<subseteq> set us \<and>
      (\<forall>x \<in> set (leaves l) - D. refs_of bits s' x = refs_of bits s x - (\<Union>y \<in> D. refs_of bits s y))"
    using D(1,3) refs by (intro exI [of _ D] conjI ballI)
  then show ?thesis using t' r(1) gr' len by (intro exI [of _ us] exI [of _ err] conjI)
qed

end
