(* ===== verification/SelectorProperties.thy ===== *)
theory SelectorProperties
  imports SelectorGreedy
begin

text \<open>Properties of the tip selector, and the instance on which they are applied.\<close>

section \<open>A concrete instance\<close>

text \<open>Bit sets as lists of positions, and iterations that range over maps in the order of the keys.\<close>

definition toy_bitset :: "nat list bitset_lib" where
  "toy_bitset =
     \<lparr>bs_New = (\<lambda>n. []), bs_Set = List.insert, bs_InPlaceUnion = List.union,
      bs_InPlaceDifference = (\<lambda>b c. filter (\<lambda>i. i \<notin> set c) b), bs_Count = (\<lambda>b. length (remdups b))\<rparr>"

lemma toy_bitset_ok: "bitset_ok toy_bitset set"
  by (auto simp: bitset_ok_def toy_bitset_def length_remdups_card_conv)

definition toy_iteration :: iteration where
  "toy_iteration =
     \<lparr>ctxErr = None, refOrder = (\<lambda>m. map fst (sorted_list_of_fmap m)),
      tipOrder = (\<lambda>m. map fst (sorted_list_of_fmap m)), pick = (\<lambda>n. 0)\<rparr>"

lemma sorted_keys: "enumerates (map fst (sorted_list_of_fmap m)) m"
proof -
  have "map fst (sorted_list_of_fmap m) = sorted_list_of_fset (fmdom m)"
    by (simp add: sorted_list_of_fmap_def comp_def)
  moreover have "set (sorted_list_of_fset (fmdom m)) = fmdom' m" by (simp add: fmdom'_alt_def)
  moreover have "distinct (sorted_list_of_fset (fmdom m))" by (simp add: sorted_list_of_fset.rep_eq)
  ultimately show ?thesis by (simp add: enumerates_def)
qed

lemma toy_iteration_ok: "iteration_ok toy_iteration"
  by (simp add: iteration_ok_def toy_iteration_def sorted_keys)

definition toy_meta :: "8 word \<Rightarrow> 8 word list \<Rightarrow> inx_metadata" where
  "toy_meta b ps =
     \<lparr>metaBlockID = b32 b, metaParents = map b32 ps, metaSolid = True,
      metaReferencedByMilestoneIndex = 0, metaShouldReattach = False\<rparr>"

section \<open>Tracking\<close>

text \<open>A selector that has been reset and then been told of solid blocks, and their log.\<close>

definition feed :: "'b bitset_lib \<Rightarrow> inx_metadata list \<Rightarrow> 'b heaviest \<Rightarrow> 'b heaviest" where
  "feed B metas s = fold (\<lambda>m s. snd (OnNewSolidBlock B m s)) metas (Heaviest_Reset s)"

definition log_of :: "inx_metadata list \<Rightarrow> block_log" where
  "log_of metas = fold track metas []"

lemma feed_tracks:
  assumes B: "bitset_ok B bits"
  shows "tracks (log_of metas) (feed B metas s) \<and> refs_ok bits (log_of metas) (feed B metas s)"
proof -
  have "tracks (fold track metas l) (fold (\<lambda>m s. snd (OnNewSolidBlock B m s)) metas s) \<and>
      refs_ok bits (fold track metas l) (fold (\<lambda>m s. snd (OnNewSolidBlock B m s)) metas s)"
    if "tracks l s" "refs_ok bits l s" for l s
    using that
  proof (induction metas arbitrary: l s)
    case (Cons m metas)
    then show ?case using OnNewSolidBlock_tracks [OF B Cons.prems(1), of m] by simp
  qed simp
  from this [OF tracks_Reset] show ?thesis by (simp add: feed_def log_of_def)
qed

lemma tracks_refs_count:
  assumes B: "bitset_ok B bits" and t: "tracks l s" and r: "refs_ok bits l s" and x: "x \<in> ids l"
  shows "bs_Count B (tbRefs (heap s ! the (fmlookup (trackedBlocks s) x))) = card ((edges l)\<^sup>* `` {x})"
proof -
  have "bits (tbRefs (heap s ! the (fmlookup (trackedBlocks s) x))) = idx l ` cone l x"
    using r x by (simp add: refs_ok_def refs_of_def)
  moreover have "card (idx l ` cone l x) = card (cone l x)"
    using idx_inj cone_subset by (metis card_image inj_on_subset)
  moreover have "cone l x = (edges l)\<^sup>* `` {x}" using cone_reachable t x by (auto simp: tracks_def)
  ultimately show ?thesis using bitset_okD(6) [OF B] by metis
qed

text \<open>
  C24. The selector represents the graph of the blocks it was told since the last \<open>Reset\<close>: it tracks
  exactly their IDs, its tips are the blocks that no later block has as a parent, in the order of
  arrival, and the number of set bits of a block is the size of its past cone, the blocks that
  can be reached along the parents. Duplicates change nothing.
\<close>
theorem selector_represents_graph:
  assumes "bitset_ok B bits" and "l = log_of metas" and "s' = feed B metas s"
  shows "fmdom' (trackedBlocks s') = ids l \<and> TrackedBlocks s' = int (length l) \<and>
    tip_ids s' = leaves l \<and> NumTips s' = int (length (leaves l)) \<and>
    (\<forall>x \<in> ids l. bs_Count B (tbRefs (heap s' ! the (fmlookup (trackedBlocks s') x))) =
       card ((edges l)\<^sup>* `` {x}))"
proof -
  have t: "tracks l s'" "refs_ok bits l s'" using feed_tracks [OF assms(1)] assms(2,3) by auto
  have "length (tips s') = length (leaves l)"
    using t(1) by (metis length_map tip_ids_def tracks_def)
  then show ?thesis
    using t tracks_length [OF t(1)] tracks_refs_count [OF assms(1) t]
    by (simp add: tracks_def TrackedBlocks_def NumTips_def)
qed

theorem selector_represents_graph_witness:
  "TrackedBlocks (feed toy_bitset [toy_meta 1 [], toy_meta 2 [1], toy_meta 3 [1], toy_meta 2 [3]]
     (NewHeaviest 2 (\<lambda>_ _. False))) = 3 \<and>
   tip_ids (feed toy_bitset [toy_meta 1 [], toy_meta 2 [1], toy_meta 3 [1], toy_meta 2 [3]]
     (NewHeaviest 2 (\<lambda>_ _. False))) = [b32 2, b32 3]"
proof -
  have l: "log_of [toy_meta 1 [], toy_meta 2 [1], toy_meta 3 [1], toy_meta 2 [3]] =
      [(b32 3, [b32 1]), (b32 2, [b32 1]), (b32 1, [])]"
    by (simp add: log_of_def track_def toy_meta_def)
  show ?thesis
    using selector_represents_graph [OF toy_bitset_ok l [symmetric] refl, of "NewHeaviest 2 (\<lambda>_ _. False)"]
    by simp
qed

section \<open>Selecting\<close>

lemma UN_refs_of:
  assumes "refs_ok bits l s" and "D \<subseteq> ids l"
  shows "\<Union> (refs_of bits s ` D) = idx l ` \<Union> (cone l ` D)"
proof -
  have "\<Union> (refs_of bits s ` D) = (\<Union>x \<in> D. idx l ` cone l x)"
    using assms by (intro SUP_cong) (auto simp: refs_ok_def)
  then show ?thesis by (simp only: image_UN)
qed

lemma greedy_cones:
  assumes t: "tracks l s" and r: "refs_ok bits l s"
  shows "greedy (refs_of bits s) (set (leaves l)) {} us =
    greedy (\<lambda>x. (edges l)\<^sup>* `` {x}) (set (leaves l)) {} us"
proof (rule greedy_cong)
  fix y D assume y: "y \<in> set (leaves l)" and D: "D \<subseteq> set (leaves l)"
  have d: "distinct (map fst l)" using t by (simp add: tracks_def)
  have D': "D \<subseteq> ids l" and y': "y \<in> ids l" using y D leaves_subset by blast+
  have "refs_of bits s y = idx l ` cone l y" using r y' by (simp add: refs_ok_def)
  moreover have "\<Union> (cone l ` D) \<subseteq> ids l" using cone_subset by blast
  ultimately have "card (refs_of bits s y - \<Union> (refs_of bits s ` D)) = card (cone l y - \<Union> (cone l ` D))"
    using card_idx [OF cone_subset] UN_refs_of [OF r D'] by simp
  moreover have "\<Union> (cone l ` D) = (\<Union>x \<in> D. (edges l)\<^sup>* `` {x})"
    using cone_reachable [OF d] D' by (intro SUP_cong) auto
  ultimately show "card (refs_of bits s y - \<Union> (refs_of bits s ` D)) =
      card ((edges l)\<^sup>* `` {y} - (\<Union>x \<in> D. (edges l)\<^sup>* `` {x}))"
    using cone_reachable [OF d y'] by simp
qed simp

lemma SelectTips_Inr:
  assumes B: "bitset_ok B bits" and its: "\<And>i. iteration_ok (its i)" and t: "tracks l s"
    and v: "SelectTips B its minReq s = Val (Inr us) s'"
  shows "tracks l s' \<and> greedy (refs_of bits s) (set (leaves l)) {} us \<and>
    int (length us) \<le> max 0 (maxTips s) \<and>
    (minReq \<le> int (length us) \<or> int (length us) = max 0 (maxTips s)) \<and>
    (\<exists>D. set (butlast us) \<subseteq> D \<and> D \<subseteq> set us \<and>
      (\<forall>x \<in> set (leaves l) - D. refs_of bits s' x = refs_of bits s x - (\<Union>y \<in> D. refs_of bits s y)))"
  using SelectTips_Val [OF B its t v]
proof (elim conjE exE)
  fix vs err D
  assume e: "Inr us = (case err of None \<Rightarrow> Inr vs | Some e \<Rightarrow> Inl e)"
    and m: "case err of None \<Rightarrow> minReq \<le> int (length vs) \<or> int (length vs) = max 0 (maxTips s)
      | Some e \<Rightarrow> int (length vs) < minReq"
    and v: "tracks l s'" "greedy (refs_of bits s) (set (leaves l)) {} vs"
      "int (length vs) \<le> max 0 (maxTips s)" "set (butlast vs) \<subseteq> D" "D \<subseteq> set vs"
      "\<forall>x \<in> set (leaves l) - D. refs_of bits s' x = refs_of bits s x - (\<Union>y \<in> D. refs_of bits s y)"
  have u: "err = None" "vs = us" using e by (cases err; simp)+
  show ?thesis using v m unfolding u option.case by (intro conjI exI [of _ D])
qed

text \<open>
  C25. \<open>SelectTips\<close> after a \<open>Reset\<close> is the greedy heuristic of the documentation: every selected
  tip confirms at least as many blocks that the tips before it do not confirm as any other tip
  of the frozen list. It returns distinct tips, at most \<open>maxTips\<close>, and at least the required
  number unless \<open>maxTips\<close> is smaller.
\<close>
theorem SelectTips_is_greedy:
  assumes "bitset_ok B bits" and "\<And>i. iteration_ok (its i)"
    and "SelectTips B its minReq (feed B metas s) = Val (Inr us) s'"
  shows "greedy (\<lambda>x. (edges (log_of metas))\<^sup>* `` {x}) (set (leaves (log_of metas))) {} us \<and>
    distinct us \<and> int (length us) \<le> max 0 (maxTips (feed B metas s)) \<and>
    (minReq \<le> int (length us) \<or> int (length us) = max 0 (maxTips (feed B metas s)))"
proof -
  let ?l = "log_of metas" and ?s = "feed B metas s"
  have t: "tracks ?l ?s" "refs_ok bits ?l ?s" using feed_tracks [OF assms(1)] by auto
  note v = SelectTips_Inr [OF assms(1,2) t(1) assms(3)]
  then have "greedy (\<lambda>x. (edges ?l)\<^sup>* `` {x}) (set (leaves ?l)) {} us"
    unfolding greedy_cones [OF t] by (rule conjunct1 [OF conjunct2])
  then show ?thesis using v greedy_distinct by metis
qed

lemma selectGreedy_enough:
  "minReq \<le> int (length ts) \<Longrightarrow>
     fst (fst (selectGreedy B below minReq its n i ts lastTip best wh)) = None"
proof (induction n arbitrary: i ts lastTip best wh)
  case (Suc n)
  then show ?case by (auto simp: Let_def split: sum.splits option.splits)
qed simp

text \<open>
  A context that is done before the first iteration ends a selection with its error, although no tip
  has been selected: the timeout is also considered with fewer than \<open>minRequiredTips\<close> tips.
\<close>

lemma SelectTips_expired:
  assumes "ctxErr (its 0) = Some e" and "1 \<le> maxTips s" and "1 \<le> minReq"
  shows "SelectTips B its minReq s = Val (Inl (ErrContext e)) s"
proof -
  obtain m where "nat (maxTips s) = Suc m"
    using assms(2) by (metis Suc_pred zero_less_nat_eq less_le_trans zero_less_one)
  then show ?thesis using assms by (simp add: SelectTips_def ctxDone_def)
qed

lemma SelectTips_one:
  assumes B: "bitset_ok B bits" and its: "\<And>i. iteration_ok (its i)" and t: "tracks l s"
    and tip: "leaves l \<noteq> []" and go: "\<not> ctxDone (its 0)" and n: "1 \<le> maxTips s"
  shows "\<exists>us s'. SelectTips B its 1 s = Val (Inr us) s' \<and> us \<noteq> []"
proof -
  obtain m where m: "nat (maxTips s) = Suc m" using n by (metis Suc_pred zero_less_nat_eq less_le_trans zero_less_one)
  let ?wh = "(tipsToList s, heap s)"
  obtain x where x: "x \<in> set (leaves l)" using tip by (metis last_in_set)
  have "fmdom' (trackedBlocks s) = ids l" using t by (simp add: tracks_def)
  then have "fmlookup (trackedBlocks s) x \<noteq> None"
    using x leaves_subset by (metis fmdom'_notI subsetD)
  then have "fmlookup (tipsToList s) x \<noteq> None" using tipsToList_lookup [OF t] x by simp
  then have ne: "tipsToList s \<noteq> fmempty" by auto
  have "\<exists>tc. selectTip B (tipOrder (its 0)) (pick (its 0)) ?wh = Inr tc"
  proof (cases "selectTip B (tipOrder (its 0)) (pick (its 0)) ?wh")
    case (Inl e)
    have "enumerates (tipOrder (its 0) m) m" for m using its by (simp add: iteration_ok_def)
    then show ?thesis using selectTip_Inl [OF _ Inl] ne by blast
  qed simp
  then obtain p c where pc: "selectTip B (tipOrder (its 0)) (pick (its 0)) ?wh = Inr (p, c)" by auto
  let ?r = "selectGreedy B (belowLimit s) 1 its m (Suc 0) [tbBlockID (heap s ! p)] (Some p) c ?wh"
  have r: "selectGreedy B (belowLimit s) 1 its (nat (maxTips s)) 0 [] None 0 ?wh = ?r"
    using go pc by (simp add: m)
  obtain err us h where e: "?r = ((err, us), h)" by (metis surj_pair)
  have "err = None" using selectGreedy_enough [of 1 "[tbBlockID (heap s ! p)]" B "belowLimit s" its m "Suc 0" "Some p" c ?wh] e by simp
  then have v: "SelectTips B its 1 s = Val (Inr us) (s\<lparr>heap := h\<rparr>)"
    using r e by (simp add: SelectTips_def)
  from SelectTips_Val [OF B its t v] have "1 \<le> int (length us) \<or> int (length us) = max 0 (maxTips s)"
    by (auto split: option.splits)
  then have "us \<noteq> []" using n by auto
  with v show ?thesis by blast
qed

text \<open>
  Whenever the selector has a tip and the call is not cancelled before it starts, a selection of
  at least one tip, the call the coordinator makes, returns tips and no error; a timeout that
  comes later does not turn it into one.
\<close>
theorem SelectTips_returns_tips:
  assumes "bitset_ok B bits" and "\<And>i. iteration_ok (its i)" and "leaves (log_of metas) \<noteq> []"
    and "\<not> ctxDone (its 0)" and "1 \<le> maxTips (feed B metas s)"
  shows "\<exists>us s'. SelectTips B its 1 (feed B metas s) = Val (Inr us) s' \<and> us \<noteq> []"
proof -
  have t: "tracks (log_of metas) (feed B metas s)" using feed_tracks [OF assms(1)] by blast
  show ?thesis
    using SelectTips_one [of B bits its "log_of metas" "feed B metas s", OF assms(1,2) t assms(3-5)] .
qed

lemma removeTip_maxTips: "maxTips (fold removeTip ps s) = maxTips s"
proof (induction ps arbitrary: s)
  case (Cons p ps)
  have "maxTips (removeTip p s) = maxTips s" by (simp add: removeTip_def split: option.split)
  then show ?case using Cons by simp
qed simp

lemma OnNewSolidBlock_maxTips: "maxTips (snd (OnNewSolidBlock B m s)) = maxTips s"
proof (cases "fmlookup (trackedBlocks s) (metaBlockID m) = None")
  case True
  show ?thesis
    unfolding OnNewSolidBlock_def Let_def True
    by (simp add: removeTip_maxTips del: fold_simps)
qed (simp add: OnNewSolidBlock_def)

lemma feed_maxTips: "maxTips (feed B metas s) = maxTips s"
proof -
  have "maxTips (fold (\<lambda>m s. snd (OnNewSolidBlock B m s)) metas s) = maxTips s" for s
    by (induction metas arbitrary: s) (simp_all add: OnNewSolidBlock_maxTips)
  then show ?thesis by (simp add: feed_def Heaviest_Reset_def)
qed

definition toy_blocks :: "inx_metadata list" where
  "toy_blocks = [toy_meta 1 [], toy_meta 2 [1], toy_meta 3 [1], toy_meta 4 [3]]"

lemma toy_log: "log_of toy_blocks =
    [(b32 4, [b32 3]), (b32 3, [b32 1]), (b32 2, [b32 1]), (b32 1, [])]"
  by (simp add: log_of_def track_def toy_meta_def toy_blocks_def)

theorem SelectTips_returns_tips_witness:
  "\<exists>us s'. SelectTips toy_bitset (\<lambda>_. toy_iteration) 1
     (feed toy_bitset toy_blocks (NewHeaviest 2 (\<lambda>_ _. False))) = Val (Inr us) s' \<and> us \<noteq> []"
proof (rule SelectTips_returns_tips [OF toy_bitset_ok toy_iteration_ok])
  show "leaves (log_of toy_blocks) \<noteq> []" by (simp add: toy_log)
  show "\<not> ctxDone toy_iteration" by (simp add: toy_iteration_def ctxDone_def)
  show "1 \<le> maxTips (feed toy_bitset toy_blocks (NewHeaviest 2 (\<lambda>_ _. False)))"
    by (simp add: feed_maxTips NewHeaviest_def Heaviest_Reset_def)
qed

text \<open>The selection on the instance, from a selector with four blocks and two tips.\<close>

definition toy_selector :: "nat list heaviest" where
  "toy_selector = feed toy_bitset toy_blocks (NewHeaviest 2 (\<lambda>_ _. False))"

lemma toy_selection:
  "\<exists>us s'. SelectTips toy_bitset (\<lambda>_. toy_iteration) 1 toy_selector = Val (Inr us) s' \<and> us \<noteq> []"
proof -
  have t: "tracks (log_of toy_blocks) toy_selector"
    using feed_tracks [OF toy_bitset_ok] unfolding toy_selector_def by blast
  have n: "1 \<le> maxTips toy_selector"
    by (simp add: toy_selector_def feed_maxTips NewHeaviest_def Heaviest_Reset_def)
  have "leaves (log_of toy_blocks) \<noteq> []" by (simp add: toy_log)
  from SelectTips_one [OF toy_bitset_ok toy_iteration_ok t this _ n] show ?thesis
    by (simp add: toy_iteration_def ctxDone_def)
qed

theorem SelectTips_is_greedy_witness:
  "\<exists>us s'. SelectTips toy_bitset (\<lambda>_. toy_iteration) 1 toy_selector = Val (Inr us) s' \<and> us \<noteq> [] \<and>
   greedy (\<lambda>x. (edges (log_of toy_blocks))\<^sup>* `` {x}) {b32 2, b32 4} {} us"
proof -
  obtain us s' where u: "SelectTips toy_bitset (\<lambda>_. toy_iteration) 1 toy_selector = Val (Inr us) s'" "us \<noteq> []"
    using toy_selection by blast
  have l: "set (leaves (log_of toy_blocks)) = {b32 2, b32 4}" by (simp add: toy_log)
  note g = SelectTips_is_greedy [OF toy_bitset_ok toy_iteration_ok u(1)[unfolded toy_selector_def]]
  show ?thesis using u conjunct1 [OF g] unfolding l by blast
qed

text \<open>
  C40. \<open>SelectTips\<close> does not leave the selector as it was: it keeps the tracked blocks and the tips,
  the selected ones included, but the tips it did not reference have lost the bits of those it
  did (\<open>D\<close>: all selected tips but possibly the last). Without a \<open>Reset\<close> a later selection no
  longer weighs the past cones.
\<close>
theorem SelectTips_consumes_references:
  assumes "bitset_ok B bits" and "\<And>i. iteration_ok (its i)"
    and "SelectTips B its minReq (feed B metas s) = Val (Inr us) s'"
  shows "tip_ids s' = leaves (log_of metas) \<and> fmdom' (trackedBlocks s') = ids (log_of metas) \<and>
    (\<exists>D. set (butlast us) \<subseteq> D \<and> D \<subseteq> set us \<and> (\<forall>x \<in> set (leaves (log_of metas)) - D.
       refs_of bits s' x = refs_of bits (feed B metas s) x - (\<Union>y \<in> D. refs_of bits (feed B metas s) y)))"
proof -
  let ?l = "log_of metas" and ?s = "feed B metas s"
  have t: "tracks ?l ?s" using feed_tracks [OF assms(1)] by blast
  note v = SelectTips_Inr [OF assms(1,2) t assms(3)]
  then have "tip_ids s' = leaves ?l" "fmdom' (trackedBlocks s') = ids ?l" by (simp_all add: tracks_def)
  then show ?thesis using v by metis
qed

theorem SelectTips_consumes_references_witness:
  "\<exists>us s' D. SelectTips toy_bitset (\<lambda>_. toy_iteration) 1 toy_selector = Val (Inr us) s' \<and> D \<subseteq> set us \<and>
   tip_ids s' = [b32 2, b32 4]"
proof -
  obtain us s' where u: "SelectTips toy_bitset (\<lambda>_. toy_iteration) 1 toy_selector = Val (Inr us) s'"
    using toy_selection by blast
  have l: "leaves (log_of toy_blocks) = [b32 2, b32 4]" by (simp add: toy_log)
  note g = SelectTips_consumes_references [OF toy_bitset_ok toy_iteration_ok u[unfolded toy_selector_def]]
  show ?thesis using u conjunct1 [OF g] unfolding l by blast
qed

end
