(* ===== verification/PluginProperties.thy ===== *)
theory PluginProperties
  imports Plugin LoopProperties SelectorProperties AppProperties
begin

text \<open>
  The plugin as a whole: its selector stays within the configured size and follows the graph of the
  blocks, its loop is the one of \<open>LoopProperties\<close>, and what it proposes is a tip of that graph or
  the last milestone.
\<close>

section \<open>The selector of the plugin\<close>

lemma onBlockSolid_tracks:
  assumes B: "bitset_ok B bits" and t: "tracks l (plSelector p)"
  shows "tracks (if int (length l) < m \<and> ValidParent meta then track meta l else l)
      (plSelector (onBlockSolid B m meta p)) \<and>
    (triggerNextMilestone (plLoop (onBlockSolid B m meta p)) \<longleftrightarrow>
       triggerNextMilestone (plLoop p) \<or>
       int (length l) < m \<and> ValidParent meta \<and> m \<le> int (length (track meta l)))"
proof -
  have n: "TrackedBlocks (plSelector p) = int (length l)" using tracks_length [OF t] by (simp add: TrackedBlocks_def)
  obtain k s where o: "OnNewSolidBlock B meta (plSelector p) = (k, s)" by fastforce
  then have "k = int (length (track meta l))" "tracks (track meta l) s"
    using OnNewSolidBlock_tracks [OF B t, of meta] by auto
  then show ?thesis using t n o by (auto simp: onBlockSolid_def Let_def sendTrigger_def)
qed

lemma track_length: "length (track meta l) \<le> Suc (length l)"
  by (simp add: track_def)

text \<open>The part of a step that concerns the loop is a step of the loop, or none.\<close>

lemma plugin_step_loop:
  assumes "plugin_step L B m interval p p'"
  shows "plLoop p' = plLoop p \<or> loop_step L interval (plLoop p) (plLoop p')"
  using assms
proof cases
  case (solid meta)
  then show ?thesis
    using loop_step.solid by (auto simp: onBlockSolid_def Let_def split: prod.splits)
next
  case (confirmed lmi ms)
  then show ?thesis
    by (auto simp: onConfirmedMilestoneChanged_def Let_def go_simps split: if_splits intro: loop_step.milestone)
qed auto

lemma plugin_reachable_loop:
  "plugin_reachable L B m interval p \<Longrightarrow> loop_reachable L interval (plLoop p)"
proof (induction rule: plugin_reachable.induct)
  case (start boot now latest l n below)
  then show ?case using loop_reachable.init by simp
next
  case (step p p')
  then show ?case using plugin_step_loop loop_reachable.step by metis
qed

lemma plugin_reachable_tracks:
  assumes B: "bitset_ok B bits"
  shows "plugin_reachable L B m interval p \<Longrightarrow> \<exists>l. tracks l (plSelector p) \<and> int (length l) \<le> max 0 m"
proof (induction rule: plugin_reachable.induct)
  case (start boot now latest l n below)
  have "tracks [] (NewHeaviest n below)" unfolding NewHeaviest_def by (rule tracks_Reset)
  then show ?case by (intro exI [of _ "[]"]) simp
next
  case (step p p')
  obtain l where l: "tracks l (plSelector p)" "int (length l) \<le> max 0 m" using step.IH by blast
  from step.hyps(2) show ?case
  proof cases
    case (solid meta)
    then show ?thesis
      using onBlockSolid_tracks [OF B l(1), of m meta] l(2) track_length [of meta l] by (auto split: if_splits)
  next
    case (confirmed lmi ms)
    then have "plSelector p' = Heaviest_Reset (plSelector p)"
      by (auto simp: onConfirmedMilestoneChanged_def Let_def go_simps split: if_splits)
    then show ?thesis using tracks_Reset(1) by (intro exI [of _ "[]"]) simp
  next
    case (select its r s)
    then have "tracks l s" using SelectTips_Val [OF B _ l(1)] by blast
    then show ?thesis using select l(2) by auto
  next
    case (loop la)
    then show ?thesis using l by auto
  qed
qed

text \<open>
  C16. The plugin stays within its limits. Whatever the node reports and in whatever order, the
  selector follows the graph of some blocks, at most \<open>MaxTrackedBlocks\<close> of them, its tips are the
  blocks without a child, and the loop never blocks.
\<close>
theorem plugin_stays_bounded:
  assumes "bitset_ok B bits" and "plugin_reachable L B maxTrackedBlocks interval p"
  shows "TrackedBlocks (plSelector p) \<le> max 0 maxTrackedBlocks \<and> loopPos (plLoop p) \<noteq> Blocked \<and>
    (\<exists>l. tracks l (plSelector p) \<and> TrackedBlocks (plSelector p) = int (length l))"
proof -
  obtain l where l: "tracks l (plSelector p)" "int (length l) \<le> max 0 maxTrackedBlocks"
    using plugin_reachable_tracks [OF assms] by blast
  have "TrackedBlocks (plSelector p) = int (length l)" using tracks_length [OF l(1)] by (simp add: TrackedBlocks_def)
  moreover have "loop_inv (plLoop p)" using plugin_reachable_loop [OF assms(2)] loop_reachable_inv by blast
  ultimately show ?thesis using l by (auto simp: loop_inv_def timer_ok_def)
qed

text \<open>An example: the plugin of \<open>demo_boot\<close> hears of a block.\<close>

definition demo_plugin :: "nat list plugin" where
  "demo_plugin =
     onBlockSolid toy_bitset 1 (toy_meta 1 []) \<lparr>plSelector = NewHeaviest 2 (\<lambda>_ _. False), plLoop = demo_boot\<rparr>"

lemma demo_plugin_reachable: "plugin_reachable L toy_bitset 1 5000000000 demo_plugin"
proof -
  have "plugin_reachable L toy_bitset 1 5000000000
      \<lparr>plSelector = NewHeaviest 2 (\<lambda>_ _. False), plLoop = demo_boot\<rparr>"
    by (rule plugin_reachable.start [where boot = "Some (7, b32 106)" and now = 0])
       (simp add: initializeEvents_def demo_boot_def loop_start_def Let_def)
  then show ?thesis
    unfolding demo_plugin_def by (rule plugin_reachable.step) (rule plugin_step.solid)
qed

theorem plugin_stays_bounded_witness:
  "TrackedBlocks (plSelector demo_plugin) \<le> 1 \<and> loopPos (plLoop demo_plugin) \<noteq> Blocked"
  using plugin_stays_bounded [OF toy_bitset_ok demo_plugin_reachable] by simp

text \<open>
  Which blocks are tracked, and when the next milestone is triggered early. A solid block is
  given to the selector exactly if the limit is not reached and it is a valid parent, and the loop
  is triggered exactly when such a block makes the selector full; otherwise nothing changes.
\<close>
theorem onBlockSolid_triggers_when_full:
  assumes "bitset_ok B bits" and "tracks l (plSelector p)"
  shows "if int (length l) < m \<and> ValidParent meta
    then tracks (track meta l) (plSelector (onBlockSolid B m meta p)) \<and>
      (triggerNextMilestone (plLoop (onBlockSolid B m meta p)) \<longleftrightarrow>
         triggerNextMilestone (plLoop p) \<or> m \<le> int (length (track meta l)))
    else onBlockSolid B m meta p = p"
proof -
  have "TrackedBlocks (plSelector p) = int (length l)"
    using tracks_length [OF assms(2)] by (simp add: TrackedBlocks_def)
  then show ?thesis using onBlockSolid_tracks [OF assms, of m meta] by (auto simp: onBlockSolid_def)
qed

theorem onBlockSolid_triggers_when_full_witness:
  "triggerNextMilestone (plLoop demo_plugin)"
proof -
  let ?p = "\<lparr>plSelector = NewHeaviest 2 (\<lambda>_ _. False), plLoop = demo_boot\<rparr> :: nat list plugin"
  have "tracks [] (plSelector ?p)" unfolding NewHeaviest_def by (simp add: tracks_Reset)
  from onBlockSolid_triggers_when_full [OF toy_bitset_ok this, of 1 "toy_meta 1 []"] show ?thesis
    by (simp add: demo_plugin_def ValidParent_def toy_meta_def track_def)
qed

section \<open>Proposals\<close>

lemma ProposeParent_None:
  assumes "ProposeParent L env i b c = Val None c'"
  shows "\<exists>tx meta. MarshalTx L (coCommittee c) (Parent i b) = Inr tx \<and> blockMetadata env b = Some meta \<and>
    ValidParent meta \<and> last (effects c') = BroadcastTxSync tx \<and> broadcastTxSync env tx = Some CodeTypeOK"
  using assms by (auto simp: ProposeParent_def Let_def split: if_splits sum.splits option.splits)

text \<open>Without a configured number of tips the selection is empty and no error.\<close>

lemma SelectTips_no_maxTips:
  assumes "maxTips s \<le> 0"
  shows "SelectTips B its 1 s = Val (Inr []) s"
  using assms by (simp add: SelectTips_def)

lemma SelectTips_tips:
  assumes B: "bitset_ok B bits" and its: "\<And>i. iteration_ok (its i)" and t: "tracks l s"
    and v: "SelectTips B its 1 s = Val r s'"
  shows "tracks l s' \<and>
    (case r of Inr us \<Rightarrow> set us \<subseteq> set (leaves l) \<and> (us \<noteq> [] \<longrightarrow> leaves l \<noteq> [] \<and> \<not> ctxDone (its 0))
     | Inl e \<Rightarrow> leaves l = [] \<or> ctxDone (its 0))"
proof -
  have t': "tracks l s'" using SelectTips_Val [OF B its t v] by blast
  have room: "1 \<le> maxTips s" if "r \<noteq> Inr []"
    using SelectTips_no_maxTips [of s B its] v that by (cases "maxTips s \<le> 0") auto
  show ?thesis
  proof (cases r)
    case (Inl e)
    then have "leaves l = [] \<or> ctxDone (its 0)"
      using SelectTips_one [of B bits its l s, OF B its t] v room by fastforce
    with t' Inl show ?thesis by simp
  next
    case (Inr us)
    have "greedy (refs_of bits s) (set (leaves l)) {} us"
      using SelectTips_Inr [of B bits its l s, OF B its t] v Inr by blast
    then have "set us \<subseteq> set (leaves l)" using greedy_distinct by fastforce
    moreover have "\<not> ctxDone (its 0)" if "us \<noteq> []"
      using SelectTips_expired [of its _ s 1 B] room v Inr that by (cases "ctxErr (its 0)") (auto simp: ctxDone_def)
    ultimately show ?thesis using t' Inr by auto
  qed
qed

text \<open>
  C27. What is proposed. When \<open>proposeParent\<close> succeeds for a milestone that is not confirmed yet, it has
  broadcast a \<open>Parent\<close> transaction for the next index, for a block that the node reports as a
  valid parent. That block is the block of the last milestone if the tracked graph has no tip or the
  context was done before the first tip was selected, even if there are tips; otherwise it is a
  tip of the tracked graph.
\<close>
theorem proposeParent_proposes_tip:
  assumes "bitset_ok B bits" and "\<And>i. iteration_ok (its i)" and "\<And>n. 0 < n \<Longrightarrow> rnd n < n" and "tracks l s"
    and "proposeParent L B env cmi now slept its rnd info (s, c) = Val None (s', c')"
    and "cmi \<le> infoIndex info"
  shows "tracks l s' \<and>
    (\<exists>b tx meta. MarshalTx L (coCommittee c) (Parent (infoIndex info + 1) b) = Inr tx \<and>
       last (effects c') = BroadcastTxSync tx \<and> blockMetadata env b = Some meta \<and> ValidParent meta \<and>
       (if leaves l = [] \<or> ctxDone (its 0) then b = infoBlockID info else b \<in> set (leaves l)))"
proof -
  obtain r where r: "SelectTips B its 1 s = Val r s'" "r \<noteq> Inl (ErrContext Canceled)"
    using assms(5,6) by (auto simp: proposeParent_def Let_def split: if_splits exec.splits)
  define ts where "ts = (case r of Inr ts \<Rightarrow> ts | Inl e \<Rightarrow> [infoBlockID info])"
  have p: "ts \<noteq> []" "ProposeParent L env (infoIndex info + 1) (ts ! rnd (length ts)) c = Val None c'"
    using assms(5,6) r by (auto simp: proposeParent_def Let_def ts_def split: if_splits exec.splits)
  let ?b = "ts ! rnd (length ts)"
  have b: "?b \<in> set ts" using p(1) assms(3) by simp
  note st = SelectTips_tips [OF assms(1,2,4) r(1)]
  have "if leaves l = [] \<or> ctxDone (its 0) then ?b = infoBlockID info else ?b \<in> set (leaves l)"
    using b st p(1) by (cases r) (auto simp: ts_def)
  then show ?thesis using ProposeParent_None [OF p(2)] st by blast
qed

theorem proposeParent_proposes_tip_witness:
  "\<exists>env c s' c'. proposeParent TL toy_bitset env 6 0 True (\<lambda>_. toy_iteration) (\<lambda>_. 0)
       \<lparr>infoIndex = 6, infoTimestamp = 0, infoBlockID = b32 106\<rparr> (toy_selector, c) = Val None (s', c') \<and>
     (\<exists>b \<in> {b32 2, b32 4}. last (effects c') = BroadcastTxSync (demo_tx (Parent 7 b)))"
proof -
  let ?i = "\<lparr>infoIndex = 6, infoTimestamp = 0, infoBlockID = b32 106\<rparr>"
  let ?env = "demo_node\<lparr>blockMetadata := (\<lambda>b. Some \<lparr>metaBlockID = b, metaParents = [], metaSolid = True,
    metaReferencedByMilestoneIndex = 0, metaShouldReattach = False\<rparr>)\<rparr>"
  obtain c0 where "ready TL c0" and c0: "coCommittee c0 = demo_com 1" using demo_start [of 1] by metis
  let ?c = "c0\<lparr>started := True\<rparr>"
  obtain us s' where u: "SelectTips toy_bitset (\<lambda>_. toy_iteration) 1 toy_selector = Val (Inr us) s'" "us \<noteq> []"
    using toy_selection by blast
  obtain c' where "ProposeParent TL ?env 7 (us ! 0) ?c = Val None c'"
    using c0 by (simp add: ProposeParent_def demo_marshal Let_def demo_node_def ValidParent_def CodeTypeOK_def)
  then have p: "proposeParent TL toy_bitset ?env 6 0 True (\<lambda>_. toy_iteration) (\<lambda>_. 0) ?i (toy_selector, ?c) =
      Val None (s', c')"
    using u by (simp add: proposeParent_def)
  have t: "tracks (log_of toy_blocks) toy_selector"
    using feed_tracks [OF toy_bitset_ok] unfolding toy_selector_def by blast
  have l: "set (leaves (log_of toy_blocks)) = {b32 2, b32 4}" "leaves (log_of toy_blocks) \<noteq> []"
    by (simp_all add: toy_log)
  from proposeParent_proposes_tip [OF toy_bitset_ok toy_iteration_ok _ t p, unfolded l(1)]
  have "\<exists>b \<in> {b32 2, b32 4}. last (effects c') = BroadcastTxSync (demo_tx (Parent 7 b))"
    using l(2) c0 by (auto simp: demo_marshal toy_iteration_def ctxDone_def)
  then show ?thesis using p by blast
qed

text \<open>With \<open>MaxTips\<close> configured as zero or less, every proposal that gets that far panics.\<close>

lemma proposeParent_panics_without_tips:
  assumes "maxTips s \<le> 0" and "cmi \<le> infoIndex info" and "slept"
  shows "proposeParent L B env cmi now slept its rnd info (s, c) = Raise ''invalid argument to Intn'' (s, c)"
  using assms by (simp add: proposeParent_def SelectTips_no_maxTips not_less)

end
