(* ===== verification/Worker.thy ===== *)
theory Worker
  imports ConfigProperties ResumeProperties PluginProperties
begin

text \<open>
  The background worker of the plugin, \<open>run\<close> of \<open>components/decoo/component.go\<close>: it configures
  Tendermint, initializes the coordinator, creates the Tendermint node, hands the first milestone
  to the loop, starts coordinator and node, and runs the loop until the daemon stops; another
  goroutine waits for the coordinator. \<open>log.Panicf\<close> is a \<open>Raise\<close> with the text of its format. The
  constructor of the Tendermint node replays blocks and so changes the coordinator; it is the
  argument \<open>weNewNode\<close>, whose result tells whether it returned without an error.
\<close>

section \<open>State and environment\<close>

record worker =
  wkSaved :: "config_effect list"
  wkCoordinator :: coordinator
  wkLoop :: loop_state

record worker_env =
  weParameters :: tm_parameters
  weInterval :: nat
  weFiles :: config_env
  weValidators :: "bytes list"
  weFlags :: config
  weNode :: inx
  weInit :: init_env
  weLoadsNodeKey :: bool
  weParsesLevel :: bool
  weNewNode :: "coordinator \<Rightarrow> bool coo"
  weNow :: int
  weLatest :: "milestone option option"
  weNodeStarts :: bool

section \<open>Operations\<close>

datatype node_error = ErrNodeKeyFile | ErrLogLevel | ErrNewNode

text \<open>\<open>newTendermintNode\<close> of \<open>tendermint.go\<close>\<close>

definition newTendermintNode :: "worker_env \<Rightarrow> coordinator \<Rightarrow> node_error option coo" where
  "newTendermintNode W c =
     (if \<not> weLoadsNodeKey W then Val (Some ErrNodeKeyFile) c
      else if \<not> weParsesLevel W then Val (Some ErrLogLevel) c
      else exec_bind (weNewNode W c) (\<lambda>ok c. Val (if ok then None else Some ErrNewNode) c))"

definition startNode :: "worker_env \<Rightarrow> coordinator \<Rightarrow> unit coo" where
  "startNode W c =
     exec_bind (Start c) (\<lambda>u c.
       if weNodeStarts W then Val () c else Raise ''failed to start Tendermint node'' c)"

text \<open>Up to the call of \<open>coordinatorLoop\<close>; \<open>None\<close> waits forever.\<close>

definition startWorker :: "'z tx_lib_scheme \<Rightarrow> worker_env \<Rightarrow> coordinator \<Rightarrow> (worker, unit) exec option" where
  "startWorker L W c =
     (let interval = weInterval W; l0 = loop_start interval;
          at = (\<lambda>saved c l. \<lparr>wkSaved = saved, wkCoordinator = c, wkLoop = l\<rparr>)
      in case initTendermintConfig L (weParameters W) (weFiles W) (weValidators W) of
        (saved, Inl e) \<Rightarrow> Some (Raise ''failed to initialize Tendermint config'' (at saved c l0))
      | (saved, Inr conf) \<Rightarrow>
          (case initCoordinatorState L (weNode W) (weFlags W) (weInit W) c of
             None \<Rightarrow> None
           | Some (Raise e c1) \<Rightarrow> Some (Raise e (at saved c1 l0))
           | Some (Val (Some e) c1) \<Rightarrow> Some (Raise ''failed to initialize coordinator'' (at saved c1 l0))
           | Some (Val None c1) \<Rightarrow>
               (case newTendermintNode W c1 of
                  Raise e c2 \<Rightarrow> Some (Raise e (at saved c2 l0))
                | Val (Some e) c2 \<Rightarrow> Some (Raise ''failed to create Tendermint node'' (at saved c2 l0))
                | Val None c2 \<Rightarrow>
                    (case initializeEvents L
                        (if bootstrap (weFlags W)
                         then Some (startIndex (weFlags W), startMilestoneBlockID (weFlags W)) else None)
                        (weNow W) (weLatest W) l0 of
                       None \<Rightarrow> None
                     | Some (Panic e) \<Rightarrow> Some (Raise e (at saved c2 l0))
                     | Some (Ret (Inl e)) \<Rightarrow> Some (Raise ''failed to initialize'' (at saved c2 l0))
                     | Some (Ret (Inr l)) \<Rightarrow>
                         (case startNode W c2 of
                            Raise e c3 \<Rightarrow> Some (Raise e (at saved c3 l))
                          | Val u c3 \<Rightarrow> Some (Val () (at saved c3 l)))))))"

text \<open>After the loop has returned: the node is stopped, then the coordinator.\<close>

definition stopWorker :: "worker \<Rightarrow> (worker, unit) exec" where
  "stopWorker w =
     (case Stop (wkCoordinator w) of
        Raise e c \<Rightarrow> Raise e (w\<lparr>wkCoordinator := c\<rparr>)
      | Val u c \<Rightarrow> Val () (w\<lparr>wkCoordinator := c\<rparr>))"

text \<open>The goroutine that waits for the coordinator; \<open>None\<close> while it waits.\<close>

definition watchCoordinator :: "bool \<Rightarrow> coordinator \<Rightarrow> unit coo option" where
  "watchCoordinator daemonStopped c =
     Option.bind (Coordinator_Wait c) (\<lambda>r. Some
       (exec_bind r (\<lambda>u c. if daemonStopped then Val () c else Raise ''coordinator stopped unexpectedly'' c)))"

section \<open>What a worker that has started has done\<close>

lemma startWorker_Val:
  assumes "startWorker L W c = Some (Val () w)"
  shows "\<exists>conf c1 c2. initTendermintConfig L (weParameters W) (weFiles W) (weValidators W) = (wkSaved w, Inr conf) \<and>
    initCoordinatorState L (weNode W) (weFlags W) (weInit W) c = Some (Val None c1) \<and>
    weNewNode W c1 = Val True c2 \<and> Start c2 = Val () (wkCoordinator w) \<and>
    initializeEvents L (if bootstrap (weFlags W)
        then Some (startIndex (weFlags W), startMilestoneBlockID (weFlags W)) else None)
      (weNow W) (weLatest W) (loop_start (weInterval W)) = Some (Ret (Inr (wkLoop w)))"
  using assms
  by (auto simp: startWorker_def startNode_def newTendermintNode_def Let_def go_simps
      split: prod.splits sum.splits option.splits exec.splits go.splits if_splits)

text \<open>The first value in the channel of the loop when the plugin bootstraps.\<close>

definition boot_info :: "worker_env \<Rightarrow> milestone_info" where
  "boot_info W = \<lparr>infoIndex = startIndex (weFlags W) - 1, infoTimestamp = weNow W,
     infoBlockID = startMilestoneBlockID (weFlags W)\<rparr>"

lemma boot_first:
  assumes "initCoordinatorState L (weNode W) (weFlags W) (weInit W) c = Some (Val None c1)"
    and "initializeEvents L (if bootstrap (weFlags W)
        then Some (startIndex (weFlags W), startMilestoneBlockID (weFlags W)) else None)
      (weNow W) (weLatest W) (loop_start (weInterval W)) = Some (Ret (Inr l))"
  shows "bootstrap (weFlags W) \<longrightarrow> confirmedMilestoneSignal l = Some (boot_info W) \<and>
    infoIndex (boot_info W) + 1 = Coordinator_MilestoneIndex c1 \<and>
    infoBlockID (boot_info W) = LastMilestoneBlockID (State (deliverState c1))"
proof
  assume b: "bootstrap (weFlags W)"
  obtain env force where "Bootstrap L env force (startIndex (weFlags W)) (startMilestoneID (weFlags W))
      (startMilestoneBlockID (weFlags W)) c = Val None c1"
    using initCoordinatorState_None [OF assms(1)] b by auto
  from initState_Val [OF Bootstrap_None [OF this]]
  have "State (deliverState c1) = State (checkState c1)" "MilestoneIndex (State (checkState c1)) = startIndex (weFlags W)"
    "LastMilestoneBlockID (State (deliverState c1)) = startMilestoneBlockID (weFlags W)"
    by simp_all
  moreover have "(loop_start (weInterval W))\<lparr>confirmedMilestone := boot_info W,
      confirmedMilestoneSignal := Some (boot_info W)\<rparr> = l"
    using assms(2) b by (simp add: initializeEvents_def Let_def loop_start_def boot_info_def)
  then have "confirmedMilestoneSignal l = Some (boot_info W)"
    by (metis loop_state.select_convs(6) loop_state.surjective loop_state.update_convs(6))
  ultimately show "confirmedMilestoneSignal l = Some (boot_info W) \<and>
    infoIndex (boot_info W) + 1 = Coordinator_MilestoneIndex c1 \<and>
    infoBlockID (boot_info W) = LastMilestoneBlockID (State (deliverState c1))"
    by (simp add: boot_info_def Coordinator_MilestoneIndex_def)
qed

lemma provideCoordinator_Inr:
  assumes "provideCoordinator L keySet readPem keyEnv ranges n keyCount m = Ret (Inr c)"
  shows "\<exists>k com. privateKeyFromEnvironment L readPem keyEnv = Inr k \<and> New L com m = Inr c \<and>
    com = \<lparr>privateKey = k, com_n = int n, com_f = max_faulty (int n), com_t = uint keyCount, manager = keySet ranges\<rparr>"
  using assms by (auto simp: provideCoordinator_def go_simps split: sum.splits)

lemma New_fields:
  assumes "New L com m = Inr c"
  shows "coCommittee c = com" and "F c + 1 \<le> int (BlockMaxParents L) - 1" and "com_n com \<le> MaxSignaturesInAMilestone L"
  using assms by (auto simp: New_Inr_iff F_def)

lemma initialized_committee:
  assumes "initCoordinatorState L env cfg ie c = Some (Val None c1)"
  shows "coCommittee c1 = coCommittee c"
proof (cases "bootstrap cfg")
  case True
  then show ?thesis
    using initCoordinatorState_None [OF assms] by (auto dest!: Bootstrap_None initState_Val(5) simp: base_def)
next
  case False
  then obtain r where "InitState L r c = Val None c1"
    using initCoordinatorState_None [OF assms] resumeFrom_None by metis
  then show ?thesis by (auto dest!: InitState_None initState_Val(5) simp: base_def)
qed

text \<open>
  C11. A worker that reaches its loop has put its parts together consistently. The coordinator signs
  with the key of the environment, tolerates the faulty members that the number of validators
  allows and asks for the configured number of signatures; it is started and has come there by a
  run from a state in which the theorems about runs apply, if Tendermint replays by consensus
  calls; the loop is in a state from which its invariants hold; the chain of the Tendermint node is
  that of the network. When bootstrapping, the loop is about to receive the milestone before the
  first one, so the first proposal is for the index the coordinator has been bootstrapped with,
  and it falls back to the last milestone of its state.
\<close>
theorem started_worker_is_consistent:
  assumes "provideCoordinator L keySet readPem keyEnv ranges n keyCount m = Ret (Inr c)"
    and "startWorker L W c = Some (Val () w)" and "json_ok L"
    and "\<And>c1 c2. weNewNode W c1 = Val True c2 \<Longrightarrow> \<exists>ks. run L flag ver c1 ks c2"
  shows "(\<exists>k. privateKeyFromEnvironment L readPem keyEnv = Inr k \<and>
      Coordinator_PublicKey (wkCoordinator w) = bytes_of (pubkey k)) \<and>
    F (wkCoordinator w) = max_faulty (int n) \<and> T (wkCoordinator w) = uint keyCount \<and>
    started (wkCoordinator w) \<and> loop_reachable L (weInterval W) (wkLoop w) \<and>
    ChainID (weParameters W) = networkName (weFiles W) \<and>
    (\<exists>c1 ks. ready L c1 \<and> run L flag ver c1 ks (wkCoordinator w) \<and>
       (bootstrap (weFlags W) \<longrightarrow>
          confirmedMilestoneSignal (wkLoop w) = Some (boot_info W) \<and>
          infoIndex (boot_info W) + 1 = Coordinator_MilestoneIndex c1 \<and>
          infoBlockID (boot_info W) = LastMilestoneBlockID (State (deliverState c1))))"
proof -
  obtain k com where k: "privateKeyFromEnvironment L readPem keyEnv = Inr k" and N: "New L com m = Inr c"
    and com: "com = \<lparr>privateKey = k, com_n = int n, com_f = max_faulty (int n), com_t = uint keyCount, manager = keySet ranges\<rparr>"
    using provideCoordinator_Inr [OF assms(1)] by blast
  obtain conf c1 c2 where s: "initTendermintConfig L (weParameters W) (weFiles W) (weValidators W) = (wkSaved w, Inr conf)"
    "initCoordinatorState L (weNode W) (weFlags W) (weInit W) c = Some (Val None c1)"
    "weNewNode W c1 = Val True c2" "Start c2 = Val () (wkCoordinator w)"
    and l: "initializeEvents L (if bootstrap (weFlags W)
        then Some (startIndex (weFlags W), startMilestoneBlockID (weFlags W)) else None)
      (weNow W) (weLatest W) (loop_start (weInterval W)) = Some (Ret (Inr (wkLoop w)))"
    using startWorker_Val [OF assms(2)] by blast
  obtain ks where "run L flag ver c1 ks c2" using assms(4) [OF s(3)] by blast
  then have r: "run L flag ver c1 ks (wkCoordinator w)" using run.loc [OF _ local_step.start [OF s(4)]] by blast
  have cc: "coCommittee (wkCoordinator w) = com"
    using run_committee [OF r assms(3)] initialized_committee [OF s(2)] New_fields(1) [OF N] by simp
  have "wkCoordinator w = c2\<lparr>started := True\<rparr>" using s(4) by (simp add: Start_def)
  then have "started (wkCoordinator w)" by simp
  moreover have "loop_reachable L (weInterval W) (wkLoop w)" using loop_reachable.init [OF l] .
  moreover have "ChainID (weParameters W) = networkName (weFiles W)"
    using initTendermintConfig_Inr [OF s(1)] by blast
  moreover have "ready L c1" using initialized_ready [OF N s(2)] .
  moreover have "F (wkCoordinator w) = max_faulty (int n)" "T (wkCoordinator w) = uint keyCount"
    "Coordinator_PublicKey (wkCoordinator w) = bytes_of (pubkey k)"
    by (simp_all add: F_def T_def Coordinator_PublicKey_def PublicKey_def cc com)
  moreover note boot_first [OF s(2) l]
  ultimately show ?thesis using r k by blast
qed

text \<open>An example that bootstraps at index 7 on a fresh chain.\<close>

definition demo_worker :: worker_env where
  "demo_worker =
     \<lparr>weParameters = demo_parameters, weInterval = 5000000000, weFiles = demo_config_env, weValidators = [[0x61]],
      weFlags = \<lparr>bootstrap = True, startIndex = 7, startMilestoneID = b32 6, startMilestoneBlockID = b32 106,
        bootstrapForce = False, SingleNode = False\<rparr>,
      weNode = demo_node, weInit = demo_init, weLoadsNodeKey = True, weParsesLevel = True,
      weNewNode = (\<lambda>c. Val True c), weNow = 0, weLatest = None, weNodeStarts = True\<rparr>"

theorem started_worker_is_consistent_witness:
  "\<exists>c w c1 ks. provideCoordinator TL (\<lambda>rs i. {b32 1}) (\<lambda>p. None) (Some (Byte32_String (b32 1))) [] 1 1 0 = Ret (Inr c) \<and>
     startWorker TL demo_worker c = Some (Val () w) \<and>
     F (wkCoordinator w) = 0 \<and> T (wkCoordinator w) = 1 \<and> started (wkCoordinator w) \<and> ready TL c1 \<and> run TL demo_flag 2 c1 ks (wkCoordinator w) \<and>
     Coordinator_MilestoneIndex c1 = 7"
proof -
  obtain c where c: "provideCoordinator TL (\<lambda>rs i. {b32 1}) (\<lambda>p. None) (Some (Byte32_String (b32 1))) [] 1 1 0 = Ret (Inr c)"
    by (simp add: provideCoordinator_def privateKeyFromEnvironment_def privateKeyFromStringOrFile_text
        NewCommitteeFromManager_def maxFaulty_def max_faulty_def New_def toy_tx_fields)
  obtain saved conf g where "initTendermintConfig TL demo_parameters demo_config_env [[0x61]] = (saved, Inr conf)"
    "SaveGenesis g \<in> set saved"
    using demo_configured by blast
  moreover obtain c1 where "Bootstrap TL demo_node False 7 (b32 6) (b32 106) c = Val None c1"
  proof -
    let ?st = "\<lparr>MilestoneHeight = 0, MilestoneIndex = 7, LastMilestoneID = b32 6, LastMilestoneBlockID = b32 106\<rparr>"
    obtain c1 where "initState TL 0 ?st c = Val () c1" using initState_total [OF toy_tx_ok(1) [of "()"]] by blast
    then have "Bootstrap TL demo_node False 7 (b32 6) (b32 106) c = Val None c1"
      by (simp add: Bootstrap_def validateLatest_def demo_node_def)
    then show thesis using that by blast
  qed
  ultimately obtain w where w: "startWorker TL demo_worker c = Some (Val () w)"
    by (simp add: startWorker_def demo_worker_def initCoordinatorState_def demo_solid
        newTendermintNode_def initializeEvents_def loop_start_def startNode_def Start_def Let_def)
  have "\<exists>ks. run TL demo_flag 2 c1 ks c2" if "weNewNode demo_worker c1 = Val True c2" for c1 c2
    using that run.nocall [of TL demo_flag 2 c1] by (auto simp: demo_worker_def)
  from started_worker_is_consistent [OF c w toy_tx_ok(1) this] show ?thesis
    using c w by (fastforce simp: demo_worker_def boot_info_def max_faulty_def)
qed

text \<open>A coordinator that a panic has stopped takes the plugin with it, unless the daemon stops anyway.\<close>

lemma panic_reaches_plugin:
  assumes "stopOnPanic r = Raise e c'" and "life (exec_state r) = life c" and "\<not> stopped c"
  shows "watchCoordinator False c' = Some (Raise ''coordinator stopped unexpectedly'' c')"
  using stopOnPanic_stops [OF assms(1,2)] assms(3) by (simp add: watchCoordinator_def)

end
