(* ===== verification/SelectorConcurrent.thy ===== *)
theory SelectorConcurrent
  imports SelectorProperties
begin

text \<open>
  Selections that run while blocks arrive. \<open>SelectTips\<close> holds the lock of the selector only while it
  copies the list of tips; \<open>OnNewSolidBlock\<close> and \<open>Reset\<close> may run at any point of its loops. Here a
  selection is a sequence of steps that read or write a single tracked block, and other operations
  come in between; the queue of proposals runs one selection at a time.
\<close>

section \<open>The steps of a selection\<close>

text \<open>
  The local variables of \<open>selectGreedy\<close>, and where it is: at the head of its loop, in the loop of
  \<open>referenceTip\<close> over the rest of the working list, or in the loop of \<open>selectTip\<close> with the best tips
  so far and their count.
\<close>

record selection =
  slBlocks :: working_list
  slTips :: "block_id list"
  slLast :: "nat option"
  slBest :: nat
  slCount :: nat

datatype select_pos = Deciding | Referencing nat "block_id list" | Scanning "block_id list" "nat list" nat

definition scan_start :: "iteration \<Rightarrow> selection \<Rightarrow> select_pos" where
  "scan_start it sl = Scanning (tipOrder it (slBlocks sl)) [] 0"

definition select_enough :: "int \<Rightarrow> selection \<Rightarrow> bool" where
  "select_enough minReq sl \<longleftrightarrow> minReq \<le> int (length (slTips sl))"

text \<open>After the scan: the end of \<open>selectTip\<close> and the rest of the iteration.\<close>

definition select_end ::
    "(nat \<Rightarrow> nat \<Rightarrow> bool) \<Rightarrow> int \<Rightarrow> iteration \<Rightarrow> selection \<Rightarrow> 'b tracked_block list \<Rightarrow> nat list \<Rightarrow> nat
     \<Rightarrow> (select_error option \<times> block_id list) + selection" where
  "select_end below minReq it sl h ts c =
     (if ts = [] then Inl (if select_enough minReq sl then None else Some ErrNoTipsAvailable, slTips sl)
      else
        let t = ts ! pick it (length ts); best = (if slCount sl = 0 then c else slBest sl)
        in if select_enough minReq sl \<and> below c best then Inl (None, slTips sl)
           else Inr (sl\<lparr>slTips := slTips sl @ [tbBlockID (h ! t)], slLast := Some t, slBest := best,
                        slCount := Suc (slCount sl)\<rparr>))"

fun select_step ::
    "'b bitset_lib \<Rightarrow> int \<Rightarrow> (nat \<Rightarrow> nat \<Rightarrow> bool) \<Rightarrow> int \<Rightarrow> iteration \<Rightarrow> selection \<times> select_pos \<Rightarrow> 'b tracked_block list
     \<Rightarrow> ((select_error option \<times> block_id list) + selection \<times> select_pos) \<times> 'b tracked_block list" where
  "select_step B m below minReq it (sl, Deciding) h =
     (if m \<le> int (slCount sl) then (Inl (None, slTips sl), h)
      else if ctxDone it
      then (Inl (if select_enough minReq sl then None else Some (ErrContext (the (ctxErr it))), slTips sl), h)
      else (case slLast sl of
              None \<Rightarrow> (Inr (sl, scan_start it sl), h)
            | Some t \<Rightarrow>
                let blocks = fmdrop (tbBlockID (h ! t)) (slBlocks sl)
                in (Inr (sl\<lparr>slBlocks := blocks\<rparr>, Referencing t (refOrder it blocks)), h)))"
| "select_step B m below minReq it (sl, Referencing t (b # bs)) h =
     (let q = the (fmlookup (slBlocks sl) b)
      in (Inr (sl, Referencing t bs),
          h[q := (h ! q)\<lparr>tbRefs := bs_InPlaceDifference B (tbRefs (h ! q)) (tbRefs (h ! t))\<rparr>]))"
| "select_step B m below minReq it (sl, Referencing t []) h = (Inr (sl, scan_start it sl), h)"
| "select_step B m below minReq it (sl, Scanning (b # bs) ts n) h =
     (let p = the (fmlookup (slBlocks sl) b); c = bs_Count B (tbRefs (h ! p))
      in (Inr (sl, if c > n then Scanning bs [p] c else if c = n then Scanning bs (ts @ [p]) n
                   else Scanning bs ts n), h))"
| "select_step B m below minReq it (sl, Scanning [] ts n) h =
     (case select_end below minReq it sl h ts n of
        Inl r \<Rightarrow> (Inl r, h) | Inr sl' \<Rightarrow> (Inr (sl', Deciding), h))"

text \<open>
  A running selection and what ends it. At any point the selector is told of blocks or reset.
\<close>

inductive concurrent for B minReq its where
  block: "concurrent B minReq its sp (snd (OnNewSolidBlock B meta s)) r s' \<Longrightarrow> concurrent B minReq its sp s r s'"
| reset: "concurrent B minReq its sp (Heaviest_Reset s) r s' \<Longrightarrow> concurrent B minReq its sp s r s'"
| move: "select_step B (maxTips s) (belowLimit s) minReq (its (slCount (fst sp))) sp (heap s) = (Inr sp1, h) \<Longrightarrow>
    concurrent B minReq its sp1 (s\<lparr>heap := h\<rparr>) r s' \<Longrightarrow> concurrent B minReq its sp s r s'"
| finish: "select_step B (maxTips s) (belowLimit s) minReq (its (slCount (fst sp))) sp (heap s) = (Inl r, h) \<Longrightarrow>
    concurrent B minReq its sp s r (s\<lparr>heap := h\<rparr>)"

definition start_selection :: "'b heaviest \<Rightarrow> selection \<times> select_pos" where
  "start_selection s =
     (\<lparr>slBlocks = tipsToList s, slTips = [], slLast = None, slBest = 0, slCount = 0\<rparr>, Deciding)"

section \<open>The steps together\<close>

text \<open>What a selection that is left alone returns from here, in terms of the loops of the code.\<close>

definition scan_rest ::
    "'b bitset_lib \<Rightarrow> int \<Rightarrow> (nat \<Rightarrow> nat \<Rightarrow> bool) \<Rightarrow> int \<Rightarrow> (nat \<Rightarrow> iteration) \<Rightarrow> selection
     \<Rightarrow> block_id list \<Rightarrow> nat list \<Rightarrow> nat \<Rightarrow> 'b tracked_block list \<Rightarrow> select_error option \<times> block_id list" where
  "scan_rest B m below minReq its sl bs ts n h =
     (case bestTips B (slBlocks sl) h bs (ts, n) of (ts', n') \<Rightarrow>
        (case select_end below minReq (its (slCount sl)) sl h ts' n' of
           Inl r \<Rightarrow> r
         | Inr sl' \<Rightarrow> fst (selectGreedy B below minReq its (nat m - slCount sl') (slCount sl') (slTips sl')
             (slLast sl') (slBest sl') (slBlocks sl', h))))"

definition difference_step ::
    "'b bitset_lib \<Rightarrow> working_list \<Rightarrow> nat \<Rightarrow> block_id \<Rightarrow> 'b tracked_block list \<Rightarrow> 'b tracked_block list" where
  "difference_step B blocks t b h =
     (let q = the (fmlookup blocks b)
      in h[q := (h ! q)\<lparr>tbRefs := bs_InPlaceDifference B (tbRefs (h ! q)) (tbRefs (h ! t))\<rparr>])"

fun select_rest ::
    "'b bitset_lib \<Rightarrow> int \<Rightarrow> (nat \<Rightarrow> nat \<Rightarrow> bool) \<Rightarrow> int \<Rightarrow> (nat \<Rightarrow> iteration) \<Rightarrow> selection \<times> select_pos
     \<Rightarrow> 'b tracked_block list \<Rightarrow> select_error option \<times> block_id list" where
  "select_rest B m below minReq its (sl, Deciding) h =
     fst (selectGreedy B below minReq its (nat m - slCount sl) (slCount sl) (slTips sl) (slLast sl) (slBest sl)
       (slBlocks sl, h))"
| "select_rest B m below minReq its (sl, Scanning bs ts n) h = scan_rest B m below minReq its sl bs ts n h"
| "select_rest B m below minReq its (sl, Referencing t bs) h =
     scan_rest B m below minReq its sl (tipOrder (its (slCount sl)) (slBlocks sl)) [] 0
       (fold (difference_step B (slBlocks sl) t) bs h)"

lemma referenceTip_fold:
  "referenceTip B ord t (bl, h) =
    (let bl' = fmdrop (tbBlockID (h ! t)) bl in (bl', fold (difference_step B bl' t) (ord bl') h))"
  by (simp add: referenceTip_def difference_step_def [abs_def] Let_def)

lemma bestTips_nonempty: "bestTips B bl h (b # bs) ([], 0) = (ts, n) \<Longrightarrow> ts \<noteq> []"
proof -
  have grow: "ts \<noteq> [] \<Longrightarrow> bestTips B bl h bs (ts, n) = (ts', n') \<Longrightarrow> ts' \<noteq> []" for ts n ts' n'
    by (induction bs arbitrary: ts n) (auto simp: Let_def split: if_splits)
  assume "bestTips B bl h (b # bs) ([], 0) = (ts, n)"
  then show "ts \<noteq> []" using grow by (auto simp: Let_def split: if_splits)
qed

text \<open>One iteration of \<open>selectGreedy\<close> after \<open>referenceTip\<close> is a scan.\<close>

lemma selectGreedy_scan:
  assumes ord: "enumerates (tipOrder (its (slCount sl)) (slBlocks sl)) (slBlocks sl)"
  shows "scan_rest B m below minReq its sl (tipOrder (its (slCount sl)) (slBlocks sl)) [] 0 h =
    fst (case selectTip B (tipOrder (its (slCount sl))) (pick (its (slCount sl))) (slBlocks sl, h) of
       Inl e \<Rightarrow> ((if minReq \<le> int (length (slTips sl)) then None else Some e, slTips sl), h)
     | Inr (t, c) \<Rightarrow>
         let best1 = (if slCount sl = 0 then c else slBest sl)
         in if minReq \<le> int (length (slTips sl)) \<and> below c best1 then ((None, slTips sl), h)
            else selectGreedy B below minReq its (nat m - Suc (slCount sl)) (Suc (slCount sl))
                   (slTips sl @ [tbBlockID (h ! t)]) (Some t) best1 (slBlocks sl, h))"
proof -
  let ?o = "tipOrder (its (slCount sl)) (slBlocks sl)"
  obtain ts n where b: "bestTips B (slBlocks sl) h ?o ([], 0) = (ts, n)" by fastforce
  have "ts = [] \<longleftrightarrow> map_len (slBlocks sl) = 0"
  proof (cases ?o)
    case Nil
    then show ?thesis using ord b enumerates_length [OF ord] by simp
  next
    case (Cons x xs)
    then show ?thesis using bestTips_nonempty [OF b [unfolded Cons]] enumerates_length [OF ord] by auto
  qed
  then show ?thesis
    by (auto simp: scan_rest_def b select_end_def select_enough_def selectTip_def Let_def)
qed

text \<open>A step changes nothing of what the selection returns in the end.\<close>

lemma deciding_rest:
  assumes ord: "\<And>bl. enumerates (tipOrder (its (slCount sl)) bl) bl"
    and step: "select_step B m below minReq (its (slCount sl)) (sl, Deciding) h = (x, h')"
  shows "select_rest B m below minReq its (sl, Deciding) h =
    (case x of Inl r \<Rightarrow> r | Inr sp' \<Rightarrow> select_rest B m below minReq its sp' h')"
proof -
  let ?it = "its (slCount sl)"
  consider (ended) "m \<le> int (slCount sl)" | (cancelled) "\<not> m \<le> int (slCount sl)" "ctxDone ?it"
    | (go) "\<not> m \<le> int (slCount sl)" "\<not> ctxDone ?it" by blast
  then show ?thesis
  proof cases
    case ended
    then show ?thesis using step by auto
  next
    case cancelled
    then obtain n where "nat m - slCount sl = Suc n" by (metis Suc_diff_Suc nat_le_iff not_le)
    then show ?thesis using step cancelled by (auto simp: select_enough_def)
  next
    case go
    then obtain n where n: "nat m - slCount sl = Suc n" "nat m - Suc (slCount sl) = n"
      by (metis Suc_diff_Suc nat_le_iff not_le)
    show ?thesis
    proof (cases "slLast sl")
      case None
      then show ?thesis
        using step go selectGreedy_scan [where its = its and sl = sl, OF ord, of B m below minReq h] n
        by (auto simp: scan_start_def Let_def cong: sum.case_cong prod.case_cong if_cong)
    next
      case (Some t)
      let ?bl = "fmdrop (tbBlockID (h ! t)) (slBlocks sl)"
      let ?h = "fold (difference_step B ?bl t) (refOrder ?it ?bl) h"
      let ?sl = "sl\<lparr>slBlocks := ?bl\<rparr>"
      have "enumerates (tipOrder (its (slCount ?sl)) (slBlocks ?sl)) (slBlocks ?sl)"
        using ord by simp
      from selectGreedy_scan [where its = its and sl = ?sl, OF this, of B m below minReq ?h] show ?thesis
        using step go Some n
        by (auto simp: select_enough_def referenceTip_fold Let_def
            simp del: fold_simps cong: sum.case_cong prod.case_cong if_cong)
    qed
  qed
qed

lemma select_step_rest:
  assumes "\<And>i. iteration_ok (its i)"
    and "select_step B m below minReq (its (slCount (fst sp))) sp h = (x, h')"
  shows "select_rest B m below minReq its sp h = (case x of Inl r \<Rightarrow> r | Inr sp' \<Rightarrow> select_rest B m below minReq its sp' h')"
proof -
  obtain sl ps where sp: "sp = (sl, ps)" by (cases sp)
  show ?thesis
  proof (cases ps)
    case Deciding
    show ?thesis unfolding sp Deciding
      by (rule deciding_rest) (use assms in \<open>simp_all add: sp Deciding iteration_ok_def\<close>)
  next
    case (Referencing t bs)
    then show ?thesis using assms(2)
      by (cases bs) (auto simp: sp scan_start_def difference_step_def Let_def)
  next
    case (Scanning bs ts n)
    show ?thesis
    proof (cases bs)
      case Nil
      then show ?thesis using assms(2) by (auto simp: sp Scanning scan_rest_def split: sum.splits)
    next
      case (Cons b bs')
      then show ?thesis using assms(2) by (auto simp: sp Scanning scan_rest_def Let_def)
    qed
  qed
qed

section \<open>What other operations leave alone\<close>

text \<open>The objects of a heap have the same IDs and references in another one.\<close>

definition view :: "'b tracked_block list \<Rightarrow> 'b tracked_block list \<Rightarrow> bool" where
  "view h h' \<longleftrightarrow> length h \<le> length h' \<and>
     (\<forall>p < length h. tbBlockID (h' ! p) = tbBlockID (h ! p) \<and> tbRefs (h' ! p) = tbRefs (h ! p))"

lemma view_refl [simp]: "view h h" and view_trans: "view h h' \<Longrightarrow> view h' h'' \<Longrightarrow> view h h''"
  by (simp_all add: view_def)

lemma view_tip: "view h h' \<Longrightarrow> view h (h'[p := (h' ! p)\<lparr>tbTip := e\<rparr>])"
  unfolding view_def
proof (elim conjE, intro conjI allI impI)
  fix q
  assume "length h \<le> length h'" "q < length h"
    and v: "\<forall>p < length h. tbBlockID (h' ! p) = tbBlockID (h ! p) \<and> tbRefs (h' ! p) = tbRefs (h ! p)"
  then have "q < length h'" by linarith
  then show "tbBlockID (h'[p := (h' ! p)\<lparr>tbTip := e\<rparr>] ! q) = tbBlockID (h ! q)"
    "tbRefs (h'[p := (h' ! p)\<lparr>tbTip := e\<rparr>] ! q) = tbRefs (h ! q)"
    using v \<open>q < length h\<close> by (cases "q = p"; simp)+
qed simp

lemma view_removeTip: "view h (heap s) \<Longrightarrow> view h (heap (fold removeTip ps s))"
proof (induction ps arbitrary: s)
  case (Cons p ps)
  have "view h (heap (removeTip p s))" using Cons.prems view_tip by (auto simp: removeTip_def split: option.split)
  then show ?case using Cons.IH by simp
qed simp

lemma view_OnNewSolidBlock: "view (heap s) (heap (snd (OnNewSolidBlock B meta s)))"
proof (cases "fmlookup (trackedBlocks s) (metaBlockID meta) = None")
  case True
  have a: "view (heap s) (heap s @ [x])" for x by (auto simp: view_def nth_append)
  show ?thesis
    unfolding OnNewSolidBlock_def Let_def True
    by (auto intro!: view_tip view_removeTip simp: a simp del: fold_simps)
qed (simp add: OnNewSolidBlock_def)

lemma belowLimit_removeTip: "belowLimit (fold removeTip ps s) = belowLimit s"
proof (induction ps arbitrary: s)
  case (Cons p ps)
  have "belowLimit (removeTip p s) = belowLimit s" by (simp add: removeTip_def split: option.split)
  then show ?case using Cons by simp
qed simp

lemma OnNewSolidBlock_belowLimit: "belowLimit (snd (OnNewSolidBlock B m s)) = belowLimit s"
proof (cases "fmlookup (trackedBlocks s) (metaBlockID m) = None")
  case True
  show ?thesis
    unfolding OnNewSolidBlock_def Let_def True
    by (simp add: belowLimit_removeTip del: fold_simps)
qed (simp add: OnNewSolidBlock_def)

section \<open>The frozen view\<close>

text \<open>The pointers a selection follows are objects of the heap it started with.\<close>

definition in_heap :: "working_list \<Rightarrow> 'b tracked_block list \<Rightarrow> bool" where
  "in_heap blocks h \<longleftrightarrow> (\<forall>b p. fmlookup blocks b = Some p \<longrightarrow> p < length h)"

definition pos_ok :: "working_list \<Rightarrow> 'b tracked_block list \<Rightarrow> select_pos \<Rightarrow> bool" where
  "pos_ok blocks h ps \<longleftrightarrow>
     (case ps of
        Deciding \<Rightarrow> True
      | Referencing t bs \<Rightarrow> t < length h \<and> set bs \<subseteq> fmdom' blocks
      | Scanning bs ts n \<Rightarrow> set bs \<subseteq> fmdom' blocks \<and> (\<forall>p \<in> set ts. p < length h))"

definition sel_ok :: "selection \<times> select_pos \<Rightarrow> 'b tracked_block list \<Rightarrow> bool" where
  "sel_ok sp h \<longleftrightarrow> in_heap (slBlocks (fst sp)) h \<and> (\<forall>t. slLast (fst sp) = Some t \<longrightarrow> t < length h) \<and>
     pos_ok (slBlocks (fst sp)) h (snd sp)"

lemma in_heapD: "in_heap blocks h \<Longrightarrow> b \<in> fmdom' blocks \<Longrightarrow> the (fmlookup blocks b) < length h"
  by (auto simp: in_heap_def fmlookup_dom'_iff)

lemma view_difference:
  assumes "view h h'" and "q < length h" and "t < length h"
  shows "view (h[q := (h ! q)\<lparr>tbRefs := bs_InPlaceDifference B (tbRefs (h ! q)) (tbRefs (h ! t))\<rparr>])
    (h'[q := (h' ! q)\<lparr>tbRefs := bs_InPlaceDifference B (tbRefs (h' ! q)) (tbRefs (h' ! t))\<rparr>])"
proof -
  have "length h \<le> length h'" using assms(1) by (simp add: view_def)
  then show ?thesis using assms by (auto simp: view_def nth_list_update)
qed

text \<open>A step decides the same on two heaps with the same view, and keeps the view.\<close>

lemma sel_okD:
  assumes "sel_ok (sl, ps) h"
  shows "in_heap (slBlocks sl) h" and "slLast sl = Some t \<Longrightarrow> t < length h" and "pos_ok (slBlocks sl) h ps"
  using assms by (auto simp: sel_ok_def)

lemma iteration_okD:
  assumes "iteration_ok it"
  shows "set (refOrder it bl) = fmdom' bl" and "set (tipOrder it bl) = fmdom' bl" and "0 < n \<Longrightarrow> pick it n < n"
  using assms by (auto simp: iteration_ok_def enumerates_def)

lemma scan_start_ok: "sel_ok (sl, ps) h \<Longrightarrow> iteration_ok it \<Longrightarrow> sel_ok (sl, scan_start it sl) h"
  by (auto simp: sel_ok_def scan_start_def pos_ok_def iteration_okD)

lemma deciding_view:
  assumes v: "view h h'" and ok: "sel_ok (sl, ps) h" and it: "iteration_ok it" and sp: "sp = (sl, Deciding)"
  shows "\<exists>x k k'. select_step B m below minReq it sp h = (x, k) \<and> select_step B m below minReq it sp h' = (x, k') \<and>
    view k k' \<and> (\<forall>sp'. x = Inr sp' \<longrightarrow> sel_ok sp' k)"
proof (cases "slLast sl")
  case None
  then show ?thesis using v scan_start_ok [OF ok it] by (simp add: sp)
next
  case (Some t)
  let ?bl = "fmdrop (tbBlockID (h ! t)) (slBlocks sl)"
  note last = sel_okD(2) [OF ok Some]
  have "tbBlockID (h' ! t) = tbBlockID (h ! t)" using v last by (simp add: view_def)
  moreover have "in_heap ?bl h" using sel_okD(1) [OF ok] by (simp add: in_heap_def)
  ultimately show ?thesis
    using v last iteration_okD [OF it] Some by (auto simp: sp Let_def sel_ok_def pos_ok_def)
qed

lemma referencing_view:
  assumes v: "view h h'" and ok: "sel_ok sp h" and it: "iteration_ok it" and sp: "sp = (sl, Referencing t bs)"
  shows "\<exists>x k k'. select_step B m below minReq it sp h = (x, k) \<and> select_step B m below minReq it sp h' = (x, k') \<and>
    view k k' \<and> (\<forall>sp'. x = Inr sp' \<longrightarrow> sel_ok sp' k)"
proof (cases bs)
  case Nil
  then show ?thesis using v scan_start_ok [OF ok [unfolded sp] it] by (simp add: sp)
next
  case (Cons b bs')
  let ?q = "the (fmlookup (slBlocks sl) b)"
  have "?q < length h" "t < length h"
    using sel_okD(1,3) [OF ok [unfolded sp]] in_heapD by (auto simp: pos_ok_def Cons)
  then show ?thesis
    using view_difference [OF v, of ?q t B] ok by (simp add: sp Cons Let_def sel_ok_def pos_ok_def in_heap_def)
qed

lemma scanning_view:
  assumes v: "view h h'" and ok: "sel_ok sp h" and it: "iteration_ok it" and sp: "sp = (sl, Scanning bs ts n)"
  shows "\<exists>x k k'. select_step B m below minReq it sp h = (x, k) \<and> select_step B m below minReq it sp h' = (x, k') \<and>
    view k k' \<and> (\<forall>sp'. x = Inr sp' \<longrightarrow> sel_ok sp' k)"
proof (cases bs)
  case (Cons b bs')
  let ?p = "the (fmlookup (slBlocks sl) b)"
  have p: "?p < length h" using sel_okD(1,3) [OF ok [unfolded sp]] in_heapD by (auto simp: pos_ok_def Cons)
  then have "tbRefs (h' ! ?p) = tbRefs (h ! ?p)" using v by (simp add: view_def)
  then show ?thesis using p v ok by (auto simp: sp Cons Let_def sel_ok_def pos_ok_def)
next
  case Nil
  show ?thesis
  proof (cases "ts = []")
    case True
    then show ?thesis using v by (simp add: sp Nil select_end_def)
  next
    case False
    let ?t = "ts ! pick it (length ts)"
    have t: "?t < length h"
      using sel_okD(3) [OF ok [unfolded sp]] iteration_okD(3) [OF it, of "length ts"] False by (simp add: pos_ok_def)
    then have "tbBlockID (h' ! ?t) = tbBlockID (h ! ?t)" using v by (simp add: view_def)
    then show ?thesis
      using t v ok False by (auto simp: sp Nil select_end_def Let_def sel_ok_def pos_ok_def)
  qed
qed

lemma select_step_view:
  assumes v: "view h h'" and ok: "sel_ok sp h" and it: "iteration_ok it"
  shows "\<exists>x k k'. select_step B m below minReq it sp h = (x, k) \<and> select_step B m below minReq it sp h' = (x, k') \<and>
    view k k' \<and> (\<forall>sp'. x = Inr sp' \<longrightarrow> sel_ok sp' k)"
proof (cases sp)
  case (Pair sl ps)
  show ?thesis
  proof (cases ps)
    case Deciding
    show ?thesis by (rule deciding_view [OF v ok [unfolded Pair] it Pair [unfolded Deciding]])
  next
    case (Referencing t bs)
    show ?thesis by (rule referencing_view [OF v ok it Pair [unfolded Referencing]])
  next
    case (Scanning bs ts n)
    show ?thesis by (rule scanning_view [OF v ok it Pair [unfolded Scanning]])
  qed
qed

text \<open>So the result is the one of the loops on the view, whatever happens between the steps.\<close>

lemma concurrent_view:
  assumes "concurrent B minReq its sp s r s'" and its: "\<And>i. iteration_ok (its i)"
    and "view h (heap s)" and "sel_ok sp h" and "belowLimit s = below" and "maxTips s = m"
  shows "select_rest B m below minReq its sp h = r"
  using assms(1,3-6)
proof (induction arbitrary: h rule: concurrent.induct)
  case (block sp meta s r s')
  then show ?case
    using view_trans [OF block.prems(1) view_OnNewSolidBlock] OnNewSolidBlock_belowLimit OnNewSolidBlock_maxTips
    by metis
next
  case (reset sp s r s')
  then show ?case by (simp add: Heaviest_Reset_def)
next
  case (move s sp sp1 h1 r s')
  obtain x k k' where e: "select_step B m below minReq (its (slCount (fst sp))) sp h = (x, k)"
    "select_step B m below minReq (its (slCount (fst sp))) sp (heap s) = (x, k')" "view k k'"
    "\<And>sp'. x = Inr sp' \<Longrightarrow> sel_ok sp' k"
    using select_step_view [OF move.prems(1,2) its] by metis
  have "x = Inr sp1" "k' = h1" using e(2) move.hyps(1) move.prems(3,4) by auto
  then show ?case
    using select_step_rest [where its = its, OF its e(1)] move.IH [of k] e(3,4) move.prems(3,4) by simp
next
  case (finish s sp r h1)
  obtain x k k' where e: "select_step B m below minReq (its (slCount (fst sp))) sp h = (x, k)"
    "select_step B m below minReq (its (slCount (fst sp))) sp (heap s) = (x, k')"
    using select_step_view [OF finish.prems(1,2) its] by metis
  have "x = Inl r" using e(2) finish.hyps finish.prems(3,4) by auto
  then show ?case using select_step_rest [where its = its, OF its e(1)] by simp
qed

text \<open>Every selection ends, also when nothing happens between its steps.\<close>

abbreviation "selection_ends B minReq its sp s \<equiv> \<exists>r s'. concurrent B minReq its sp s r s'"

lemma finishes:
  "select_step B (maxTips s) (belowLimit s) minReq (its (slCount sl)) (sl, ps) (heap s) = (Inl r, h) \<Longrightarrow>
    selection_ends B minReq its (sl, ps) s"
  using concurrent.finish [of B s minReq its "(sl, ps)" r h] unfolding fst_conv by blast

lemma moves:
  "select_step B (maxTips s) (belowLimit s) minReq (its (slCount sl)) (sl, ps) (heap s) = (Inr sp1, h) \<Longrightarrow>
    selection_ends B minReq its sp1 (s\<lparr>heap := h\<rparr>) \<Longrightarrow> selection_ends B minReq its (sl, ps) s"
  using concurrent.move [of B s minReq its "(sl, ps)" sp1 h] unfolding fst_conv by blast

lemma scan_ends:
  assumes more: "\<And>sl' s. slCount sl' = Suc (slCount sl) \<Longrightarrow> maxTips s = m \<Longrightarrow> selection_ends B minReq its (sl', Deciding) s"
  shows "maxTips s = m \<Longrightarrow> selection_ends B minReq its (sl, Scanning bs ts n) s"
proof (induction bs arbitrary: ts n s)
  case Nil
  show ?case
  proof (cases "select_end (belowLimit s) minReq (its (slCount sl)) sl (heap s) ts n")
    case (Inl r)
    then show ?thesis by (intro finishes) simp
  next
    case (Inr sl')
    then have "slCount sl' = Suc (slCount sl)" by (auto simp: select_end_def Let_def split: if_splits)
    then have "selection_ends B minReq its (sl', Deciding) (s\<lparr>heap := heap s\<rparr>)" using more Nil by simp
    moreover have "select_step B (maxTips s) (belowLimit s) minReq (its (slCount sl)) (sl, Scanning [] ts n) (heap s) =
        (Inr (sl', Deciding), heap s)"
      using Inr by simp
    ultimately show ?thesis by (rule moves [rotated])
  qed
next
  case (Cons b bs)
  have "\<exists>ts' n'. select_step B (maxTips s) (belowLimit s) minReq (its (slCount sl)) (sl, Scanning (b # bs) ts n) (heap s) =
      (Inr (sl, Scanning bs ts' n'), heap s)"
    by (simp add: Let_def)
  moreover have "selection_ends B minReq its (sl, Scanning bs ts' n') (s\<lparr>heap := heap s\<rparr>)" for ts' n'
    using Cons.IH [of "s\<lparr>heap := heap s\<rparr>"] Cons.prems by simp
  ultimately show ?case using moves by metis
qed

lemma reference_ends:
  assumes scan: "\<And>bs ts n s. maxTips s = m \<Longrightarrow> selection_ends B minReq its (sl, Scanning bs ts n) s"
  shows "maxTips s = m \<Longrightarrow> selection_ends B minReq its (sl, Referencing t bs) s"
proof (induction bs arbitrary: s)
  case Nil
  have "select_step B (maxTips s) (belowLimit s) minReq (its (slCount sl)) (sl, Referencing t []) (heap s) =
      (Inr (sl, scan_start (its (slCount sl)) sl), heap s)"
    by simp
  moreover have "selection_ends B minReq its (sl, scan_start (its (slCount sl)) sl) (s\<lparr>heap := heap s\<rparr>)"
    unfolding scan_start_def using scan Nil by simp
  ultimately show ?case by (rule moves)
next
  case (Cons b bs)
  obtain k where "select_step B (maxTips s) (belowLimit s) minReq (its (slCount sl)) (sl, Referencing t (b # bs)) (heap s) =
      (Inr (sl, Referencing t bs), k)"
    by (simp add: Let_def)
  moreover have "selection_ends B minReq its (sl, Referencing t bs) (s\<lparr>heap := k\<rparr>)"
    using Cons.IH Cons.prems by simp
  ultimately show ?case by (rule moves)
qed

lemma concurrent_ends: "selection_ends B minReq its (sl, Deciding) s"
proof (induction "nat (maxTips s) - slCount sl" arbitrary: sl s rule: less_induct)
  case less
  let ?it = "its (slCount sl)"
  show ?case
  proof (cases "maxTips s \<le> int (slCount sl) \<or> ctxDone ?it")
    case True
    then have "\<exists>r. select_step B (maxTips s) (belowLimit s) minReq ?it (sl, Deciding) (heap s) = (Inl r, heap s)"
      by (cases "maxTips s \<le> int (slCount sl)") simp_all
    then show ?thesis using finishes by metis
  next
    case False
    have scan: "selection_ends B minReq its (sl', Scanning bs ts n) s1"
      if "slCount sl' = slCount sl" "maxTips s1 = maxTips s" for sl' s1 bs ts n
      using that False by (intro scan_ends [where m = "maxTips s"] less) auto
    show ?thesis
    proof (cases "slLast sl")
      case None
      then have "select_step B (maxTips s) (belowLimit s) minReq ?it (sl, Deciding) (heap s) =
          (Inr (sl, scan_start ?it sl), heap s)"
        using False by simp
      moreover have "selection_ends B minReq its (sl, scan_start ?it sl) (s\<lparr>heap := heap s\<rparr>)"
        unfolding scan_start_def by (intro scan) simp_all
      ultimately show ?thesis by (rule moves)
    next
      case (Some t)
      define sl1 where "sl1 = sl\<lparr>slBlocks := fmdrop (tbBlockID (heap s ! t)) (slBlocks sl)\<rparr>"
      have "select_step B (maxTips s) (belowLimit s) minReq ?it (sl, Deciding) (heap s) =
          (Inr (sl1, Referencing t (refOrder ?it (slBlocks sl1))), heap s)"
        using False Some by (simp add: sl1_def Let_def)
      moreover have "selection_ends B minReq its (sl1, Referencing t (refOrder ?it (slBlocks sl1))) (s\<lparr>heap := heap s\<rparr>)"
        by (intro reference_ends [where m = "maxTips s"] scan) (simp_all add: sl1_def)
      ultimately show ?thesis by (rule moves)
    qed
  qed
qed

text \<open>
  C26. A selection works on a frozen view: the tips it returns, or its error, are those of \<open>SelectTips\<close>
  run at once at the moment it copied the list of tips, whatever blocks arrive and however often
  the selector is reset between any two of its steps. So nobody can influence a selection in progress with new
  blocks, and taking a selection for one step loses nothing.
\<close>
theorem selection_is_frozen:
  assumes "\<And>i. iteration_ok (its i)" and "1 \<le> minReq" and "tracks l s"
    and "concurrent B minReq its (start_selection s) s (err, us) s'"
  shows "\<exists>s''. SelectTips B its minReq s = Val (case err of None \<Rightarrow> Inr us | Some e \<Rightarrow> Inl e) s''"
proof -
  have "in_heap (tipsToList s) (heap s)" using tracks_list_ok [OF assms(3)] by (auto simp: in_heap_def list_ok_def)
  then have "sel_ok (start_selection s) (heap s)" by (simp add: sel_ok_def start_selection_def pos_ok_def)
  from concurrent_view [OF assms(4,1) view_refl this refl refl]
  have "fst (selectGreedy B (belowLimit s) minReq its (nat (maxTips s)) 0 [] None 0 (tipsToList s, heap s)) = (err, us)"
    by (simp add: start_selection_def)
  then obtain h where "selectGreedy B (belowLimit s) minReq its (nat (maxTips s)) 0 [] None 0 (tipsToList s, heap s) = ((err, us), h)"
    by (metis surj_pair fst_conv)
  then show ?thesis using assms(2) by (simp add: SelectTips_def)
qed

theorem selection_is_frozen_witness:
  "\<exists>err us s' s''. concurrent toy_bitset 1 (\<lambda>_. toy_iteration) (start_selection toy_selector)
       (Heaviest_Reset (snd (OnNewSolidBlock toy_bitset (toy_meta 5 [2, 4]) toy_selector))) (err, us) s' \<and>
     SelectTips toy_bitset (\<lambda>_. toy_iteration) 1 toy_selector =
       Val (case err of None \<Rightarrow> Inr us | Some e \<Rightarrow> Inl e) s''"
proof -
  let ?its = "\<lambda>_. toy_iteration" and ?sl = "start_selection toy_selector"
  obtain err us s' where c: "concurrent toy_bitset 1 ?its ?sl
      (Heaviest_Reset (snd (OnNewSolidBlock toy_bitset (toy_meta 5 [2, 4]) toy_selector))) (err, us) s'"
    using concurrent_ends unfolding start_selection_def by fast
  have t: "tracks (log_of toy_blocks) toy_selector"
    using feed_tracks [OF toy_bitset_ok] unfolding toy_selector_def by blast
  have "concurrent toy_bitset 1 ?its ?sl toy_selector (err, us) s'"
    by (rule concurrent.block [OF concurrent.reset [OF c]])
  from selection_is_frozen [OF toy_iteration_ok order_refl t this] c show ?thesis by blast
qed

end
