(* ===== verification/QueueStop.thy ===== *)
theory QueueStop
  imports KeyedQueue
begin

text \<open>
  How a queue ends: \<open>Stop\<close> closes it, cancels the running callback and waits for the loop. The
  wait ends after a few steps of loop and timer if the callback returns, and at most one callback
  starts after the queue has been closed.
\<close>

section \<open>Steps of a closed queue\<close>

text \<open>The steps of the loop and its timer, without those of callers.\<close>

definition loop_event :: "('k, 'v) queue_event \<Rightarrow> bool" where
  "loop_event e \<longleftrightarrow> (case e of Submitted k v \<Rightarrow> False | StopCalled \<Rightarrow> False | StopReturned \<Rightarrow> False | _ \<Rightarrow> True)"

inductive queue_trace :: "('k, 'v) keyed_queue \<Rightarrow> ('k, 'v) queue_event list \<Rightarrow> ('k, 'v) keyed_queue \<Rightarrow> bool" where
  none: "queue_trace q [] q"
| step: "queue_step q e q' \<Longrightarrow> queue_trace q' es q'' \<Longrightarrow> queue_trace q (e # es) q''"

text \<open>A bound on the steps that are left.\<close>

definition rest :: "('k, 'v) keyed_queue \<Rightarrow> nat" where
  "rest q =
     (case phase q of Popping \<Rightarrow> 5 | Executing k v \<Rightarrow> 4 | Selecting \<Rightarrow> 1 | Terminated \<Rightarrow> 0) +
     (if armed (timer q) = None then 0 else 2) + (if tick (timer q) then 1 else 0)"

definition starts_left :: "('k, 'v) keyed_queue \<Rightarrow> nat" where
  "starts_left q = (if phase q = Popping then 1 else 0)"

lemma process_end_fields:
  "phase (process_end err k v q) = Selecting" "closed (process_end err k v q) = closed q"
  "tick (timer (process_end err k v q)) = tick (timer q)"
  by (simp_all add: process_end_def Let_def timer_Reset_def)

lemma closed_step:
  assumes "queue_step q e q'" and "closed q" and "loop_event e"
  shows "closed q' \<and> rest q' < rest q \<and> starts_left q' + (if e = Popped then 1 else 0) \<le> starts_left q"
  using assms
proof cases
  case (finish k v err)
  then show ?thesis using assms(2) process_end_fields [of err k v q] by (auto simp: rest_def starts_left_def)
qed (auto simp: rest_def starts_left_def loop_event_def on_tick_def timer_fire_def popFront_def Let_def
    split: list.splits)

lemma closed_trace:
  assumes "queue_trace q es q'" and "closed q" and "list_all loop_event es"
  shows "closed q' \<and> length es + rest q' \<le> rest q \<and> length (filter (\<lambda>e. e = Popped) es) \<le> starts_left q"
  using assms
proof (induction rule: queue_trace.induct)
  case (step q e q' es q'')
  then have c: "closed q'" "rest q' < rest q" "starts_left q' + (if e = Popped then 1 else 0) \<le> starts_left q"
    using closed_step [OF step.hyps(1)] by auto
  then show ?case using step.IH step.prems(2) by (auto split: if_splits)
qed simp

lemma trace_reachable:
  assumes "queue_trace q es q'" and "queue_reachable K q" and "list_all loop_event es"
  shows "queue_reachable K q'"
  using assms
proof (induction rule: queue_trace.induct)
  case (step q e q' es q'')
  then have "submits_in K e" by (cases e) (auto simp: loop_event_def)
  then have "queue_reachable K q'" using queue_reachable.step step.hyps(1) step.prems(1) by blast
  then show ?case using step by simp
qed simp

text \<open>Unless the loop has gone, it can make a step.\<close>

lemma closed_progress:
  assumes "queue_inv q" and "closed q" and "phase q \<noteq> Terminated"
  shows "\<exists>e q'. loop_event e \<and> queue_step q e q'"
proof (cases "phase q")
  case Popping
  then have "elems q \<noteq> []" using assms(1) by (auto simp: queue_inv_defs)
  then obtain q' where "popFront q = Ret q'" by (cases "elems q") (auto simp: popFront_def)
  then show ?thesis using queue_step.pop [OF Popping] by (intro exI [of _ Popped]) (auto simp: loop_event_def)
next
  case (Executing k v)
  then show ?thesis using queue_step.finish [of q k v True] by (intro exI [of _ "Finished True"]) (auto simp: loop_event_def)
next
  case Selecting
  then show ?thesis using queue_step.exit [OF Selecting assms(2)] by (intro exI [of _ LoopExit]) (auto simp: loop_event_def)
qed (use assms in simp)

text \<open>
  C34. \<open>Stop\<close> returns if the running callback does. From any reachable closed queue the loop and its
  timer make at most eight more steps, in whatever order, and they only run out when the loop has
  gone; at most one more callback is started, and none unless the loop had passed its shutdown test
  when the queue was closed.
\<close>
theorem queue_stop_ends:
  assumes "queue_reachable K q" and "closed q" and "queue_trace q es q'" and "list_all loop_event es"
  shows "length es \<le> 8 \<and> (phase q' = Terminated \<or> (\<exists>e q''. loop_event e \<and> queue_step q' e q'')) \<and>
    length (filter (\<lambda>e. e = Popped) es) \<le> (if phase q = Popping then 1 else 0)"
proof -
  have "rest q \<le> 8" by (auto simp: rest_def split: loop_phase.split)
  moreover note closed_trace [OF assms(3,2,4)]
  moreover have "queue_inv q'" using trace_reachable [OF assms(3,1,4)] by (rule queue_reachable_inv)
  ultimately show ?thesis using closed_progress [of q'] by (fastforce simp: starts_left_def)
qed

text \<open>
  An example in which a callback starts although the queue is closed: the loop has passed the
  shutdown test, \<open>Stop\<close> finds nothing to cancel, and the callback that starts then runs with a
  context that is not cancelled.
\<close>

definition demo_closing :: "(nat, nat) keyed_queue" where
  "demo_closing = (on_tick (demo_queue\<lparr>timer := timer_fire (timer demo_queue)\<rparr>))\<lparr>closed := True\<rparr>"

lemma demo_closing_reachable: "queue_reachable {1, 2} demo_closing"
proof -
  let ?q = "on_tick (demo_queue\<lparr>timer := timer_fire (timer demo_queue)\<rparr>)"
  have "stop_begin ?q = Ret demo_closing"
    by (simp add: stop_begin_def demo_closing_def demo_queue_def Queue_Submit_def push_back_def Queue_New_def
        on_tick_def cancel_running_def timer_fire_def)
  from queue_reachable.step [OF demo_popping queue_step.stop [OF this]] show ?thesis by simp
qed

lemma closed_queue_starts_callback:
  "\<exists>q q'. queue_reachable {1, 2} (q :: (nat, nat) keyed_queue) \<and> closed q \<and> queue_step q Popped q' \<and> phase q' = Executing 1 10 \<and> \<not> ctx_cancelled q'"
proof -
  obtain q' where "popFront demo_closing = Ret q'" "phase q' = Executing 1 10" "\<not> ctx_cancelled q'"
    by (simp add: popFront_def demo_closing_def demo_queue_def Queue_Submit_def push_back_def Queue_New_def
        on_tick_def timer_fire_def ctx_cancelled_def)
  moreover have "phase demo_closing = Popping" "closed demo_closing"
    by (simp_all add: demo_closing_def demo_queue_def Queue_Submit_def push_back_def Queue_New_def on_tick_def)
  ultimately show ?thesis using demo_closing_reachable queue_step.pop by blast
qed

theorem queue_stop_ends_witness:
  "\<exists>es q'. queue_trace demo_closing es q' \<and> length es = 3 \<and> phase q' = Terminated \<and> length es \<le> 8"
proof -
  obtain q1 where q1: "popFront demo_closing = Ret q1" "phase q1 = Executing 1 10" "closed q1"
    by (simp add: popFront_def demo_closing_def demo_queue_def Queue_Submit_def push_back_def Queue_New_def
        on_tick_def timer_fire_def)
  have p: "phase demo_closing = Popping" "closed demo_closing"
    by (simp_all add: demo_closing_def demo_queue_def Queue_Submit_def push_back_def Queue_New_def on_tick_def)
  let ?q2 = "process_end False 1 10 q1"
  have "queue_step ?q2 LoopExit (?q2\<lparr>phase := Terminated\<rparr>)"
    by (rule queue_step.exit) (simp_all add: process_end_fields q1(3))
  then have t: "queue_trace demo_closing [Popped, Finished False, LoopExit] (?q2\<lparr>phase := Terminated\<rparr>)"
    using queue_step.pop [OF p(1) q1(1)] queue_step.finish [OF q1(2), of False]
    by (blast intro: queue_trace.intros)
  have "length [Popped, Finished False, LoopExit] \<le> 8"
    using queue_stop_ends [OF demo_closing_reachable p(2) t] by (simp add: loop_event_def)
  then show ?thesis using t by (intro exI conjI) (assumption | simp)+
qed

end
