(* ===== verification/Provide.thy ===== *)
theory Provide
  imports Worker
begin

text \<open>
  How the plugin gets its parts: the constructors that \<open>provide\<close> of \<open>components/decoo/component.go\<close>
  hands to the dependency container, and \<open>configure\<close>. The container is an argument: what its
  \<open>Provide\<close> makes of a constructor, with \<open>None\<close> for an error.
\<close>

section \<open>Milestone indices\<close>

text \<open>
  The status messages of the node; the accessors of a protobuf message return zero values for a
  message that is absent.
\<close>

record milestone_msg =
  mmInfo :: "32 word option"

record node_status =
  nsLatestMilestone :: "milestone_msg option"
  nsConfirmedMilestone :: "milestone_msg option"

definition GetMilestoneIndex :: "milestone_msg option \<Rightarrow> 32 word" where
  "GetMilestoneIndex m = (case Option.bind m mmInfo of None \<Rightarrow> 0 | Some i \<Rightarrow> i)"

definition milestoneIndexFunc :: "node_status option \<Rightarrow> 32 word \<times> 32 word" where
  "milestoneIndexFunc ns =
     (GetMilestoneIndex (Option.bind ns nsLatestMilestone), GetMilestoneIndex (Option.bind ns nsConfirmedMilestone))"

section \<open>Constructors\<close>

record provide_params =
  ppMaxTips :: int
  ppBelowLimit :: "nat \<Rightarrow> nat \<Rightarrow> bool"
  ppReadPem :: "bytes \<Rightarrow> private_key option"
  ppPrivateKey :: "bytes option"
  ppValidators :: nat
  ppMaxRetainBlocks :: "64 word"

text \<open>What the constructor of the coordinator reads of the node: its key ranges and the key count.\<close>

record node_config =
  ncKeyRanges :: "key_range list"
  ncKeyCount :: "32 word"

text \<open>The constructors, as functions of what they depend on.\<close>

datatype 'b constructor =
  TipSelectorC "'b heaviest"
| MilestoneIndexFuncC "node_status option \<Rightarrow> 32 word \<times> 32 word"
| TangleListenerC
| DeCooC "node_config \<Rightarrow> (provide_error + coordinator) go"
| CoordinatorC "coordinator \<Rightarrow> coordinator"

definition constructors ::
    "'z iota_lib_scheme \<Rightarrow> (key_range list \<Rightarrow> 32 word \<Rightarrow> peer_id set) \<Rightarrow> provide_params \<Rightarrow> 'b constructor list" where
  "constructors L keySet P =
     [TipSelectorC (NewHeaviest (ppMaxTips P) (ppBelowLimit P)),
      MilestoneIndexFuncC milestoneIndexFunc,
      TangleListenerC,
      DeCooC (\<lambda>nc. provideCoordinator L keySet (ppReadPem P) (ppPrivateKey P) (ncKeyRanges nc)
        (ppValidators P) (ncKeyCount nc) (ppMaxRetainBlocks P)),
      CoordinatorC (\<lambda>deCoo. deCoo)]"

text \<open>One call of \<open>Provide\<close> after the other, up to the first error, which is returned.\<close>

fun provide_all :: "('a \<Rightarrow> 'c \<Rightarrow> 'c option) \<Rightarrow> 'a list \<Rightarrow> 'c \<Rightarrow> 'c \<times> bool" where
  "provide_all Provide [] ct = (ct, True)"
| "provide_all Provide (k # ks) ct =
     (case Provide k ct of None \<Rightarrow> (ct, False) | Some ct' \<Rightarrow> provide_all Provide ks ct')"

definition provide ::
    "('b constructor \<Rightarrow> 'c \<Rightarrow> 'c option) \<Rightarrow> 'z iota_lib_scheme \<Rightarrow> (key_range list \<Rightarrow> 32 word \<Rightarrow> peer_id set)
     \<Rightarrow> provide_params \<Rightarrow> 'c \<Rightarrow> 'c \<times> bool" where
  "provide Provide L keySet P ct = provide_all Provide (constructors L keySet P) ct"

section \<open>Configuring\<close>

text \<open>\<open>configure\<close> makes the two channels, with room for one value each.\<close>

definition configure :: "loop_state \<Rightarrow> loop_state" where
  "configure s = s\<lparr>confirmedMilestoneSignal := None, triggerNextMilestone := False\<rparr>"

section \<open>Facts\<close>

text \<open>A node that has not reported its milestones does not count as synced.\<close>

lemma unknown_status_not_synced:
  assumes "indicesAt env n = milestoneIndexFunc ns"
    and "ns = None \<or> Option.bind ns nsLatestMilestone = None \<or> Option.bind ns nsConfirmedMilestone = None"
  shows "syncedAt env n = None"
  using assms by (cases ns) (auto simp: syncedAt_def milestoneIndexFunc_def GetMilestoneIndex_def)

text \<open>
  A container that collects constructors and refuses a second one of a type: \<open>provide\<close> fills an empty
  one in order, and a second time it fails at once, without a change.
\<close>

fun type_of_constructor :: "'b constructor \<Rightarrow> nat" where
  "type_of_constructor (TipSelectorC s) = 0"
| "type_of_constructor (MilestoneIndexFuncC f) = 1"
| "type_of_constructor TangleListenerC = 2"
| "type_of_constructor (DeCooC g) = 3"
| "type_of_constructor (CoordinatorC h) = 4"

lemma provide_all_distinct:
  assumes "\<And>k ct. Provide k ct = (if type_of_constructor k \<in> type_of_constructor ` set ct then None else Some (ct @ [k]))"
    and "distinct (map type_of_constructor (ct @ ks))"
  shows "provide_all Provide ks ct = (ct @ ks, True)"
  using assms(2) by (induction ks arbitrary: ct) (auto simp: assms(1))

lemma provide_once:
  assumes "\<And>k ct. Provide k ct = (if type_of_constructor k \<in> type_of_constructor ` set ct then None else Some (ct @ [k]))"
  shows "provide Provide L keySet P [] = (constructors L keySet P, True)"
    and "provide Provide L keySet P (constructors L keySet P) = (constructors L keySet P, False)"
proof -
  show "provide Provide L keySet P [] = (constructors L keySet P, True)"
    using provide_all_distinct [of Provide "[]" "constructors L keySet P"] assms
    by (simp add: provide_def) (simp add: constructors_def)
  show "provide Provide L keySet P (constructors L keySet P) = (constructors L keySet P, False)"
    by (simp add: provide_def constructors_def assms)
qed

text \<open>The loop starts on the channels that \<open>configure\<close> makes.\<close>

lemma configure_loop_start: "configure (loop_start interval) = loop_start interval"
  by (simp add: configure_def loop_start_def)

end
