(* ===== verification/Shell.thy ===== *)
theory Shell
  imports Provide "HOL-Library.Sublist"
begin

text \<open>
  The shell around the plugin: the command line flags and the registration of the workers
  (\<open>init\<close>, \<open>configure\<close> and \<open>run\<close> of \<open>components/decoo/component.go\<close>), the seed of the random numbers and
  the parts of the application (\<open>components/app/app.go\<close>), the order in which the daemon stops the
  workers (\<open>pkg/daemon\<close>), the logger handed to Tendermint (\<open>TenderLogger\<close> of \<open>tendermint.go\<close>) and
  the generator of the documentation (\<open>tools/gendoc\<close>).
\<close>

section \<open>Command line flags\<close>

text \<open>The values of the flags before the command line is parsed.\<close>

definition default_flags :: "bool \<Rightarrow> config" where
  "default_flags singleNode =
     \<lparr>bootstrap = False, startIndex = 1, startMilestoneID = NewByte32 zero32 zero32,
      startMilestoneBlockID = NewByte32 zero32 zero32, bootstrapForce = False, SingleNode = singleNode\<rparr>"

definition CfgCoordinatorBootstrap :: string where "CfgCoordinatorBootstrap = ''cooBootstrap''"
definition CfgCoordinatorStartIndex :: string where "CfgCoordinatorStartIndex = ''cooStartIndex''"
definition CfgCoordinatorStartMilestoneID :: string where
  "CfgCoordinatorStartMilestoneID = ''cooStartMilestoneID''"
definition CfgCoordinatorStartMilestoneBlockID :: string where
  "CfgCoordinatorStartMilestoneBlockID = ''cooStartMilestoneBlockID''"
definition CfgCoordinatorBootstrapForce :: string where
  "CfgCoordinatorBootstrapForce = ''cooBootstrapForce''"

text \<open>
  The flag package parses booleans and numbers (the arguments \<open>pb\<close> and \<open>pn\<close>), and hands the text of
  the other two to \<open>Byte32.Set\<close>. \<open>None\<close> is a rejected command line; the flags of other components are
  not among them.
\<close>

definition set_flag :: "(bytes \<Rightarrow> bool option) \<Rightarrow> (bytes \<Rightarrow> 32 word option) \<Rightarrow> string \<Rightarrow> bytes \<Rightarrow> config \<Rightarrow> config option" where
  "set_flag pb pn name v cfg =
     (if name = CfgCoordinatorBootstrap then map_option (\<lambda>b. cfg\<lparr>bootstrap := b\<rparr>) (pb v)
      else if name = CfgCoordinatorStartIndex then map_option (\<lambda>i. cfg\<lparr>startIndex := i\<rparr>) (pn v)
      else if name = CfgCoordinatorStartMilestoneID then
        (case Byte32_Set (startMilestoneID cfg) v of
           (b, None) \<Rightarrow> Some (cfg\<lparr>startMilestoneID := b\<rparr>) | (b, Some e) \<Rightarrow> None)
      else if name = CfgCoordinatorStartMilestoneBlockID then
        (case Byte32_Set (startMilestoneBlockID cfg) v of
           (b, None) \<Rightarrow> Some (cfg\<lparr>startMilestoneBlockID := b\<rparr>) | (b, Some e) \<Rightarrow> None)
      else if name = CfgCoordinatorBootstrapForce then map_option (\<lambda>b. cfg\<lparr>bootstrapForce := b\<rparr>) (pb v)
      else None)"

fun set_flags :: "(bytes \<Rightarrow> bool option) \<Rightarrow> (bytes \<Rightarrow> 32 word option) \<Rightarrow> (string \<times> bytes) list \<Rightarrow> config \<Rightarrow> config option" where
  "set_flags pb pn [] cfg = Some cfg"
| "set_flags pb pn ((n, v) # args) cfg = Option.bind (set_flag pb pn n v cfg) (set_flags pb pn args)"

lemmas flag_names = CfgCoordinatorBootstrap_def CfgCoordinatorStartIndex_def
  CfgCoordinatorStartMilestoneID_def CfgCoordinatorStartMilestoneBlockID_def CfgCoordinatorBootstrapForce_def

text \<open>
  The flags that resume a chain, given as the program prints the values, in either order, reach the
  configuration that bootstrapping starts from, whatever was parsed before.
\<close>
lemma set_flag_ids:
  "set_flag pb pn CfgCoordinatorStartMilestoneID (Byte32_String i) cfg = Some (cfg\<lparr>startMilestoneID := i\<rparr>)"
  "set_flag pb pn CfgCoordinatorStartMilestoneBlockID (Byte32_String b) cfg =
     Some (cfg\<lparr>startMilestoneBlockID := b\<rparr>)"
  using Byte32_Set_String [of "[]" "[]"] by (simp_all add: set_flag_def flag_names)

lemma bootstrap_flags_reach_coordinator:
  assumes "pb yes = Some True" and "pn n = Some i"
  shows "set_flags pb pn [(CfgCoordinatorBootstrap, yes), (CfgCoordinatorStartIndex, n),
      (CfgCoordinatorStartMilestoneID, Byte32_String m),
      (CfgCoordinatorStartMilestoneBlockID, Byte32_String b)] (default_flags sn) =
    Some \<lparr>bootstrap = True, startIndex = i, startMilestoneID = m, startMilestoneBlockID = b,
      bootstrapForce = False, SingleNode = sn\<rparr>"
  using assms Byte32_Set_String [of "[]" "[]"] by (simp add: default_flags_def set_flag_def flag_names)

text \<open>A flag the command line does not name keeps its value.\<close>
lemma set_flag_frame:
  assumes "set_flag pb pn n v cfg = Some cfg'"
  shows "(n \<noteq> CfgCoordinatorBootstrap \<longrightarrow> bootstrap cfg' = bootstrap cfg) \<and>
    (n \<noteq> CfgCoordinatorBootstrapForce \<longrightarrow> bootstrapForce cfg' = bootstrapForce cfg) \<and>
    (n \<noteq> CfgCoordinatorStartIndex \<longrightarrow> startIndex cfg' = startIndex cfg) \<and>
    (n \<noteq> CfgCoordinatorStartMilestoneID \<longrightarrow> startMilestoneID cfg' = startMilestoneID cfg) \<and>
    (n \<noteq> CfgCoordinatorStartMilestoneBlockID \<longrightarrow> startMilestoneBlockID cfg' = startMilestoneBlockID cfg) \<and>
    SingleNode cfg' = SingleNode cfg"
  using assms by (auto simp: set_flag_def split: if_splits option.splits prod.splits)

section \<open>Registration of the workers\<close>

definition PriorityStopTangleListener :: int where "PriorityStopTangleListener = 0"
definition PriorityStopDeCoo :: int where "PriorityStopDeCoo = 1"

datatype worker_body = TangleListenerRun | DecentralizedCoordinator

type_synonym workers = "(string \<times> worker_body \<times> int) list"

text \<open>
  The daemon registers a worker or refuses it (the argument \<open>accepts\<close>, over the workers it already
  has); a refusal is a panic of the component.
\<close>

definition register :: "(workers \<Rightarrow> string \<Rightarrow> bool) \<Rightarrow> string \<Rightarrow> worker_body \<Rightarrow> int \<Rightarrow> workers \<Rightarrow> (workers, unit) exec" where
  "register accepts name body prio ws =
     (if accepts ws name then Val () (ws @ [(name, body, prio)]) else Raise ''failed to start worker'' ws)"

definition plugin_run :: "(workers \<Rightarrow> string \<Rightarrow> bool) \<Rightarrow> workers \<Rightarrow> (workers, unit) exec" where
  "plugin_run accepts ws =
     exec_bind (register accepts ''TangleListener'' TangleListenerRun PriorityStopTangleListener ws) (\<lambda>u ws.
     exec_bind (register accepts ''Decentralized Coordinator'' DecentralizedCoordinator PriorityStopDeCoo ws)
       (\<lambda>u ws. Val () ws))"

text \<open>
  On a daemon that refuses a name only when it is taken, the component starts once, and starting it
  a second time panics before anything is registered.
\<close>
lemma plugin_run_once:
  assumes "\<And>ws n. accepts ws n \<longleftrightarrow> n \<notin> fst ` set ws" and "plugin_run accepts ws = Val () ws'"
  shows "plugin_run accepts ws' = Raise ''failed to start worker'' ws'"
  using assms by (auto simp: plugin_run_def register_def split: if_splits)

section \<open>Application\<close>

text \<open>
  \<open>init\<close> of \<open>components/app/app.go\<close>: eight bytes of the system's randomness, where it has them, are
  the seed that \<open>math/rand\<close> reads as a signed number. \<open>App\<close> lists the components in the order in
  which they are initialized, and the flags that the help text shows.
\<close>

definition app_init :: "bytes option \<Rightarrow> int go" where
  "app_init rd =
     (case rd of
        None \<Rightarrow> Panic ''cannot seed math/rand package with cryptographically secure random number generator''
      | Some b \<Rightarrow> Ret (sint (of_le64 b)))"

definition NonHiddenFlags :: "string list" where
  "NonHiddenFlags =
     [''config'', ''help'', ''version'', CfgCoordinatorBootstrap, CfgCoordinatorStartIndex,
      CfgCoordinatorStartMilestoneID, CfgCoordinatorStartMilestoneBlockID]"

datatype app_component = InxComponent | DecooComponent | ShutdownComponent | ProfilingComponent

definition App_components :: "app_component list" where
  "App_components = [InxComponent, DecooComponent, ShutdownComponent, ProfilingComponent]"

text \<open>No randomness is lost: different bytes are different seeds.\<close>
lemma app_init_injective:
  assumes "length b = 8" and "length c = 8" and "app_init (Some b) = app_init (Some c)"
  shows "b = c"
proof -
  have "sint (of_le64 b) = sint (of_le64 c)" using assms(3) by (simp add: app_init_def)
  then have "of_le64 b = of_le64 c" by (rule signed_word_eqI)
  then show ?thesis using of_le64_inverse assms(1,2) by metis
qed

text \<open>Of the flags of the coordinator only the one that forces a bootstrap is hidden.\<close>
lemma hidden_flag:
  "set_flag pb pn n v cfg \<noteq> None \<Longrightarrow> n \<notin> set NonHiddenFlags \<Longrightarrow> n = CfgCoordinatorBootstrapForce"
  by (auto simp: set_flag_def NonHiddenFlags_def split: if_splits)

section \<open>The logger of Tendermint\<close>

text \<open>
  The levels, their order and the wrapped logger belong to \<open>zap\<close>: the record \<open>zap\<close> holds what
  \<open>TenderLogger\<close> uses of them. What a call writes is the list of calls of the wrapped logger.
\<close>

record ('log, 'lvl, 'kv) zap =
  Enabled :: "'lvl \<Rightarrow> 'lvl \<Rightarrow> bool"
  DebugLevel :: 'lvl
  InfoLevel :: 'lvl
  ErrorLevel :: 'lvl
  LoggerWith :: "'log \<Rightarrow> 'kv list \<Rightarrow> 'log"
  AddCallerSkip :: "nat \<Rightarrow> 'log \<Rightarrow> 'log"

datatype 'kv log_call = Debugw string "'kv list" | Infow string "'kv list" | Errorw string "'kv list"

record ('log, 'lvl) tender_logger =
  Logger :: 'log
  level :: 'lvl

definition NewTenderLogger :: "('log, 'lvl, 'kv) zap \<Rightarrow> 'log \<Rightarrow> 'lvl \<Rightarrow> ('log, 'lvl) tender_logger" where
  "NewTenderLogger Z log l = \<lparr>Logger = AddCallerSkip Z 1 log, level = l\<rparr>"

definition TenderLogger_Debug :: "('log, 'lvl, 'kv) zap \<Rightarrow> ('log, 'lvl) tender_logger \<Rightarrow> string \<Rightarrow> 'kv list \<Rightarrow> ('log \<times> 'kv log_call) list" where
  "TenderLogger_Debug Z l msg kvs =
     (if Enabled Z (level l) (DebugLevel Z) then [(Logger l, Debugw msg kvs)] else [])"

definition TenderLogger_Info :: "('log, 'lvl, 'kv) zap \<Rightarrow> ('log, 'lvl) tender_logger \<Rightarrow> string \<Rightarrow> 'kv list \<Rightarrow> ('log \<times> 'kv log_call) list" where
  "TenderLogger_Info Z l msg kvs =
     (if Enabled Z (level l) (InfoLevel Z) then [(Logger l, Infow msg kvs)] else [])"

definition TenderLogger_Error :: "('log, 'lvl, 'kv) zap \<Rightarrow> ('log, 'lvl) tender_logger \<Rightarrow> string \<Rightarrow> 'kv list \<Rightarrow> ('log \<times> 'kv log_call) list" where
  "TenderLogger_Error Z l msg kvs =
     (if Enabled Z (level l) (ErrorLevel Z) then [(Logger l, Errorw msg kvs)] else [])"

definition TenderLogger_With :: "('log, 'lvl, 'kv) zap \<Rightarrow> ('log, 'lvl) tender_logger \<Rightarrow> 'kv list \<Rightarrow> ('log, 'lvl) tender_logger" where
  "TenderLogger_With Z l kvs = \<lparr>Logger = LoggerWith Z (Logger l) kvs, level = level l\<rparr>"

lemmas tender_logger_defs = NewTenderLogger_def TenderLogger_Debug_def TenderLogger_Info_def
  TenderLogger_Error_def TenderLogger_With_def

text \<open>Adding context, however often, never changes which messages pass.\<close>
lemma context_keeps_filter:
  "map snd (TenderLogger_Debug Z (fold (\<lambda>k l. TenderLogger_With Z l k) ks l) msg kvs) =
     map snd (TenderLogger_Debug Z l msg kvs) \<and>
   map snd (TenderLogger_Info Z (fold (\<lambda>k l. TenderLogger_With Z l k) ks l) msg kvs) =
     map snd (TenderLogger_Info Z l msg kvs) \<and>
   map snd (TenderLogger_Error Z (fold (\<lambda>k l. TenderLogger_With Z l k) ks l) msg kvs) =
     map snd (TenderLogger_Error Z l msg kvs)"
  by (induction ks arbitrary: l) (simp_all add: tender_logger_defs)

section \<open>The generator of the documentation\<close>

text \<open>
  \<open>tools/gendoc\<close>. Files are read and written by the system: \<open>gdRead\<close> and \<open>gdWritable\<close> tell how; the
  texts of the configuration come from hive.go. The state is what has been written, in order; a
  failed write is taken to leave no file.
\<close>

record gendoc_env =
  gdRead :: "string \<Rightarrow> string option"
  gdWritable :: "string \<Rightarrow> bool"
  gdMarkdown :: string
  gdDefaults :: string

type_synonym files = "(string \<times> string) list"

text \<open>\<open>strings.Replace\<close> of the first occurrence\<close>

fun replace_first :: "string \<Rightarrow> string \<Rightarrow> string \<Rightarrow> string" where
  "replace_first old new s =
     (if take (length old) s = old then new @ drop (length old) s
      else case s of [] \<Rightarrow> [] | c # cs \<Rightarrow> c # replace_first old new cs)"

declare replace_first.simps [simp del]

definition nl :: string where "nl = [CHR 0x0A]"

definition front_notice :: string where
  "front_notice = ''---'' @ nl @ ''# !!! DO NOT MODIFY !!!'' @ nl @
     ''# This file is auto-generated by the gendoc tool based on the source code of the app.''"

definition comment_notice :: string where
  "comment_notice = ''<!---'' @ nl @ ''!!! DO NOT MODIFY !!!'' @ nl @ nl @
     ''This file is auto-generated by the gendoc tool based on the source code of the app.'' @ nl @ ''-->'' @ nl"

definition markdown_header :: "string \<Rightarrow> string" where
  "markdown_header h =
     (if take 3 h = ''---'' then replace_first ''---'' front_notice h else comment_notice @ h)"

definition write_file :: "gendoc_env \<Rightarrow> string \<Rightarrow> string \<Rightarrow> files \<Rightarrow> (files, unit) exec" where
  "write_file E path content fs =
     (if gdWritable E path then Val () (fs @ [(path, content)]) else Raise ''write'' fs)"

definition createMarkdownFile :: "gendoc_env \<Rightarrow> string \<Rightarrow> string \<Rightarrow> files \<Rightarrow> (files, unit) exec" where
  "createMarkdownFile E headerPath filePath fs =
     (case (if headerPath = [] then Some [] else gdRead E headerPath) of
        None \<Rightarrow> Raise ''read'' fs
      | Some h \<Rightarrow> write_file E filePath (markdown_header h @ gdMarkdown E) fs)"

definition createDefaultConfigFile :: "gendoc_env \<Rightarrow> string \<Rightarrow> files \<Rightarrow> (files, unit) exec" where
  "createDefaultConfigFile E filePath fs = write_file E filePath (gdDefaults E) fs"

definition gendoc_main :: "gendoc_env \<Rightarrow> files \<Rightarrow> (files, unit) exec" where
  "gendoc_main E fs =
     exec_bind (createMarkdownFile E ''configuration_header.md'' ''../../configuration.md'' fs) (\<lambda>u.
       createDefaultConfigFile E ''../../config_defaults.json'')"

lemma sublist_before: "sublist xs ys \<Longrightarrow> sublist xs (ys @ zs)"
  using sublist_order.order_trans [OF _ sublist_append_rightI] .

lemma markdown_header_eq:
  "markdown_header h = (if take 3 h = ''---'' then front_notice @ drop 3 h else comment_notice @ h)"
  using replace_first.simps [of "''---''" front_notice h] by (simp add: markdown_header_def eval_nat_numeral)

text \<open>
  Every markdown file carries the notice, front matter stays the first line of the file, and the text of
  the header follows in full.
\<close>
lemma markdown_header_notice:
  "sublist ''!!! DO NOT MODIFY !!!'' (markdown_header h)"
  "prefix ''---'' h \<Longrightarrow> prefix (''---'' @ nl) (markdown_header h)"
  "suffix (if prefix ''---'' h then drop 3 h else h) (markdown_header h)"
proof -
  have "sublist ''!!! DO NOT MODIFY !!!'' front_notice" "sublist ''!!! DO NOT MODIFY !!!'' comment_notice"
    unfolding front_notice_def comment_notice_def nl_def by code_simp+
  then show "sublist ''!!! DO NOT MODIFY !!!'' (markdown_header h)"
    unfolding markdown_header_eq by (simp only: sublist_before split: if_split) simp
  have p: "prefix ''---'' h \<longleftrightarrow> take 3 h = ''---''"
    by (metis append_eq_conv_conj append_take_drop_id length_Cons list.size(3) numeral_3_eq_3 prefix_def)
  show "prefix ''---'' h \<Longrightarrow> prefix (''---'' @ nl) (markdown_header h)"
    by (simp add: p markdown_header_eq front_notice_def)
  show "suffix (if prefix ''---'' h then drop 3 h else h) (markdown_header h)"
    by (simp add: p markdown_header_eq suffix_def)
qed

text \<open>The tool ends exactly when it can read the header and write both files, in this order.\<close>
lemma gendoc_main_Val:
  "gendoc_main E fs = Val () fs' \<longleftrightarrow>
     (\<exists>h. gdRead E ''configuration_header.md'' = Some h \<and>
        gdWritable E ''../../configuration.md'' \<and> gdWritable E ''../../config_defaults.json'' \<and>
        fs' = fs @ [(''../../configuration.md'', markdown_header h @ gdMarkdown E),
          (''../../config_defaults.json'', gdDefaults E)])"
  by (auto simp: gendoc_main_def createMarkdownFile_def createDefaultConfigFile_def write_file_def
      split: option.splits)

end
