(* ===== verification/Spec2Isabelle.thy ===== *)
theory Spec2Isabelle
  imports Inx Round Worker SelectorConcurrent QueueStop Shell "HOL-Library.Sublist"
begin

text \<open>
  A verification library for inx-tendercoo, the decentralized coordinator of an IOTA network. The
  members of a committee run a Tendermint blockchain on which they agree on the parents of the
  next milestone and collect the signatures for it; each member runs the program as a plugin (INX)
  of its own node.

  The theories follow the program. \<open>Prelude\<close> holds what they share: results of operations that
  may panic (\<open>go\<close>, and \<open>exec\<close> when there is a state left behind), maps, Go's \<open>copy\<close>, sorting, and the
  collection \<open>go_simps\<close>. Then come, with the file of the repository each translates:

    \<^item> \<open>Byte32\<close> (\<open>pkg/decoo/types/byte32.go\<close>), \<open>Committee\<close> (\<open>committee.go\<close>), \<open>CooState\<close> (\<open>state.go\<close>),
      \<open>AppState\<close> (\<open>appstate.go\<close>), \<open>CommitStore\<close> (\<open>commit.go\<close>), \<open>Txs\<close> and \<open>Wire\<close> (\<open>txs.go\<close> and
      \<open>proto/tendermint/tx.pb.go\<close>);
    \<^item> \<open>KeyedQueue\<close> (\<open>queue/queue.go\<close>), the retry queue of the transactions to be broadcast;
    \<^item> \<open>Coordinator\<close> and \<open>Lifecycle\<close> (\<open>coordinator.go\<close>), \<open>App\<close> (\<open>app.go\<close>, the ABCI application);
    \<^item> \<open>Selector\<close> (\<open>pkg/selector/heaviest.go\<close>), the choice of the tip a member proposes;
    \<^item> \<open>Inx\<close> (\<open>components/decoo/inx.go\<close>), the client of the node that the coordinator calls;
    \<^item> \<open>Resume\<close> (\<open>components/decoo/coordinator.go\<close>), bootstrapping and resuming at start;
    \<^item> \<open>Loop\<close> (\<open>components/decoo/loop.go\<close> and \<open>queue/single.go\<close>), the loop that proposes a parent for
      every milestone, and \<open>Plugin\<close> (\<open>component.go\<close>, \<open>proposeParent\<close> of \<open>loop.go\<close>), the keys, the
      provider of the coordinator and the callbacks that join selector, loop and coordinator;
    \<^item> \<open>Config\<close> (\<open>components/decoo/tendermint.go\<close>), the configuration of the Tendermint node, and
      \<open>Provide\<close> and \<open>Worker\<close> (\<open>provide\<close> and \<open>run\<close> of \<open>component.go\<close>), the parts of the plugin and their start;
    \<^item> \<open>Shell\<close> (the flags and worker registration of \<open>component.go\<close>, \<open>components/app\<close>, \<open>pkg/daemon\<close>,
      \<open>TenderLogger\<close> and \<open>tools/gendoc\<close>), what surrounds the plugin.

  A struct is a record with the fields of the code, a method a function of the record that
  returns the new one, with every early return, error and panic as a branch. Code outside the
  repository is a parameter: the records \<open>crypto_lib\<close>, \<open>iota_lib\<close>, \<open>app_lib\<close> and \<open>tx_lib\<close> extend
  each other by the functions of Ed25519, of iota.go and hive.go, of JSON and BLAKE2b and of
  protobuf; the predicates ending in \<open>_ok\<close> state their documented behaviour and appear as
  hypotheses. All of them hold of \<open>toy_tx\<close>, an executable instance on which the witnesses run;
  \<open>Codec\<close> and \<open>Wire\<close> build its encodings, the latter that of proto3. The node, the Tangle listener
  and the Tendermint client answer through the record \<open>inx\<close>, and what is asked of them is logged in
  \<open>effects\<close>. The order in which Go ranges over a map is an argument that enumerates the keys.

  What is proved, by theory:

    \<^item> \<open>Txs\<close>: the locale \<open>tx_contract\<close> states what every transaction keeps and how errors behave, and
      is interpreted on \<open>Apply\<close>; transactions refine votes on an abstract ballot.
    \<^item> \<open>Wire\<close>: round trip, size and exact acceptance of transactions.
    \<^item> \<open>KeyedQueue\<close>: the invariant of all interleavings of callers, timer, loop and \<open>Stop\<close>; the
      locale \<open>keyed_fifo\<close> is the contract of the queue as its callers see it. \<open>QueueStop\<close>: \<open>Stop\<close> ends.
    \<^item> \<open>AppFacts\<close>: what each ABCI operation does when it returns, with the locale \<open>tx_handler\<close> for
      \<open>CheckTx\<close> and \<open>DeliverTx\<close>; \<open>Progress\<close>: when they return; \<open>AppProperties\<close>: their properties.
    \<^item> \<open>System\<close> defines runs: consensus calls in order, with any local steps between. \<open>Invariants\<close>
      proves the invariant \<open>coo_inv\<close> of runs by rule induction, \<open>Agreement\<close> the simulation between
      two replicas; this theory states their consequences. \<open>Demo\<close> is an execution of a small committee
      through whole milestones, and \<open>Liveness\<close> shows what enough members achieve in a block. \<open>Round\<close> joins
      them: the transactions the coordinators of enough members make issue a milestone.
    \<^item> \<open>SelectorFacts\<close>, \<open>SelectorGreedy\<close> and \<open>SelectorProperties\<close>: the heap of tracked blocks represents
      a graph, and a selection is greedy on the past cones. \<open>SelectorConcurrent\<close>: blocks that arrive
      at any point of a selection do not influence it, so elsewhere a selection is one step.
    \<^item> \<open>Inx\<close>: when the white flag of the client succeeds. \<open>ResumeProperties\<close>: which milestone a plugin
      resumes from, that every start leads to a state runs start from, and when it returns.
    \<^item> \<open>LoopProperties\<close> and \<open>PluginProperties\<close>: invariants of all interleavings of the loop with its
      timer, its queue and the callbacks, by rule induction, and what a proposal consists of.
    \<^item> \<open>ConfigProperties\<close>: parameters, configuration and genesis file fit together. \<open>Worker\<close>: a
      worker that reaches its loop has started coordinator and loop consistently. \<open>Shell\<close>: the flags
      reach that worker, and every generated markdown file carries its notice.

  Bounds: heights are 64-bit and indices 32-bit words that wrap as in Go; counts of issuers are
  \<open>int\<close>s bounded by the number of members. Loops are structural recursions over the lists they
  range over; \<open>selectGreedy\<close> recurses over the \<open>maxTips\<close> iterations of its \<open>for\<close> loop, and no other
  fuel is needed. The waits of \<open>Resume\<close> and its walk down the milestones may never end and are
  partial functions into options, with theorems on when they do; a send or receive on a channel
  that waits is \<open>None\<close>, and a receive that nothing can serve the position \<open>Blocked\<close> of the loop.

  Not modelled: the messages of the coordinator's own log; timeouts of contexts other than as
  errors; the nil maps of an \<open>AppState\<close> before its first \<open>Reset\<close>, which every coordinator has
  when Tendermint gets it (\<open>startWorker\<close>); the parsing of JSON and protobuf; the generated accessors of
  \<open>tx.pb.go\<close>; what Tendermint does in \<open>newTendermintNode\<close>; hooking the callbacks, and
  the dependency container and the rest of the app framework, whose \<open>Run\<close> is all that \<open>main.go\<close> calls.
\<close>

section \<open>Agreement of replicas\<close>

text \<open>
  C1. Replicas agree. Two coordinators of the same committee, with any local keys, that start in the
  same state and receive the same consensus calls have the same application state, the same
  commit info (so the same hash in every block) and have handed over the same milestones, with
  the same signatures: neither the order in which a runtime visits its maps nor anything a
  replica does locally between the calls shows in them.
\<close>
theorem replicas_agree:
  assumes "lib_ok L" and "ready L c" and "ready L d" and "same_committee (coCommittee c) (coCommittee d)"
    and "deliverState c = deliverState d" and "cms c = cms d"
    and "run L flag ver c ks c'" and "run L flag ver d ks d'"
  shows "deliverState c' = deliverState d' \<and> cms c' = cms d' \<and> submitted c' = submitted d'"
  using run_agree [OF assms(1,7,8) conjunct1 [OF ready_inv [OF assms(2)]] ready_agree [OF assms(2-6)]]
  by (simp add: agree_def)

lemma demo_replicas:
  "\<exists>c d c' d'. ready TL c \<and> ready TL d \<and> coCommittee c = demo_com 1 \<and> coCommittee d = demo_com 2 \<and>
     deliverState c = deliverState d \<and> cms c = cms d \<and>
     run TL demo_flag 2 c (demo_round state_at7 0) c' \<and> run TL demo_flag 2 d (demo_round state_at7 0) d' \<and>
     length (submitted c') = 1"
proof -
  obtain c where c: "ready TL c" "coCommittee c = demo_com 1" "deliverState c = Reset state_at7 zero_state"
    "Height (cms c) = 0" "Hash TL (Reset state_at7 zero_state) = Ret (CommitHash (cms c))" "submitted c = []"
    using demo_start [of 1] by metis
  obtain d where d: "ready TL d" "coCommittee d = demo_com 2" "deliverState d = Reset state_at7 zero_state"
    "Height (cms d) = 0" "Hash TL (Reset state_at7 zero_state) = Ret (CommitHash (cms d))"
    using demo_start [of 2] by metis
  have "coo_inv TL c" "coo_inv TL d" using ready_inv c(1) d(1) by blast+
  with demo_round_run [OF c(2) _ c(3,4)] demo_round_run [OF d(2) _ d(3,4)]
  obtain c' d' where r: "run TL demo_flag 2 c (demo_round state_at7 0) c'" "length (submitted c') = 1"
    "run TL demo_flag 2 d (demo_round state_at7 0) d'"
    using c(6) by (metis One_nat_def list.size(3))
  have "cms c = cms d" using c(4,5) d(4,5) by (simp add: commit_info.equality)
  with c d r show ?thesis by metis
qed

theorem replicas_agree_witness:
  "\<exists>c d c' d'. coCommittee c = demo_com 1 \<and> coCommittee d = demo_com 2 \<and>
     run TL demo_flag 2 c (demo_round state_at7 0) c' \<and> run TL demo_flag 2 d (demo_round state_at7 0) d' \<and>
     deliverState c' = deliverState d' \<and> cms c' = cms d' \<and> submitted c' = submitted d' \<and> submitted c' \<noteq> []"
proof -
  obtain c d c' d' where r: "ready TL c" "ready TL d" "coCommittee c = demo_com 1" "coCommittee d = demo_com 2"
     "deliverState c = deliverState d" "cms c = cms d"
     "run TL demo_flag 2 c (demo_round state_at7 0) c'" "run TL demo_flag 2 d (demo_round state_at7 0) d'"
     "length (submitted c') = 1"
    using demo_replicas by metis
  have "same_committee (coCommittee c) (coCommittee d)"
    by (simp add: r(3,4) same_committee_def demo_com_def)
  from replicas_agree [OF toy_lib_ok r(1,2) this r(5,6,7,8)] r(3,4,7,8,9) show ?thesis
    by (metis list.size(3) zero_neq_one)
qed

lemma step_submitted:
  assumes "abci_step L flag ver c k c'" and "json_ok L"
  shows "prefix (submitted c) (submitted c')"
  using assms(1)
proof cases
  case (beginb h u)
  then show ?thesis by (auto simp: BeginBlock_def go_simps split: option.splits)
next
  case (deliver tx r)
  then show ?thesis using deliver_tx.handler_Val by fastforce
next
  case (endb env bs ps u)
  then show ?thesis using EndBlock_Val(1) by (fastforce simp: frame_def)
next
  case (commit ks r)
  then show ?thesis
    using Commit_Val(4) [OF assms(2) commit(2)] by (auto simp: Let_def split: if_splits)
qed

lemma run_submitted:
  assumes "run L flag ver c ks c'" and "json_ok L"
  shows "prefix (submitted c) (submitted c')"
  using assms
proof (induction rule: run.induct)
  case (loc c ks c' c'')
  then show ?case using local_step_replicated by (fastforce simp: replicated_def)
next
  case (call c ks c' k c'')
  then show ?case using step_submitted by (metis prefix_order.order_trans)
qed simp

lemma run_prefix:
  assumes "run L flag ver c (ks @ ls) c'" and "json_ok L"
  shows "\<exists>d. run L flag ver c ks d \<and> prefix (submitted d) (submitted c')"
  using assms(1)
proof (induction ls arbitrary: c' rule: rev_induct)
  case Nil
  then show ?case by (metis append_Nil2 prefix_order.order_refl)
next
  case (snoc l ls)
  then obtain d d' where d: "run L flag ver c (ks @ ls) d" "abci_step L flag ver d l d'" "replicated c' = replicated d'"
    using run_snoc [of L flag ver c _ c' "ks @ ls" l] by auto
  then have "prefix (submitted d) (submitted c')"
    using step_submitted [OF d(2) assms(2)] by (simp add: replicated_def)
  then show ?case using snoc.IH [OF d(1)] by (meson prefix_order.order_trans)
qed

text \<open>
  C2. Replicas that are at different points of the same chain of blocks never contradict each other:
  the milestones of the one behind are the first milestones of the one ahead. So no index ever
  gets two different milestones.
\<close>
theorem replicas_never_diverge:
  assumes "lib_ok L" and "ready L c" and "ready L d" and "same_committee (coCommittee c) (coCommittee d)"
    and "deliverState c = deliverState d" and "cms c = cms d"
    and "run L flag ver c ks c'" and "run L flag ver d (ks @ ls) d'"
  shows "prefix (submitted c') (submitted d')"
proof -
  have "json_ok L" using assms(1) by (simp add: lib_ok_def)
  then obtain e where e: "run L flag ver d ks e" "prefix (submitted e) (submitted d')"
    using run_prefix [OF assms(8)] by blast
  have "agree c' e"
    using run_agree [OF assms(1,7) e(1) conjunct1 [OF ready_inv [OF assms(2)]] ready_agree [OF assms(2-6)]] .
  then show ?thesis using e(2) by (simp add: agree_def)
qed

theorem replicas_never_diverge_witness:
  "\<exists>c d c' d'. coCommittee c = demo_com 1 \<and> coCommittee d = demo_com 2 \<and>
     run TL demo_flag 2 c (demo_round state_at7 0) c' \<and> run TL demo_flag 2 d (demo_round state_at7 0) d' \<and>
     prefix (submitted c') (submitted d') \<and> length (submitted c') = 1"
proof -
  obtain c d c' d' where r: "ready TL c" "ready TL d" "coCommittee c = demo_com 1" "coCommittee d = demo_com 2"
     "deliverState c = deliverState d" "cms c = cms d"
     "run TL demo_flag 2 c (demo_round state_at7 0) c'" "run TL demo_flag 2 d (demo_round state_at7 0) d'"
     "length (submitted c') = 1"
    using demo_replicas by metis
  have "same_committee (coCommittee c) (coCommittee d)"
    by (simp add: r(3,4) same_committee_def demo_com_def)
  from replicas_never_diverge [OF toy_lib_ok r(1,2) this r(5,6,7), of "[]" d'] r(3,4,7,8,9) show ?thesis
    by (metis append_Nil2)
qed

section \<open>Milestones\<close>

text \<open>
  C3. The milestones of a run form a chain: each has the index after its predecessor, names the ID
  of its predecessor as the previous milestone, and has the block of its predecessor among its
  parents.
\<close>
theorem milestones_form_chain:
  assumes "lib_ok L" and "ready L c" and "run L flag ver c ks c'"
  shows "successively (\<lambda>ms ms'. msIndex ms' = msIndex ms + 1 \<and>
      ms_MustID L ms = Ret (msPreviousMilestoneID ms') \<and>
      (\<exists>b. MilestoneBlockID L ms = Ret b \<and> b \<in> set (msParents ms'))) (submitted c')"
proof -
  have "coo_inv L c'" using run_inv [OF assms(1,3)] ready_inv assms(2) by blast
  then have "successively (chained L) (submitted c')" by (simp add: coo_inv_def chain_inv_def)
  then show ?thesis
    by (rule successively_mono) (auto simp: chained_def follows_def carries_def)
qed

theorem milestones_form_chain_witness:
  "\<exists>c ks c'. run TL demo_flag 2 c ks c' \<and> length (submitted c') = 2 \<and>
    successively (\<lambda>ms ms'. msIndex ms' = msIndex ms + 1 \<and>
      ms_MustID TL ms = Ret (msPreviousMilestoneID ms') \<and>
      (\<exists>b. MilestoneBlockID TL ms = Ret b \<and> b \<in> set (msParents ms'))) (submitted c')"
proof -
  obtain c ks c' where r: "ready TL c" "run TL demo_flag 2 c ks c'" "length (submitted c') = 2"
    using demo_two_rounds by metis
  then show ?thesis using milestones_form_chain [OF toy_lib_ok r(1,2)] by blast
qed

text \<open>
  C4. Every milestone that is handed over for submission is valid. Its parents are distinct, sorted and
  at most \<open>BlockMaxParents\<close>, the last milestone block among them. It carries at least \<open>T\<close> signatures by
  as many different keys of members for its index, and each verifies the essence. Its metadata is
  that of a state with its index and predecessor, which \<open>NewStateFromMilestone\<close> recovers. So
  \<open>VerifySignatures\<close> accepts it, and \<open>submitMilestoneBlock\<close> never rejects it for its signatures.
\<close>
theorem milestones_are_valid:
  assumes "lib_ok L" and "num64_ok L" and "sigs_ok L" and "ready L c" and "run L flag ver c ks c'" and "0 < T c'"
    and "ms \<in> set (submitted c')"
  shows "(sorted_wrt (<) (msParents ms) \<and> length (msParents ms) \<le> BlockMaxParents L) \<and>
    T c' \<le> int (card (sigPublicKey ` set (msSignatures ms))) \<and> distinct (map sigPublicKey (msSignatures ms)) \<and>
    (\<forall>sg \<in> set (msSignatures ms). sigPublicKey sg \<in> Members (coCommittee c') (msIndex ms) \<and>
       (\<exists>es. essence_of L ms = Some es \<and> verify_raw L (sigPublicKey sg) es (sigSignature sg))) \<and>
    (\<exists>st. msMetadata ms = Metadata L st \<and> NewStateFromMilestone L ms = Inr st \<and>
       LastMilestoneBlockID st \<in> set (msParents ms)) \<and>
    verify_signatures L ms (T c') (Members (coCommittee c') (msIndex ms)) \<and>
    submitMilestoneBlock L env ms c' \<noteq> Val (Some ErrSignatures) d"
proof -
  have inv: "coo_inv L c'" using run_inv [OF assms(1,5)] ready_inv assms(4) by blast
  then obtain st where p: "parents_ok L ms" and s: "signed L (coCommittee c') ms" and st: "carries L st ms"
    using assms(7) by (auto simp: coo_inv_def chain_inv_def)
  have "msSignatures ms \<noteq> []" using s assms(6) by (auto simp: signed_def T_def)
  then obtain sg where "sg \<in> set (msSignatures ms)" by fastforce
  then obtain es where es: "essence_of L ms = Some es" using s by (auto simp: signed_def)
  have v: "verify_signatures L ms (T c') (Members (coCommittee c') (msIndex ms))"
    using assms(3)[unfolded sigs_ok_def, rule_format, OF es assms(6)] s es
    by (auto simp: signed_def T_def list_all_iff)
  then have sub: "submitMilestoneBlock L env ms c' \<noteq> Val (Some ErrSignatures) d"
    by (auto simp: submitMilestoneBlock_def Let_def go_simps split: option.splits if_splits)
  have S: "T c' \<le> int (card (sigPublicKey ` set (msSignatures ms)))"
    using signed_signers [OF s] by (simp add: T_def)
  have "NewStateFromMilestone L ms = Inr st" "msMetadata ms = Metadata L st"
    "LastMilestoneBlockID st \<in> set (msParents ms)"
    using NewStateFromMilestone_Metadata [OF assms(2)] st by (auto simp: carries_def)
  with p v s sub S show ?thesis unfolding parents_ok_def signed_def by blast
qed

theorem milestones_are_valid_witness:
  "\<exists>c ks c' ms sg st. run TL demo_flag 2 c ks c' \<and> ms \<in> set (submitted c') \<and> sg \<in> set (msSignatures ms) \<and>
    sigPublicKey sg = b32 1 \<and> sigSignature sg = toy_sig (b32 1) (toy_essence ms) \<and>
    NewStateFromMilestone TL ms = Inr st \<and>
    verify_signatures TL ms (T c') (Members (coCommittee c') (msIndex ms))"
proof -
  obtain c ks c' where r: "ready TL c" "coCommittee c = demo_com 1" "run TL demo_flag 2 c ks c'"
    "length (submitted c') = 2"
    using demo_two_rounds by metis
  then obtain ms where ms: "ms \<in> set (submitted c')" by (cases "submitted c'") auto
  have com: "coCommittee c' = demo_com 1" using run_committee [OF r(3) toy_tx_ok(1)] r(2) by simp
  then have T: "T c' = 1" by (simp add: T_def demo_com_def)
  then have "0 < T c'" by simp
  note v = milestones_are_valid [OF toy_lib_ok toy_tx_ok(3,7) r(1,3) this ms]
  have "msSignatures ms \<noteq> []" using v T by auto
  then obtain sg where sg: "sg \<in> set (msSignatures ms)" by fastforce
  have "Members (coCommittee c') (msIndex ms) = {b32 1}"
    by (simp add: com demo_com_def Members_def singleKeyRange_def)
  then have "sigPublicKey sg = b32 1" "sigSignature sg = toy_sig (b32 1) (toy_essence ms)"
    using v sg by (auto simp: toy_tx_fields)
  then show ?thesis using v r(3) ms sg by blast
qed

text \<open>
  C9. Both states of a coordinator are well formed at any point of a run, the one of blocks and the one
  of the mempool: everybody recorded in them is a member for the current index, each count is the
  number of issuers that proposed the block, only proposed blocks have proofs, and each signature
  is one of its own key that verifies the essence under construction, which carries the state's
  index, predecessor and metadata.
\<close>
theorem reachable_states_well_formed:
  assumes "lib_ok L" and "ready L c" and "run L flag ver c ks c'" and "s = deliverState c' \<or> s = checkState c'"
  shows "app_inv L (Members (coCommittee c') (MilestoneIndex (State s))) s \<and>
    (case Milestone s of
       None \<Rightarrow> SignaturesByIssuer s = fmempty
     | Some ms \<Rightarrow> carries L (State s) ms \<and> parents_ok L ms \<and> backed (F c') s ms \<and> msSignatures ms = [])"
proof -
  have "coo_inv L c'" using run_inv [OF assms(1,3)] ready_inv assms(2) by blast
  then have "state_ok L (coCommittee c') s" using assms(4) by (auto simp: coo_inv_def)
  then show ?thesis
    by (auto simp: state_ok_def milestone_inv_def F_def app_inv_def sigs_inv_def split: option.splits)
qed

theorem reachable_states_well_formed_witness:
  "\<exists>c ks c'. run TL demo_flag 2 c ks c' \<and> length (submitted c') = 2 \<and>
     app_inv TL (Members (coCommittee c') (MilestoneIndex (State (checkState c')))) (checkState c')"
proof -
  obtain c ks c' where r: "ready TL c" "run TL demo_flag 2 c ks c'" "length (submitted c') = 2"
    using demo_two_rounds by metis
  then show ?thesis using reachable_states_well_formed [OF toy_lib_ok r(1,2), of "checkState c'"] by blast
qed

text \<open>
  C5. A milestone under construction is backed by honest members, for any set \<open>Bad\<close> of at most \<open>F\<close>
  members: at least one of its parents was proposed by a member outside \<open>Bad\<close>, and each parent
  other than the last milestone block was proved by one.
\<close>
theorem milestone_backed_by_honest_members:
  assumes "lib_ok L" and "ready L c" and "run L flag ver c ks c'"
    and "Milestone (deliverState c') = Some ms" and "finite Bad" and "int (card Bad) \<le> F c'"
  shows "(\<exists>b p. b \<in> set (msParents ms) \<and> fmlookup (ParentByIssuer (deliverState c')) p = Some b \<and> p \<notin> Bad) \<and>
    list_all (\<lambda>b. b = LastMilestoneBlockID (State (deliverState c')) \<or>
      (\<exists>p. p \<in> provers (deliverState c') b \<and> p \<notin> Bad \<and>
           p \<in> Members (coCommittee c') (msIndex ms))) (msParents ms)"
proof -
  let ?s = "deliverState c'"
  have inv: "coo_inv L c'" using run_inv [OF assms(1,3)] ready_inv assms(2) by blast
  then have b: "backed (F c') ?s ms" "msIndex ms = MilestoneIndex (State ?s)"
    and m: "\<And>b. provers ?s b \<subseteq> Members (coCommittee c') (msIndex ms)"
    using assms(4)
    by (auto simp: coo_inv_def state_ok_def milestone_inv_def carries_def F_def app_inv_def members_inv_def)
  have honest: "\<exists>p \<in> A. p \<notin> Bad" if "F c' < int (card A)" for A
  proof -
    have "card Bad < card A" using that assms(6) by simp
    then have "\<not> A \<subseteq> Bad" using assms(5) card_mono not_le by blast
    then show ?thesis by blast
  qed
  obtain p where "p \<in> (\<Union>b \<in> set (msParents ms). proposers ?s b)" "p \<notin> Bad"
    using b(1) honest unfolding backed_def by blast
  then have 1: "\<exists>b p. b \<in> set (msParents ms) \<and> fmlookup (ParentByIssuer ?s) p = Some b \<and> p \<notin> Bad"
    by (auto simp: proposers_def)
  have 2: "b = LastMilestoneBlockID (State ?s) \<or>
      (\<exists>p. p \<in> provers ?s b \<and> p \<notin> Bad \<and> p \<in> Members (coCommittee c') (msIndex ms))" if "b \<in> set (msParents ms)" for b
  proof (cases "b = LastMilestoneBlockID (State ?s)")
    case False
    then have "F c' < int (card (provers ?s b))" using b(1) that by (auto simp: backed_def)
    from honest [OF this] show ?thesis using m by blast
  qed simp
  from 1 2 show ?thesis by (simp add: list_all_iff)
qed

theorem milestone_backed_by_honest_members_witness:
  "\<exists>c ks c' ms. run TL demo_flag 2 c ks c' \<and> Milestone (deliverState c') = Some ms \<and>
    (\<exists>b p. b \<in> set (msParents ms) \<and> fmlookup (ParentByIssuer (deliverState c')) p = Some b \<and> p \<notin> {})"
proof -
  obtain c where c: "ready TL c" "coCommittee c = demo_com 1" "deliverState c = Reset state_at7 zero_state"
    "Height (cms c) = 0"
    using demo_start [of 1] by metis
  have inv: "coo_inv TL c" using ready_inv [OF c(1)] by blast
  obtain d ms where d: "run TL demo_flag 2 c (take 5 (demo_round state_at7 0)) d" "coCommittee d = demo_com 1"
    "Milestone (deliverState d) = Some ms"
    using demo_block1 [OF c(2) inv c(3,4)] by metis
  have "int (card ({} :: peer_id set)) \<le> F d" by (simp add: F_def d(2) demo_com_def)
  from milestone_backed_by_honest_members [OF toy_lib_ok c(1) d(1,3) _ this] d show ?thesis by blast
qed

section \<open>Blocks and restarts\<close>

lemma run_header:
  assumes "run L flag ver c (map DeliverTxC txs) c'"
  shows "blockHeader (deliverState c') = blockHeader (deliverState c) \<and> cms c' = cms c"
  using assms
proof (induction txs arbitrary: c' rule: rev_induct)
  case Nil
  then show ?case using run_Nil by (fastforce simp: replicated_def)
next
  case (snoc tx txs)
  then obtain d d' where d: "run L flag ver c (map DeliverTxC txs) d" "abci_step L flag ver d (DeliverTxC tx) d'"
    "replicated c' = replicated d'"
    using run_snoc [of L flag ver c _ c' "map DeliverTxC txs" "DeliverTxC tx"] by auto
  obtain r s where h: "handleTx L (coCommittee d) tx (deliverState d) = Ret (r, s)" "d' = d\<lparr>deliverState := s\<rparr>"
    using d(2) deliver_tx.handler_Val by (blast elim: abci_step_DeliverE)
  have "blockHeader s = blockHeader (deliverState d)"
    using handleTx_Ret [OF h(1)] txs.ap_frame by blast
  then show ?case using snoc.IH [OF d(1)] h(2) d(3) by (simp add: replicated_def)
qed

text \<open>
  C23. Heights are sequential: a block that is processed to its \<open>Commit\<close>, with any transactions, has
  the height after the last committed one, and afterwards its height is the last committed one.
\<close>
theorem block_advances_height:
  assumes "json_ok L"
    and "run L flag ver c ([BeginBlockC h] @ map DeliverTxC txs @ [EndBlockC] @ [CommitC]) c'"
  shows "hdrHeight h = Height (cms c) + 1 \<and> Height (cms c') = Height (cms c) + 1"
proof -
  obtain d1 e1 where d: "run L flag ver c ([BeginBlockC h] @ map DeliverTxC txs @ [EndBlockC]) d1"
    "abci_step L flag ver d1 CommitC e1" "replicated c' = replicated e1"
    using run_snoc [OF assms(2), of "[BeginBlockC h] @ map DeliverTxC txs @ [EndBlockC]" CommitC] by auto
  obtain d2 e2 where d2: "run L flag ver c ([BeginBlockC h] @ map DeliverTxC txs) d2"
    "abci_step L flag ver d2 EndBlockC e2" "replicated d1 = replicated e2"
    using run_snoc [OF d(1), of "[BeginBlockC h] @ map DeliverTxC txs" EndBlockC] by auto
  have "\<exists>b. hdrHeight h = Height (cms c) + 1 \<and> blockHeader (deliverState d2) = h"
    using d2(1)
  proof (induction txs arbitrary: d2 rule: rev_induct)
    case Nil
    then obtain b b' where b: "run L flag ver c [] b" "abci_step L flag ver b (BeginBlockC h) b'"
      "replicated d2 = replicated b'"
      using run_snoc [of L flag ver c _ d2 "[]" "BeginBlockC h"] by auto
    have "cms b = cms c" using run_Nil [OF b(1)] by (simp add: replicated_def)
    moreover have "hdrHeight h = Height (cms b) + 1 \<and> blockHeader (deliverState b') = h"
      using b(2) by (auto simp: BeginBlock_def go_simps ValidateHeight_def LastCommitInfo_def Let_def
          elim!: abci_step_BeginE split: if_splits)
    ultimately show ?case using b(3) by (simp add: replicated_def)
  next
    case (snoc tx txs)
    then obtain b b' where b: "run L flag ver c ([BeginBlockC h] @ map DeliverTxC txs) b"
      "abci_step L flag ver b (DeliverTxC tx) b'" "replicated d2 = replicated b'"
      using run_snoc [of L flag ver c _ d2 "[BeginBlockC h] @ map DeliverTxC txs" "DeliverTxC tx"] by auto
    have "blockHeader (deliverState b') = blockHeader (deliverState b)"
      using run_header [of L flag ver b "[tx]" b'] run_one [OF b(2)] by simp
    then show ?case using snoc.IH [OF b(1)] b(3) by (simp add: replicated_def)
  qed
  moreover have "blockHeader (deliverState e2) = blockHeader (deliverState d2)"
    using d2(2) EndBlock_Val(2) by (fastforce simp: Let_def elim!: abci_step_EndE split: if_splits)
  moreover have "Height (cms e1) = hdrHeight (blockHeader (deliverState d1))"
    using d(2) Commit_Val(3) [OF assms(1)] by (fastforce elim!: abci_step_CommitE)
  ultimately show ?thesis using d(3) d2(3) by (simp add: replicated_def)
qed

theorem block_advances_height_witness:
  "\<exists>c d. run TL demo_flag 2 c (take 5 (demo_round state_at7 0)) d \<and> Height (cms d) = Height (cms c) + 1"
proof -
  obtain c where c: "ready TL c" "coCommittee c = demo_com 1" "deliverState c = Reset state_at7 zero_state"
    "Height (cms c) = 0"
    using demo_start [of 1] by metis
  have inv: "coo_inv TL c" using ready_inv [OF c(1)] by blast
  obtain d where d: "run TL demo_flag 2 c (take 5 (demo_round state_at7 0)) d"
    using demo_block1 [OF c(2) inv c(3,4)] by metis
  let ?txs = "[demo_tx (Parent 7 (b32 50)), demo_tx (Proof 7 (b32 50))]"
  have e: "take 5 (demo_round state_at7 0) =
      [BeginBlockC \<lparr>hdrHeight = 1, hdrTime = 1000\<rparr>] @ map DeliverTxC ?txs @ [EndBlockC] @ [CommitC]"
    by (simp add: demo_round_def state_at7_def)
  from block_advances_height [OF toy_tx_ok(1) d [unfolded e]] d show ?thesis by blast
qed

text \<open>
  C10. Resuming loses nothing. Take a replica right after a \<open>Commit\<close> that completed a milestone, and
  the next milestone of the chain, wherever it comes from: a new coordinator that is initialized
  from that milestone has the application state and the commit info of the replica, so
  Tendermint replays exactly the blocks that follow.
\<close>
theorem resume_from_next_milestone:
  assumes "json_ok L" and "num64_ok L" and "Commit L ks c = Val r c'" and "submitted c' \<noteq> submitted c"
    and "carries L (State (deliverState c')) ms"
  shows "\<exists>d'. InitState L ms d = Val None d' \<and>
    app_data.truncate (deliverState d') = app_data.truncate (deliverState c') \<and>
    app_data.truncate (checkState d') = app_data.truncate (checkState c') \<and> cms d' = cms c'"
proof -
  let ?st = "State (deliverState c')"
  note v = Commit_Val [OF assms(1,3)]
  have "\<exists>ms. completes c ms" using v(4) assms(4) by (auto split: if_splits)
  then obtain st where st: "deliverState c' = Reset st (deliverState c)"
    "MilestoneHeight st = hdrHeight (blockHeader (deliverState c))"
    using v(4) by (auto simp: Let_def)
  have n: "NewStateFromMilestone L ms = Inr ?st"
    using NewStateFromMilestone_Metadata [OF assms(2)] assms(5) by (simp add: carries_def)
  obtain d' where i: "initState L (MilestoneHeight ?st) ?st d = Val () d'"
    using initState_total [OF assms(1)] by blast
  note d = initState_Val [OF i]
  have t: "app_data.truncate (deliverState d') = app_data.truncate (deliverState c')"
    "app_data.truncate (checkState d') = app_data.truncate (deliverState c')"
    using d(1,2) st(1) truncate_Reset by simp_all
  have "Hash L (deliverState d') = Hash L (deliverState c')" using Hash_cong [OF t(1)] .
  then have "cms d' = cms c'"
    using v(3) d(3,4) st d(1) by (auto intro!: commit_info.equality)
  then show ?thesis using n i t v(2) by (simp add: InitState_def)
qed

text \<open>A commit of the example that completes a milestone.\<close>

lemma demo_completing_commit:
  "\<exists>c ks r c'. coo_inv TL c \<and> Commit TL ks c = Val r c' \<and> submitted c' \<noteq> submitted c"
proof -
  obtain c where c: "ready TL c" "coCommittee c = demo_com 1" "deliverState c = Reset state_at7 zero_state"
    "Height (cms c) = 0"
    using demo_start [of 1] by metis
  have inv: "coo_inv TL c" using ready_inv [OF c(1)] by blast
  obtain d ms where d: "run TL demo_flag 2 c (take 5 (demo_round state_at7 0)) d" "coCommittee d = demo_com 1"
    "Milestone (deliverState d) = Some ms" "State (deliverState d) = state_at7"
    "SignaturesByIssuer (deliverState d) = fmempty" "Height (cms d) = 0 + 1"
    using demo_block1 [OF c(2) inv c(3,4)] by metis
  have invd: "coo_inv TL d" using run_inv [OF toy_lib_ok d(1) inv] .
  obtain e where e: "run TL demo_flag 2 d (drop 5 (demo_round state_at7 0)) e"
    "length (submitted e) = Suc (length (submitted d))"
    using demo_block2 [OF d(2) invd d(3-6)] by metis
  obtain ls where ls: "drop 5 (demo_round state_at7 0) = ls @ [CommitC]" "CommitC \<notin> set ls"
    by (simp add: demo_round_def)
  obtain f f' where f: "run TL demo_flag 2 d ls f" "abci_step TL demo_flag 2 f CommitC f'"
    "replicated e = replicated f'"
    using run_snoc [OF e(1) ls(1)] by metis
  have "submitted f = submitted d" using run_without_commit [OF f(1) ls(2)] .
  moreover have "submitted f' = submitted e" using f(3) by (simp add: replicated_def)
  ultimately have "submitted f' \<noteq> submitted f" using e(2) by (metis n_not_Suc_n)
  moreover have "coo_inv TL f" using run_inv [OF toy_lib_ok f(1) invd] .
  ultimately show ?thesis using f(2) by (metis abci_step_CommitE)
qed

theorem resume_from_next_milestone_witness:
  "\<exists>c r c' ms d'. submitted c' \<noteq> submitted c \<and> carries TL (State (deliverState c')) ms \<and>
    InitState TL ms c = Val None d' \<and> cms d' = cms c'"
proof -
  obtain c ks r c' where c: "Commit TL ks c = Val r c'" "submitted c' \<noteq> submitted c"
    using demo_completing_commit by metis
  let ?st = "State (deliverState c')"
  let ?ms = "(NewMilestone (MilestoneIndex ?st) 0 2 (LastMilestoneID ?st) [LastMilestoneBlockID ?st] zero32 zero32)
    \<lparr>msMetadata := Metadata TL ?st\<rparr>"
  have ca: "carries TL ?st ?ms" by (simp add: carries_def NewMilestone_def)
  show ?thesis
    using resume_from_next_milestone [OF toy_tx_ok(1,3) c ca, of c] c(2) ca by blast
qed

end
